(* ===== verification/Prelude.thy ===== *)
theory Prelude
  imports Main "HOL-Library.Word" "HOL-Library.Sublist" "HOL-Library.Finite_Map"
begin

text \<open>
  Shared vocabulary of the development: the collections of rewrite rules the component
  theories extend, Go's 64-bit integers with their wrap-around written out, the error values
  of Go functions, and the combinators for Go code that runs one effect after another and
  returns at the first error.
\<close>

named_theorems go_simps \<open>rewrite rules for the Go standard library model\<close>
named_theorems codec_simps \<open>rewrite rules for encoders and decoders\<close>
named_theorems frame_simps \<open>fields an operation leaves unchanged\<close>

section \<open>Machine integers\<close>

text \<open>Go's \<open>int\<close> and \<open>int64\<close> on the 64-bit platforms the images are built for.\<close>

definition min_int64 :: int where
  "min_int64 = - 9223372036854775808"

definition max_int64 :: int where
  "max_int64 = 9223372036854775807"

definition in_int64 :: "int \<Rightarrow> bool" where
  "in_int64 n \<longleftrightarrow> min_int64 \<le> n \<and> n \<le> max_int64"

definition wrap64 :: "int \<Rightarrow> int" where
  "wrap64 n = (n + 9223372036854775808) mod 18446744073709551616 - 9223372036854775808"

lemma in_int64_iff: "in_int64 n \<longleftrightarrow> - 9223372036854775808 \<le> n \<and> n \<le> 9223372036854775807"
  by (simp add: in_int64_def min_int64_def max_int64_def)

lemma wrap64_in: "in_int64 (wrap64 n)"
proof -
  have "0 \<le> (n + 9223372036854775808) mod 18446744073709551616"
    and "(n + 9223372036854775808) mod 18446744073709551616 < 18446744073709551616"
    by simp_all
  then show ?thesis by (auto simp: in_int64_iff wrap64_def)
qed

lemma wrap64_id: "in_int64 n \<Longrightarrow> wrap64 n = n"
  by (auto simp: in_int64_iff wrap64_def)

lemma wrap64_small [simp]: "0 \<le> n \<Longrightarrow> n \<le> 9223372036854775807 \<Longrightarrow> wrap64 n = n"
  by (rule wrap64_id) (simp add: in_int64_iff)

text \<open>Go's \<open>n + 1\<close> on \<open>int64\<close>.\<close>

definition succ64 :: "int \<Rightarrow> int" where
  "succ64 n = wrap64 (n + 1)"

lemma succ64_plain: "in_int64 n \<Longrightarrow> n \<noteq> max_int64 \<Longrightarrow> succ64 n = n + 1"
  by (auto simp: succ64_def in_int64_def max_int64_def min_int64_def wrap64_def)

lemma succ64_in: "in_int64 (succ64 n)"
  by (simp add: succ64_def wrap64_in)

type_synonym u64 = "64 word"
type_synonym u32 = "32 word"

section \<open>Errors and sequencing\<close>

text \<open>A Go \<open>error\<close> is its message; a function that returns only an error returns
  \<open>None\<close> for \<open>nil\<close>.\<close>

type_synonym go_error = string
type_synonym 's act = "'s \<Rightarrow> go_error option \<times> 's"

definition skip :: "'s act" where
  "skip s = (None, s)"

text \<open>\<open>if err := a(); err != nil { return err }; b()\<close>\<close>

definition and_then :: "'s act \<Rightarrow> 's act \<Rightarrow> 's act" where
  "and_then a b s = (case a s of (Some e, s') \<Rightarrow> (Some e, s') | (None, s') \<Rightarrow> b s')"

text \<open>A \<open>for range\<close> loop whose body returns at the first error.\<close>

fun for_each :: "('x \<Rightarrow> 's act) \<Rightarrow> 'x list \<Rightarrow> 's act" where
  "for_each f [] = skip"
| "for_each f (x # xs) = and_then (f x) (for_each f xs)"

lemma skip_apply: "skip s = (None, s)"
  by (simp add: skip_def)

lemma and_then_None: "a s = (None, s') \<Longrightarrow> and_then a b s = b s'"
  by (simp add: and_then_def)

lemma and_then_Some: "a s = (Some e, s') \<Longrightarrow> and_then a b s = (Some e, s')"
  by (simp add: and_then_def)

lemma and_then_assoc: "and_then (and_then a b) c = and_then a (and_then b c)"
  by (rule ext) (auto simp: and_then_def split: prod.splits option.splits)

lemma and_then_skip_left [simp]: "and_then skip b = b"
  by (rule ext) (simp add: and_then_def skip_apply)

lemma and_then_skip_right [simp]: "and_then a skip = a"
  by (rule ext) (auto simp: and_then_def skip_apply split: prod.splits option.splits)

lemma for_each_append: "for_each f (xs @ ys) = and_then (for_each f xs) (for_each f ys)"
  by (induction xs) (simp_all add: and_then_assoc)

text \<open>A relation every action of a loop keeps between its input and output state is kept by
  the loop, whether it ends or returns early.\<close>

lemma and_then_rel:
  assumes "\<And>s e s'. a s = (e, s') \<Longrightarrow> R s s'"
    and "\<And>s e s'. b s = (e, s') \<Longrightarrow> R s s'"
    and "\<And>s t u. R s t \<Longrightarrow> R t u \<Longrightarrow> R s u"
    and "and_then a b s = (e, s')"
  shows "R s s'"
  using assms(4) by (auto simp: and_then_def split: prod.splits option.splits intro: assms(1-3))

lemma for_each_rel:
  assumes step: "\<And>x s e s'. x \<in> set xs \<Longrightarrow> f x s = (e, s') \<Longrightarrow> R s s'"
    and refl: "\<And>s. R s s"
    and trans: "\<And>s t u. R s t \<Longrightarrow> R t u \<Longrightarrow> R s u"
    and run: "for_each f xs s = (e, s')"
  shows "R s s'"
  using step run
proof (induction xs arbitrary: s)
  case Nil
  then show ?case by (simp add: refl skip_apply)
next
  case (Cons x xs)
  obtain e1 s1 where x: "f x s = (e1, s1)" by (cases "f x s")
  have r1: "R s s1" by (rule Cons.prems(1) [OF _ x]) simp
  show ?case
  proof (cases e1)
    case None
    with Cons.prems(2) x have "for_each f xs s1 = (e, s')" by (simp add: and_then_def)
    then have "R s1 s'" by (rule Cons.IH [rotated]) (auto intro: Cons.prems(1))
    with r1 show ?thesis by (rule trans)
  next
    case (Some err)
    with Cons.prems(2) x have "s' = s1" by (simp add: and_then_def)
    with r1 show ?thesis by simp
  qed
qed

section \<open>Lists and finite maps\<close>

lemma filter_snoc: "filter P (xs @ [x]) = (if P x then filter P xs @ [x] else filter P xs)"
  by simp

lemma fcard_fmdrop:
  assumes "fmlookup m k = Some v"
  shows "Suc (fcard (fmdom (fmdrop k m))) = fcard (fmdom m)"
proof -
  from assms have "k |\<in>| fmdom m" by (rule fmdomI)
  then have "finsert k (fmdom m |-| {|k|}) = fmdom m" by auto
  moreover have "k |\<notin>| fmdom m |-| {|k|}" by simp
  ultimately show ?thesis
    by (metis fcard_finsert_disjoint fmdom_drop)
qed

lemma fcard_fmdrop_less:
  "fmlookup m k = Some v \<Longrightarrow> fcard (fmdom (fmdrop k m)) < fcard (fmdom m)"
  by (drule fcard_fmdrop) simp

lemma fmupd_fmdrop_same:
  "fmlookup m k = Some v \<Longrightarrow> fmupd k v (fmdrop k m) = m"
  by (rule fmap_ext) auto

lemma fmupd_same: "fmlookup m k = Some v \<Longrightarrow> fmupd k v m = m"
  by (rule fmap_ext) auto

end
