(* ===== verification/Go_Strings.thy ===== *)
theory Go_Strings
  imports Prelude
begin

text \<open>
  The part of Go's \<open>strings\<close>, \<open>strconv\<close> and \<open>unicode/utf8\<close> packages the program calls.
  A Go string is a sequence of bytes, so it is a \<open>char list\<close> whose characters are bytes.
\<close>

abbreviation byte :: "char \<Rightarrow> nat" where
  "byte c \<equiv> of_char c"

abbreviation chr :: "nat \<Rightarrow> char" where
  "chr n \<equiv> char_of n"

text \<open>A byte given by a numeral is a character literal.\<close>

lemma bit_Suc_0_0 [simp]: "bit (Suc 0) 0"
  by (simp add: bit_0)

lemmas chr_numeral [simp] = char_of_def [of "numeral n :: nat" for n]

section \<open>Searching and cutting\<close>

definition has_prefix :: "string \<Rightarrow> string \<Rightarrow> bool" where
  "has_prefix s p \<longleftrightarrow> take (length p) s = p"

definition has_suffix :: "string \<Rightarrow> string \<Rightarrow> bool" where
  "has_suffix s p \<longleftrightarrow> has_prefix (rev s) (rev p)"

fun contains :: "string \<Rightarrow> string \<Rightarrow> bool" where
  "contains [] p = (p = [])"
| "contains (c # cs) p = (has_prefix (c # cs) p \<or> contains cs p)"

definition trim_prefix :: "string \<Rightarrow> string \<Rightarrow> string" where
  "trim_prefix s p = (if has_prefix s p then drop (length p) s else s)"

text \<open>\<open>strings.TrimRight(s, c)\<close> and \<open>strings.Trim(s, c)\<close> for a cutset of one ASCII character.\<close>

definition trim_right_char :: "char \<Rightarrow> string \<Rightarrow> string" where
  "trim_right_char c s = rev (dropWhile (\<lambda>d. d = c) (rev s))"

definition trim_char :: "char \<Rightarrow> string \<Rightarrow> string" where
  "trim_char c s = trim_right_char c (dropWhile (\<lambda>d. d = c) s)"

text \<open>\<open>strings.Split(s, c)\<close> for a separator of one character: never the empty list.\<close>

fun split_char :: "char \<Rightarrow> string \<Rightarrow> string list" where
  "split_char c [] = [[]]"
| "split_char c (d # ds) =
     (if d = c then [] # split_char c ds
      else (case split_char c ds of [] \<Rightarrow> [[d]] | p # ps \<Rightarrow> (d # p) # ps))"

text \<open>\<open>strings.ReplaceAll(s, c, new)\<close> for an old string of one character.\<close>

definition replace_char :: "char \<Rightarrow> string \<Rightarrow> string \<Rightarrow> string" where
  "replace_char c new s = concat (map (\<lambda>d. if d = c then new else [d]) s)"

lemma has_prefix_iff: "has_prefix s p \<longleftrightarrow> (\<exists>r. s = p @ r)"
  by (metis append_eq_conv_conj append_take_drop_id has_prefix_def)

lemma has_prefix_append [simp]: "has_prefix (p @ r) p"
  by (simp add: has_prefix_def)

lemma has_prefix_Nil [simp]: "has_prefix s []"
  by (simp add: has_prefix_def)

lemma has_prefix_Cons [simp]:
  "has_prefix [] (c # p) = False"
  "has_prefix (d # s) (c # p) = (d = c \<and> has_prefix s p)"
  by (auto simp: has_prefix_def)

lemma has_prefix_trans: "has_prefix s p \<Longrightarrow> has_prefix p q \<Longrightarrow> has_prefix s q"
  by (auto simp: has_prefix_iff)

lemma has_prefix_extend: "has_prefix s p \<Longrightarrow> has_prefix (s @ t) p"
  by (auto simp: has_prefix_iff)

lemma has_suffix_iff: "has_suffix s p \<longleftrightarrow> (\<exists>r. s = r @ p)"
  unfolding has_suffix_def has_prefix_iff
  by (metis rev_append rev_rev_ident)

lemma has_suffix_append [simp]: "has_suffix (r @ p) p"
  by (auto simp: has_suffix_iff)

lemma contains_iff: "contains s p \<longleftrightarrow> (\<exists>l r. s = l @ p @ r)"
proof (induction s)
  case Nil
  then show ?case by auto
next
  case (Cons c cs)
  show ?case
  proof
    assume "contains (c # cs) p"
    then consider "has_prefix (c # cs) p" | "contains cs p" by auto
    then show "\<exists>l r. c # cs = l @ p @ r"
    proof cases
      case 1
      then obtain r where "c # cs = [] @ p @ r" by (auto simp: has_prefix_iff)
      then show ?thesis by blast
    next
      case 2
      with Cons.IH obtain l r where "c # cs = (c # l) @ p @ r" by auto
      then show ?thesis by blast
    qed
  next
    assume "\<exists>l r. c # cs = l @ p @ r"
    then obtain l r where lr: "c # cs = l @ p @ r" by blast
    show "contains (c # cs) p"
    proof (cases l)
      case Nil
      with lr have "has_prefix (c # cs) p" by (auto simp: has_prefix_iff)
      then show ?thesis by simp
    next
      case (Cons d l')
      with lr have "cs = l' @ p @ r" by simp
      with Cons.IH show ?thesis by auto
    qed
  qed
qed

lemma contains_append_left: "contains s p \<Longrightarrow> contains (t @ s) p"
  unfolding contains_iff by (metis append_assoc)

lemma contains_append_right: "contains s p \<Longrightarrow> contains (s @ t) p"
  unfolding contains_iff by (metis append_assoc)

lemma split_char_nonempty [simp]: "split_char c s \<noteq> []"
  by (cases s) (auto split: list.splits)

lemma split_char_no_sep: "p \<in> set (split_char c s) \<Longrightarrow> c \<notin> set p"
  by (induction s arbitrary: p) (fastforce split: if_splits list.splits)+

lemma trim_right_char_suffix: "\<exists>k. s = trim_right_char c s @ replicate k c"
proof -
  have "takeWhile (\<lambda>d. d = c) (rev s) = replicate (length (takeWhile (\<lambda>d. d = c) (rev s))) c"
    by (metis (mono_tags, lifting) replicate_length_same set_takeWhileD)
  moreover have "s = rev (dropWhile (\<lambda>d. d = c) (rev s)) @ rev (takeWhile (\<lambda>d. d = c) (rev s))"
    by (metis rev_append rev_rev_ident takeWhile_dropWhile_id)
  ultimately show ?thesis
    unfolding trim_right_char_def by (metis rev_replicate)
qed

lemma trim_right_char_last: "trim_right_char c s = [] \<or> last (trim_right_char c s) \<noteq> c"
  unfolding trim_right_char_def
  by (metis (mono_tags, lifting) hd_dropWhile last_rev rev_is_Nil_conv)

lemma trim_right_char_id: "s = [] \<or> last s \<noteq> c \<Longrightarrow> trim_right_char c s = s"
  by (cases s rule: rev_cases) (auto simp: trim_right_char_def)

section \<open>White space\<close>

text \<open>
  The UTF-8 encodings of the runes for which \<open>unicode.IsSpace\<close> holds, which is what
  \<open>strings.TrimSpace\<close> removes at both ends.
\<close>

definition space_seqs :: "string list" where
  "space_seqs = map (map chr)
     ([[9], [10], [11], [12], [13], [32], [194, 133], [194, 160], [225, 154, 128]] @
      map (\<lambda>b. [226, 128, b]) [128, 129, 130, 131, 132, 133, 134, 135, 136, 137, 138, 168, 169, 175] @
      [[226, 129, 159], [227, 128, 128]])"

text \<open>Remove members of \<open>qs\<close> from the front for as long as one of them matches.\<close>

function trim_seqs :: "string list \<Rightarrow> string \<Rightarrow> string" where
  "trim_seqs qs s =
     (case find (\<lambda>q. q \<noteq> [] \<and> has_prefix s q) qs of
        None \<Rightarrow> s
      | Some q \<Rightarrow> trim_seqs qs (drop (length q) s))"
  by pat_completeness auto
termination
  by (relation "measure (\<lambda>(qs, s). length s)")
     (auto simp: find_Some_iff has_prefix_iff)

declare trim_seqs.simps [simp del]

definition trim_space :: "string \<Rightarrow> string" where
  "trim_space s =
     rev (trim_seqs (map rev space_seqs) (rev (trim_seqs space_seqs s)))"

definition starts_with_any :: "string list \<Rightarrow> string \<Rightarrow> bool" where
  "starts_with_any qs s \<longleftrightarrow> (\<exists>q \<in> set qs. q \<noteq> [] \<and> has_prefix s q)"

lemma trim_seqs_id: "\<not> starts_with_any qs s \<Longrightarrow> trim_seqs qs s = s"
  by (subst trim_seqs.simps) (auto simp: starts_with_any_def find_Some_iff split: option.splits)

lemma trim_seqs_done: "\<not> starts_with_any qs (trim_seqs qs s)"
proof (induction qs s rule: trim_seqs.induct)
  case (1 qs s)
  show ?case
  proof (cases "find (\<lambda>q. q \<noteq> [] \<and> has_prefix s q) qs")
    case None
    then have "\<not> starts_with_any qs s" by (auto simp: find_None_iff starts_with_any_def)
    then show ?thesis by (simp add: trim_seqs_id)
  next
    case (Some q)
    with 1 show ?thesis by (subst trim_seqs.simps) simp
  qed
qed

lemma trim_seqs_suffix: "\<exists>l. s = l @ trim_seqs qs s"
proof (induction qs s rule: trim_seqs.induct)
  case (1 qs s)
  show ?case
  proof (cases "find (\<lambda>q. q \<noteq> [] \<and> has_prefix s q) qs")
    case None
    then show ?thesis by (subst trim_seqs.simps) simp
  next
    case (Some q)
    with 1 obtain l where "drop (length q) s = l @ trim_seqs qs (drop (length q) s)" by blast
    then have "s = (take (length q) s @ l) @ trim_seqs qs (drop (length q) s)"
      by (metis append.assoc append_take_drop_id)
    moreover from Some have "trim_seqs qs s = trim_seqs qs (drop (length q) s)"
      by (subst trim_seqs.simps) simp
    ultimately show ?thesis by metis
  qed
qed

lemma starts_with_any_prefix:
  "starts_with_any qs s \<Longrightarrow> starts_with_any qs (s @ t)"
  by (auto simp: starts_with_any_def intro: has_prefix_extend)

lemma trim_space_ends:
  "\<not> starts_with_any space_seqs (trim_space s)"
  "\<not> starts_with_any (map rev space_seqs) (rev (trim_space s))"
proof -
  let ?t = "trim_seqs space_seqs s"
  obtain l where "rev ?t = l @ rev (trim_space s)"
    using trim_seqs_suffix [of "rev ?t" "map rev space_seqs"] by (auto simp: trim_space_def)
  then have "?t = trim_space s @ rev l" by (metis rev_append rev_rev_ident)
  then show "\<not> starts_with_any space_seqs (trim_space s)"
    using trim_seqs_done [of space_seqs s] starts_with_any_prefix by metis
  show "\<not> starts_with_any (map rev space_seqs) (rev (trim_space s))"
    by (simp add: trim_space_def trim_seqs_done)
qed

lemma trim_space_idem: "trim_space (trim_space s) = trim_space s"
  using trim_space_ends [of s]
  by (metis rev_rev_ident trim_seqs_id trim_space_def)

lemma trim_space_Nil [simp]: "trim_space [] = []"
  by (simp add: trim_space_def trim_seqs_id starts_with_any_def has_prefix_def)

text \<open>A string whose first and last bytes are printable ASCII is left alone.\<close>

lemma trim_space_plain:
  assumes "s \<noteq> []" and "byte (hd s) \<in> {33..127}" and "byte (last s) \<in> {33..127}"
  shows "trim_space s = s"
proof -
  have hd: "\<not> starts_with_any space_seqs s"
    using assms(1,2) by (cases s) (auto simp: starts_with_any_def space_seqs_def of_char_of)
  obtain t c where s: "s = t @ [c]" using assms(1) by (cases s rule: rev_cases) auto
  have "\<not> starts_with_any (map rev space_seqs) (rev s)"
    using assms(3) by (auto simp: s starts_with_any_def space_seqs_def of_char_of)
  with hd show ?thesis by (simp add: trim_space_def trim_seqs_id)
qed

lemma trim_space_blank [simp]: "trim_space (CHR '' '' # s) = trim_space s"
proof -
  have "trim_seqs space_seqs (CHR '' '' # s) = trim_seqs space_seqs s"
    by (subst trim_seqs.simps) (simp add: space_seqs_def)
  then show ?thesis by (simp add: trim_space_def)
qed

section \<open>Letter case\<close>

text \<open>
  \<open>strings.ToLower\<close> as far as a comparison with ASCII text can see it: ASCII letters, and the
  two non-ASCII runes whose lower case is an ASCII letter (U+0130 and U+212A). Every other
  non-ASCII rune stays non-ASCII, so its bytes are kept.
\<close>

definition ascii_lower :: "char \<Rightarrow> char" where
  "ascii_lower c = (if 65 \<le> byte c \<and> byte c \<le> (90::nat) then chr (byte c + 32) else c)"

definition ascii_upper :: "char \<Rightarrow> char" where
  "ascii_upper c = (if 97 \<le> byte c \<and> byte c \<le> (122::nat) then chr (byte c - 32) else c)"

fun to_lower :: "string \<Rightarrow> string" where
  "to_lower (a # b # c # s) =
     (if a = chr 196 \<and> b = chr 176 then CHR ''i'' # to_lower (c # s)
      else if a = chr 226 \<and> b = chr 132 \<and> c = chr 170 then CHR ''k'' # to_lower s
      else ascii_lower a # to_lower (b # c # s))"
| "to_lower [a, b] =
     (if a = chr 196 \<and> b = chr 176 then ''i'' else [ascii_lower a, ascii_lower b])"
| "to_lower [a] = [ascii_lower a]"
| "to_lower [] = []"

text \<open>
  Simple case folding as \<open>strings.EqualFold\<close> and the field lookup of \<open>encoding/json\<close> use it,
  again as far as ASCII text can see it: U+017F folds with \<open>s\<close> and U+212A with \<open>k\<close>.
\<close>

fun fold_name :: "string \<Rightarrow> string" where
  "fold_name (a # b # c # s) =
     (if a = chr 197 \<and> b = chr 191 then CHR ''s'' # fold_name (c # s)
      else if a = chr 226 \<and> b = chr 132 \<and> c = chr 170 then CHR ''k'' # fold_name s
      else ascii_lower a # fold_name (b # c # s))"
| "fold_name [a, b] =
     (if a = chr 197 \<and> b = chr 191 then ''s'' else [ascii_lower a, ascii_lower b])"
| "fold_name [a] = [ascii_lower a]"
| "fold_name [] = []"

definition equal_fold :: "string \<Rightarrow> string \<Rightarrow> bool" where
  "equal_fold s t \<longleftrightarrow> fold_name s = fold_name t"

text \<open>\<open>strings.ToUpper\<close> on its ASCII letters; the bytes of other runes are kept.\<close>

definition to_upper :: "string \<Rightarrow> string" where
  "to_upper s = map ascii_upper s"

section \<open>UTF-8\<close>

text \<open>
  \<open>utf8_width s\<close> is the length of the well-formed UTF-8 sequence at the head of \<open>s\<close>, and 0 when
  \<open>utf8.DecodeRune\<close> returns \<open>RuneError\<close> with width 0 or 1 (no byte, or no such sequence).
\<close>

definition is_cont :: "char \<Rightarrow> bool" where
  "is_cont c \<longleftrightarrow> 128 \<le> byte c \<and> byte c \<le> (191::nat)"

definition byte_in :: "nat \<Rightarrow> nat \<Rightarrow> char \<Rightarrow> bool" where
  "byte_in lo hi c \<longleftrightarrow> lo \<le> byte c \<and> byte c \<le> hi"

definition lead_width :: "char \<Rightarrow> nat" where
  "lead_width a =
     (if byte_in 0 127 a then 1
      else if byte_in 194 223 a then 2
      else if byte_in 224 239 a then 3
      else if byte_in 240 244 a then 4
      else 0)"

definition second_ok :: "char \<Rightarrow> char \<Rightarrow> bool" where
  "second_ok a b =
     (if a = chr 224 then byte_in 160 191 b
      else if a = chr 237 then byte_in 128 159 b
      else if a = chr 240 then byte_in 144 191 b
      else if a = chr 244 then byte_in 128 143 b
      else is_cont b)"

definition utf8_width :: "string \<Rightarrow> nat" where
  "utf8_width s =
     (case s of
        [] \<Rightarrow> 0
      | a # _ \<Rightarrow>
          let n = lead_width a
          in if n \<le> 1 then n
             else if n \<le> length s \<and> second_ok a (s ! 1) \<and> list_all is_cont (take (n - 2) (drop 2 s))
             then n else 0)"

text \<open>The encoding of a code point (\<open>utf8.AppendRune\<close>) below \<open>0x110000\<close>.\<close>

definition utf8_encode :: "nat \<Rightarrow> string" where
  "utf8_encode n =
     (if n < 128 then [chr n]
      else if n < 2048 then [chr (192 + n div 64), chr (128 + n mod 64)]
      else if n < 65536 then
        [chr (224 + n div 4096), chr (128 + n div 64 mod 64), chr (128 + n mod 64)]
      else
        [chr (240 + n div 262144), chr (128 + n div 4096 mod 64),
         chr (128 + n div 64 mod 64), chr (128 + n mod 64)])"

definition replacement_rune :: string where
  "replacement_rune = map chr [239, 191, 189]"

lemma utf8_width_le: "utf8_width s \<le> length s"
  by (cases s) (auto simp: utf8_width_def Let_def)

text \<open>The width depends on the sequence only, not on what follows it.\<close>

lemma utf8_width_append:
  assumes "0 < utf8_width s"
  shows "utf8_width (s @ t) = utf8_width s"
  using assms
  by (cases s) (auto simp: utf8_width_def Let_def nth_append nth_Cons' split: if_split_asm)

lemma utf8_width_take:
  "0 < utf8_width s \<Longrightarrow> utf8_width (take (utf8_width s) s) = utf8_width s"
  by (cases s) (auto simp: utf8_width_def Let_def take_Cons' drop_take min_def split: if_split_asm)

lemma utf8_width_ascii: "byte c < (128::nat) \<Longrightarrow> utf8_width (c # s) = 1"
  by (simp add: utf8_width_def lead_width_def byte_in_def)

lemma utf8_width_ge_2: "\<not> byte c < (128::nat) \<Longrightarrow> utf8_width (c # s) \<noteq> 1"
  by (auto simp: utf8_width_def lead_width_def byte_in_def Let_def)

text \<open>\<open>utf8.ValidString\<close>.\<close>

function valid_utf8 :: "string \<Rightarrow> bool" where
  "valid_utf8 s =
     (if s = [] then True
      else if 0 < utf8_width s then valid_utf8 (drop (utf8_width s) s)
      else False)"
  by pat_completeness auto
termination
  by (relation "measure length") auto

declare valid_utf8.simps [simp del]

lemma valid_utf8_Nil [simp]: "valid_utf8 []"
  by (simp add: valid_utf8.simps)

lemma valid_utf8_ascii_Cons: "byte c < (128::nat) \<Longrightarrow> valid_utf8 (c # s) = valid_utf8 s"
  by (subst valid_utf8.simps) (simp add: utf8_width_ascii)

lemma valid_utf8_append: "valid_utf8 s \<Longrightarrow> valid_utf8 t \<Longrightarrow> valid_utf8 (s @ t)"
proof (induction s rule: valid_utf8.induct)
  case (1 s)
  show ?case
  proof (cases "s = []")
    case True
    with 1 show ?thesis by simp
  next
    case False
    with 1 have w: "0 < utf8_width s" and "valid_utf8 (drop (utf8_width s) s)"
      using valid_utf8.simps [of s] by (auto split: if_splits)
    with 1 False have "valid_utf8 (drop (utf8_width s) s @ t)" by simp
    with w show ?thesis
      using utf8_width_le [of s] by (subst valid_utf8.simps) (simp add: utf8_width_append)
  qed
qed

definition is_ascii :: "string \<Rightarrow> bool" where
  "is_ascii s \<longleftrightarrow> (\<forall>c \<in> set s. byte c < (128::nat))"

lemma valid_utf8_ascii: "is_ascii s \<Longrightarrow> valid_utf8 s"
  by (induction s) (auto simp: is_ascii_def valid_utf8_ascii_Cons)

section \<open>Decimal numbers\<close>

definition digit_char :: "nat \<Rightarrow> char" where
  "digit_char d = chr (48 + d)"

definition is_digit :: "char \<Rightarrow> bool" where
  "is_digit c \<longleftrightarrow> byte_in 48 57 c"

definition digit_val :: "char \<Rightarrow> nat" where
  "digit_val c = byte c - 48"

fun nat_digits :: "nat \<Rightarrow> string" where
  "nat_digits n = (if n < 10 then [digit_char n] else nat_digits (n div 10) @ [digit_char (n mod 10)])"

declare nat_digits.simps [simp del]

text \<open>\<open>strconv.Itoa\<close> and the \<open>%d\<close> verb.\<close>

definition itoa :: "int \<Rightarrow> string" where
  "itoa n = (if n < 0 then CHR ''-'' # nat_digits (nat (- n)) else nat_digits (nat n))"

definition digits_val :: "string \<Rightarrow> nat" where
  "digits_val s = foldl (\<lambda>n c. 10 * n + digit_val c) 0 s"

text \<open>\<open>strconv.Atoi\<close> and \<open>strconv.ParseInt(s, 10, 64)\<close>: an optional sign, at least one digit, nothing
  else, and a value in the range of \<open>int64\<close>.\<close>

definition parse_digits :: "string \<Rightarrow> nat option" where
  "parse_digits s = (if s \<noteq> [] \<and> list_all is_digit s then Some (digits_val s) else None)"

definition check_int64 :: "int \<Rightarrow> int option" where
  "check_int64 n = (if in_int64 n then Some n else None)"

definition atoi :: "string \<Rightarrow> int option" where
  "atoi s =
     (case s of
        [] \<Rightarrow> None
      | c # cs \<Rightarrow>
          if c = CHR ''-'' then Option.bind (parse_digits cs) (\<lambda>n. check_int64 (- int n))
          else if c = CHR ''+'' then Option.bind (parse_digits cs) (\<lambda>n. check_int64 (int n))
          else Option.bind (parse_digits (c # cs)) (\<lambda>n. check_int64 (int n)))"

lemma digit_char_props:
  assumes "d < 10"
  shows "is_digit (digit_char d)" "digit_val (digit_char d) = d" "byte (digit_char d) = 48 + d"
  using assms by (simp_all add: digit_char_def is_digit_def digit_val_def byte_in_def of_char_of)

lemma nat_digits_nonempty [simp]: "nat_digits n \<noteq> []"
  by (subst nat_digits.simps) simp

lemma nat_digits_digits: "list_all is_digit (nat_digits n)"
  by (induction n rule: nat_digits.induct)
     (subst nat_digits.simps, auto simp: digit_char_props list_all_iff)

lemma digits_val_snoc: "digits_val (s @ [c]) = 10 * digits_val s + digit_val c"
  by (simp add: digits_val_def)

lemma digits_val_nat_digits: "digits_val (nat_digits n) = n"
proof (induction n rule: nat_digits.induct)
  case (1 n)
  show ?case
  proof (cases "n < 10")
    case True
    then show ?thesis
      by (subst nat_digits.simps) (simp add: digits_val_def digit_char_props)
  next
    case False
    with 1 have "digits_val (nat_digits (n div 10) @ [digit_char (n mod 10)]) = n"
      by (simp add: digits_val_snoc digit_char_props)
    with False show ?thesis by (subst nat_digits.simps) simp
  qed
qed

lemma parse_nat_digits [simp]: "parse_digits (nat_digits n) = Some n"
  by (simp add: parse_digits_def nat_digits_digits digits_val_nat_digits)

lemma nat_digits_hd: "\<exists>c cs. nat_digits n = c # cs \<and> is_digit c \<and> c \<noteq> CHR ''-'' \<and> c \<noteq> CHR ''+''"
proof -
  obtain c cs where n: "nat_digits n = c # cs" by (cases "nat_digits n") simp_all
  with nat_digits_digits [of n] have "is_digit c" by simp
  moreover from this have "c \<noteq> CHR ''-''" "c \<noteq> CHR ''+''" by (auto simp: is_digit_def byte_in_def)
  ultimately show ?thesis using n by blast
qed

lemma atoi_itoa: "in_int64 n \<Longrightarrow> atoi (itoa n) = Some n"
proof (cases "n < 0")
  case True
  moreover assume "in_int64 n"
  ultimately show ?thesis by (simp add: itoa_def atoi_def check_int64_def)
next
  case False
  moreover assume "in_int64 n"
  moreover obtain c cs where "nat_digits (nat n) = c # cs" "c \<noteq> CHR ''-''" "c \<noteq> CHR ''+''"
    using nat_digits_hd by blast
  moreover have "parse_digits (nat_digits (nat n)) = Some (nat n)" by simp
  ultimately show ?thesis by (simp add: itoa_def atoi_def check_int64_def)
qed

lemma atoi_range: "atoi s = Some n \<Longrightarrow> in_int64 n"
  by (auto simp: atoi_def check_int64_def split: list.splits if_splits option.splits Option.bind_splits)

lemma nat_digits_ascii: "is_ascii (nat_digits n)"
  using nat_digits_digits [of n]
  by (auto simp: is_ascii_def list_all_iff is_digit_def byte_in_def)

lemma itoa_ascii: "is_ascii (itoa n)"
  using nat_digits_ascii by (auto simp: itoa_def is_ascii_def)

end
