(* ===== verification/Go_Time.thy ===== *)
theory Go_Time
  imports Go_Strings
begin

text \<open>
  \<open>time.Time\<close> as the program uses it: a civil time with nanoseconds and a zone offset, its RFC 3339
  text form (which \<open>encoding/json\<close> writes and reads), and the compact layout of the session ids.
  The program takes times from \<open>time.Now().UTC()\<close> and only ever formats them.
\<close>

record go_time =
  t_year :: int
  t_month :: nat
  t_day :: nat
  t_hour :: nat
  t_min :: nat
  t_sec :: nat
  t_nsec :: nat
  t_off :: int   \<comment> \<open>minutes east of UTC\<close>

definition zero_time :: go_time where
  "zero_time = \<lparr>t_year = 1, t_month = 1, t_day = 1, t_hour = 0, t_min = 0, t_sec = 0,
     t_nsec = 0, t_off = 0\<rparr>"

definition is_leap :: "int \<Rightarrow> bool" where
  "is_leap y \<longleftrightarrow> y mod 4 = 0 \<and> (y mod 100 \<noteq> 0 \<or> y mod 400 = 0)"

definition days_in :: "nat \<Rightarrow> int \<Rightarrow> nat" where
  "days_in m y =
     (if m = 2 then (if is_leap y then 29 else 28)
      else if m \<in> {4, 6, 9, 11} then 30 else 31)"

definition wf_time :: "go_time \<Rightarrow> bool" where
  "wf_time t \<longleftrightarrow>
     0 \<le> t_year t \<and> t_year t \<le> 9999 \<and> 1 \<le> t_month t \<and> t_month t \<le> 12 \<and>
     1 \<le> t_day t \<and> t_day t \<le> days_in (t_month t) (t_year t) \<and>
     t_hour t \<le> 23 \<and> t_min t \<le> 59 \<and> t_sec t \<le> 59 \<and> t_nsec t \<le> 999999999 \<and> t_off t = 0"

section \<open>Formatting\<close>

definition zero_pad :: "nat \<Rightarrow> nat \<Rightarrow> string" where
  "zero_pad w n = replicate (w - length (nat_digits n)) (CHR ''0'') @ nat_digits n"

definition trim_zeros :: "string \<Rightarrow> string" where
  "trim_zeros s = trim_right_char (CHR ''0'') s"

definition format_fraction :: "nat \<Rightarrow> string" where
  "format_fraction ns = (if ns = 0 then [] else CHR ''.'' # trim_zeros (zero_pad 9 ns))"

definition format_zone :: "int \<Rightarrow> string" where
  "format_zone off =
     (if off = 0 then ''Z''
      else (if off < 0 then ''-'' else ''+'') @ zero_pad 2 (nat \<bar>off\<bar> div 60) @ '':'' @
        zero_pad 2 (nat \<bar>off\<bar> mod 60))"

definition format_clock :: "go_time \<Rightarrow> string" where
  "format_clock t = zero_pad 4 (nat (t_year t)) @ ''-'' @ zero_pad 2 (t_month t) @ ''-'' @
     zero_pad 2 (t_day t) @ ''T'' @ zero_pad 2 (t_hour t) @ '':'' @ zero_pad 2 (t_min t) @ '':'' @
     zero_pad 2 (t_sec t)"

text \<open>\<open>Time.MarshalJSON\<close>: RFC 3339 with nanoseconds, an error for a year of other than four digits.\<close>

definition marshal_time :: "go_time \<Rightarrow> string option" where
  "marshal_time t =
     (if 0 \<le> t_year t \<and> t_year t \<le> 9999
      then Some (format_clock t @ format_fraction (t_nsec t) @ format_zone (t_off t))
      else None)"

section \<open>Parsing\<close>

definition field :: "nat \<Rightarrow> nat \<Rightarrow> nat \<Rightarrow> nat \<Rightarrow> string \<Rightarrow> nat option" where
  "field at w lo hi s =
     (case parse_digits (take w (drop at s)) of
        None \<Rightarrow> None
      | Some n \<Rightarrow> if lo \<le> n \<and> n \<le> hi then Some n else None)"

definition parse_fraction :: "string \<Rightarrow> nat \<times> string" where
  "parse_fraction s =
     (case s of
        c # d # r \<Rightarrow>
          if c = CHR ''.'' \<and> is_digit d
          then (let ds = take 9 (takeWhile is_digit (d # r))
                in (digits_val ds * 10 ^ (9 - length ds), dropWhile is_digit (d # r)))
          else (0, s)
      | _ \<Rightarrow> (0, s))"

definition parse_zone :: "string \<Rightarrow> int option" where
  "parse_zone s =
     (if s = ''Z'' then Some 0
      else if length s \<noteq> 6 then None
      else (case (field 1 2 0 23 s, field 4 2 0 59 s) of
          (Some h, Some m) \<Rightarrow>
            if s ! 3 \<noteq> CHR '':'' then None
            else if hd s = CHR ''+'' then Some (int (60 * h + m))
            else if hd s = CHR ''-'' then Some (- int (60 * h + m))
            else None
        | _ \<Rightarrow> None))"

text \<open>\<open>Time.UnmarshalJSON\<close>: the RFC 3339 reading of \<open>time.parseRFC3339\<close>.\<close>

definition unmarshal_time :: "string \<Rightarrow> go_time option" where
  "unmarshal_time s =
     (if length s < 19 \<or> s ! 4 \<noteq> CHR ''-'' \<or> s ! 7 \<noteq> CHR ''-'' \<or> s ! 10 \<noteq> CHR ''T'' \<or>
         s ! 13 \<noteq> CHR '':'' \<or> s ! 16 \<noteq> CHR '':'' then None
      else (case (field 0 4 0 9999 s, field 5 2 1 12 s) of
          (Some y, Some mo) \<Rightarrow>
            (case (field 8 2 1 (days_in mo (int y)) s, field 11 2 0 23 s, field 14 2 0 59 s,
                   field 17 2 0 59 s) of
               (Some d, Some h, Some mi, Some sec) \<Rightarrow>
                 (let (ns, r) = parse_fraction (drop 19 s)
                  in (case parse_zone r of
                        None \<Rightarrow> None
                      | Some off \<Rightarrow> Some \<lparr>t_year = int y, t_month = mo, t_day = d, t_hour = h,
                          t_min = mi, t_sec = sec, t_nsec = ns, t_off = off\<rparr>))
             | _ \<Rightarrow> None)
        | _ \<Rightarrow> None))"

text \<open>\<open>Format("20060102150405.000000000")\<close>: fourteen digits, a dot, nine digits of nanoseconds.\<close>

definition format_compact :: "go_time \<Rightarrow> string" where
  "format_compact t = zero_pad 4 (nat (t_year t)) @ zero_pad 2 (t_month t) @ zero_pad 2 (t_day t) @
     zero_pad 2 (t_hour t) @ zero_pad 2 (t_min t) @ zero_pad 2 (t_sec t) @ ''.'' @
     zero_pad 9 (t_nsec t)"

section \<open>Round trip\<close>

lemma digits_val_Cons: "digits_val (c # cs) = digit_val c * 10 ^ length cs + digits_val cs"
proof (induction cs rule: rev_induct)
  case Nil
  then show ?case by (simp add: digits_val_def)
next
  case (snoc d cs)
  have "digits_val (c # cs @ [d]) = 10 * digits_val (c # cs) + digit_val d"
    using digits_val_snoc [of "c # cs" d] by simp
  with snoc show ?case by (simp add: digits_val_snoc)
qed

lemma digits_val_Nil [simp]: "digits_val [] = 0"
  by (simp add: digits_val_def)

lemma digits_val_append: "digits_val (s @ t) = digits_val s * 10 ^ length t + digits_val t"
proof (induction t rule: rev_induct)
  case Nil
  then show ?case by simp
next
  case (snoc d t)
  have "digits_val (s @ t @ [d]) = 10 * digits_val (s @ t) + digit_val d"
    using digits_val_snoc [of "s @ t" d] by simp
  with snoc show ?case by (simp add: digits_val_snoc)
qed

lemma digits_val_zeros [simp]: "digits_val (replicate k (CHR ''0'')) = 0"
  by (induction k) (simp_all add: digits_val_Cons digit_val_def)

lemma digits_val_bound: "list_all is_digit s \<Longrightarrow> digits_val s < 10 ^ length s"
proof (induction s)
  case Nil
  then show ?case by simp
next
  case (Cons c s)
  then have "digits_val s < 10 ^ length s" and "digit_val c \<le> 9"
    by (auto simp: is_digit_def byte_in_def digit_val_def)
  then have "digit_val c * 10 ^ length s + digits_val s < 10 * 10 ^ length s"
    using mult_le_mono1 [of "digit_val c" 9 "10 ^ length s"] by linarith
  then show ?case by (simp add: digits_val_Cons)
qed

lemma length_nat_digits_le: "0 < w \<Longrightarrow> n < 10 ^ w \<Longrightarrow> length (nat_digits n) \<le> w"
proof (induction w arbitrary: n)
  case 0
  then show ?case by simp
next
  case (Suc w)
  show ?case
  proof (cases "n < 10")
    case True
    then show ?thesis by (subst nat_digits.simps) simp
  next
    case False
    with Suc.prems have "0 < w" by (cases w) auto
    moreover from Suc.prems have "n div 10 < 10 ^ w" by (simp add: less_mult_imp_div_less mult.commute)
    ultimately have "length (nat_digits (n div 10)) \<le> w" by (rule Suc.IH)
    with False show ?thesis by (subst nat_digits.simps) simp
  qed
qed

lemma zero_pad_digits: "list_all is_digit (zero_pad w n)"
  by (auto simp: zero_pad_def nat_digits_digits list_all_iff is_digit_def byte_in_def
      dest: nat_digits_digits [unfolded list_all_iff is_digit_def byte_in_def, rule_format])

lemma digits_val_zero_pad [simp]: "digits_val (zero_pad w n) = n"
  by (simp add: zero_pad_def digits_val_append digits_val_nat_digits)

lemma length_zero_pad: "0 < w \<Longrightarrow> n < 10 ^ w \<Longrightarrow> length (zero_pad w n) = w"
  using length_nat_digits_le [of w n] by (simp add: zero_pad_def)

lemma zero_pad_nonempty [simp]: "zero_pad w n \<noteq> []"
  by (simp add: zero_pad_def)

lemma parse_digits_zero_pad [simp]: "parse_digits (zero_pad w n) = Some n"
  by (simp add: parse_digits_def zero_pad_digits)

lemma trim_zeros_split: "\<exists>k. zero_pad 9 ns = trim_zeros (zero_pad 9 ns) @ replicate k (CHR ''0'')"
  unfolding trim_zeros_def by (rule trim_right_char_suffix)

lemma parse_fraction_format:
  assumes "ns < 10 ^ 9"
  shows "parse_fraction (format_fraction ns @ ''Z'') = (ns, ''Z'')"
proof (cases "ns = 0")
  case True
  then show ?thesis by (simp add: format_fraction_def parse_fraction_def)
next
  case False
  let ?f = "trim_zeros (zero_pad 9 ns)"
  obtain k where k: "zero_pad 9 ns = ?f @ replicate k (CHR ''0'')" using trim_zeros_split by blast
  have len: "length (zero_pad 9 ns) = 9" using assms by (simp add: length_zero_pad)
  have "digits_val (zero_pad 9 ns) = digits_val ?f * 10 ^ k"
    by (subst k) (simp only: digits_val_append digits_val_zeros length_replicate add_0_right)
  then have val: "digits_val ?f * 10 ^ k = ns" by simp
  have klen: "length ?f + k = 9" using len by (subst (asm) k) simp
  have dig: "list_all is_digit ?f"
    using zero_pad_digits [of 9 ns] by (subst (asm) k) simp
  have "?f \<noteq> []" using val False by auto
  then obtain d r where f: "?f = d # r" by (cases ?f) auto
  have nz: "\<not> is_digit (CHR ''Z'')" by (simp add: is_digit_def byte_in_def)
  have tw: "takeWhile is_digit (?f @ ''Z'') = ?f" and dw: "dropWhile is_digit (?f @ ''Z'') = ''Z''"
    using dig nz by (simp_all add: list_all_iff takeWhile_append dropWhile_append)
  have "is_digit d" using dig f by simp
  then have "parse_fraction (CHR ''.'' # ?f @ ''Z'') =
      (digits_val (take 9 ?f) * 10 ^ (9 - length (take 9 ?f)), ''Z'')"
    using tw dw by (simp add: parse_fraction_def f Let_def)
  moreover have "take 9 ?f = ?f" and "9 - length ?f = k" using klen by simp_all
  ultimately show ?thesis using False val by (simp add: format_fraction_def)
qed

lemma length_zero_pad_2: "n < 100 \<Longrightarrow> length (zero_pad 2 n) = 2"
  by (rule length_zero_pad) simp_all

lemma length_zero_pad_4: "n < 10000 \<Longrightarrow> length (zero_pad 4 n) = 4"
  by (rule length_zero_pad) simp_all

lemma days_in_le: "days_in m y \<le> 31"
  by (simp add: days_in_def)

theorem time_roundtrip:
  assumes wf: "wf_time t" and enc: "marshal_time t = Some s"
  shows "unmarshal_time s = Some t"
proof -
  let ?Y = "zero_pad 4 (nat (t_year t))" and ?M = "zero_pad 2 (t_month t)"
  let ?D = "zero_pad 2 (t_day t)" and ?h = "zero_pad 2 (t_hour t)"
  let ?m = "zero_pad 2 (t_min t)" and ?c = "zero_pad 2 (t_sec t)"
  let ?rest = "format_fraction (t_nsec t) @ ''Z''"
  have bounds: "nat (t_year t) < 10000" "t_month t < 100" "t_day t < 100" "t_hour t < 100"
    "t_min t < 100" "t_sec t < 100"
    using wf days_in_le [of "t_month t" "t_year t"] by (auto simp: wf_time_def)
  have lens: "length ?Y = 4" "length ?M = 2" "length ?D = 2" "length ?h = 2" "length ?m = 2"
    "length ?c = 2"
    using bounds by (simp_all add: length_zero_pad_2 length_zero_pad_4)
  have s: "s = ?Y @ ''-'' @ ?M @ ''-'' @ ?D @ ''T'' @ ?h @ '':'' @ ?m @ '':'' @ ?c @ ?rest"
    using wf enc by (auto simp: marshal_time_def format_clock_def format_zone_def wf_time_def)
  have f1: "field 0 4 0 9999 s = Some (nat (t_year t))"
    and f2: "field 5 2 1 12 s = Some (t_month t)"
    and f3: "field 8 2 1 (days_in (t_month t) (t_year t)) s = Some (t_day t)"
    and f4: "field 11 2 0 23 s = Some (t_hour t)"
    and f5: "field 14 2 0 59 s = Some (t_min t)"
    and f6: "field 17 2 0 59 s = Some (t_sec t)"
    using lens wf by (simp_all add: field_def s wf_time_def nat_le_iff)
  have seps: "\<not> length s < 19" "s ! 4 = CHR ''-''" "s ! 7 = CHR ''-''" "s ! 10 = CHR ''T''"
    "s ! 13 = CHR '':''" "s ! 16 = CHR '':''"
    using lens by (simp_all add: s nth_append)
  have rest: "drop 19 s = ?rest" using lens by (simp add: s)
  have "parse_fraction (drop 19 s) = (t_nsec t, ''Z'')"
    using wf by (simp add: rest parse_fraction_format wf_time_def)
  moreover have "int (nat (t_year t)) = t_year t" "t_off t = 0" using wf by (simp_all add: wf_time_def)
  ultimately show ?thesis
    using f1 f2 f3 f4 f5 f6 seps by (simp add: unmarshal_time_def parse_zone_def)
qed

lemma wf_time_marshals: "wf_time t \<Longrightarrow> \<exists>s. marshal_time t = Some s"
  by (simp add: wf_time_def marshal_time_def)

lemma digits_ascii: "list_all is_digit s \<Longrightarrow> is_ascii s"
  by (auto simp: is_ascii_def list_all_iff is_digit_def byte_in_def)

lemma is_ascii_append [simp]: "is_ascii (s @ t) \<longleftrightarrow> is_ascii s \<and> is_ascii t"
  by (auto simp: is_ascii_def)

lemma is_ascii_Cons [simp]: "is_ascii (c # s) \<longleftrightarrow> byte c < (128::nat) \<and> is_ascii s"
  by (auto simp: is_ascii_def)

lemma is_ascii_Nil [simp]: "is_ascii []"
  by (simp add: is_ascii_def)

lemma zero_pad_ascii [simp]: "is_ascii (zero_pad w n)"
  by (simp add: digits_ascii zero_pad_digits)

lemma trim_zeros_ascii: "is_ascii s \<Longrightarrow> is_ascii (trim_zeros s)"
  by (auto simp: trim_zeros_def trim_right_char_def is_ascii_def dest: set_dropWhileD)

lemma marshal_time_ascii: "marshal_time t = Some s \<Longrightarrow> is_ascii s"
  by (auto simp: marshal_time_def format_clock_def format_fraction_def format_zone_def
      trim_zeros_ascii split: if_splits)

end
