(* ===== verification/Kafka.thy ===== *)
theory Kafka
  imports Go_Time
begin

text \<open>
  The Kafka types the program is written against: \<open>kafka.Message\<close> with the fields it reads and
  writes, and the topics. The operations of \<open>crawler.MessageReader\<close> and \<open>crawler.MessageWriter\<close>
  belong to the Kafka client; the components take their outcomes as arguments.
\<close>

record kafka_message =
  msg_partition :: int
  msg_offset :: int
  msg_key :: string
  msg_value :: string
  msg_time :: go_time

text \<open>A message as the writers build it: the broker assigns partition and offset.\<close>

definition new_message :: "string \<Rightarrow> string \<Rightarrow> go_time \<Rightarrow> kafka_message" where
  "new_message key val t =
     \<lparr>msg_partition = 0, msg_offset = 0, msg_key = key, msg_value = val, msg_time = t\<rparr>"

end
