(* ===== verification/Commit_Coordinator.thy ===== *)
theory Commit_Coordinator
  imports Kafka
begin

text \<open>
  \<open>cmd/worker/commit_coordinator.go\<close>: completed messages are buffered per partition and committed
  in offset order. One goroutine runs the coordinator, so its state is passed along; the result
  of the n-th \<open>CommitMessages\<close> call is \<open>ok n\<close>, chosen by the environment, and every call is kept
  in the ghost field \<open>commits\<close> with its outcome. The Go maps are finite maps.
\<close>

section \<open>State and operations\<close>

record coordinator =
  nextOffset :: "(int, int) fmap"
  pending :: "(int, (int, kafka_message) fmap) fmap"
  pendingTotal :: "64 word"
  commitErrors :: "64 word"
  commits :: "(kafka_message \<times> bool) list"

definition newCommitCoordinator :: coordinator where
  "newCommitCoordinator =
     \<lparr>nextOffset = fmempty, pending = fmempty, pendingTotal = 0, commitErrors = 0, commits = []\<rparr>"

text \<open>Reading a Go map: the zero value (a nil map, offset 0) for a missing key.\<close>

definition pendingOf :: "coordinator \<Rightarrow> int \<Rightarrow> (int, kafka_message) fmap" where
  "pendingOf c p = (case fmlookup (pending c) p of None \<Rightarrow> fmempty | Some m \<Rightarrow> m)"

definition nextOf :: "coordinator \<Rightarrow> int \<Rightarrow> int" where
  "nextOf c p = (case fmlookup (nextOffset c) p of None \<Rightarrow> 0 | Some n \<Rightarrow> n)"

definition committed :: "coordinator \<Rightarrow> kafka_message list" where
  "committed c = map fst (filter snd (commits c))"

definition enqueue :: "kafka_message \<Rightarrow> coordinator \<Rightarrow> coordinator" where
  "enqueue msg c =
     (let p = msg_partition msg;
          off = msg_offset msg;
          c1 = (if fmlookup (pending c) p = None
                then c\<lparr>pending := fmupd p fmempty (pending c)\<rparr> else c);
          c2 = c1\<lparr>pending := fmupd p (fmupd off msg (pendingOf c1 p)) (pending c1),
                  pendingTotal := pendingTotal c1 + 1\<rparr>
      in if fmlookup (nextOffset c2) p = None
         then c2\<lparr>nextOffset := fmupd p off (nextOffset c2)\<rparr> else c2)"

definition commitNext :: "(nat \<Rightarrow> bool) \<Rightarrow> int \<Rightarrow> coordinator \<Rightarrow> bool \<times> coordinator" where
  "commitNext ok p c =
     (let nxt = nextOf c p in
      case fmlookup (pendingOf c p) nxt of
        None \<Rightarrow> (False, c)
      | Some m \<Rightarrow>
          let c1 = c\<lparr>pending := fmupd p (fmdrop nxt (pendingOf c p)) (pending c),
                     pendingTotal := pendingTotal c - 1\<rparr>;
              committed_ok = ok (length (commits c1));
              c2 = c1\<lparr>commits := commits c1 @ [(m, committed_ok)]\<rparr>
          in if \<not> committed_ok
             then (False, c2\<lparr>commitErrors := commitErrors c2 + 1,
                             pending := fmupd p (fmupd nxt m (pendingOf c2 p)) (pending c2),
                             pendingTotal := pendingTotal c2 + 1\<rparr>)
             else (True, c2\<lparr>nextOffset := fmupd p (succ64 nxt) (nextOffset c2)\<rparr>))"

lemma commitNext_shrinks:
  "commitNext ok p c = (True, c') \<Longrightarrow>
   fcard (fmdom (pendingOf c' p)) < fcard (fmdom (pendingOf c p))"
  by (auto simp: commitNext_def Let_def pendingOf_def split: option.splits if_splits
      dest: fcard_fmdrop_less)

text \<open>\<open>for c.commitNext(ctx, partition, ...) {}\<close>\<close>

function drain :: "(nat \<Rightarrow> bool) \<Rightarrow> int \<Rightarrow> coordinator \<Rightarrow> coordinator" where
  "drain ok p c = (let (again, c') = commitNext ok p c in if again then drain ok p c' else c')"
  by pat_completeness auto
termination
  by (relation "measure (\<lambda>(ok, p, c). fcard (fmdom (pendingOf c p)))")
     (auto dest: commitNext_shrinks [OF sym])

declare drain.simps [simp del]

text \<open>\<open>flush\<close> ranges over the partitions of \<open>pending\<close>, in an order Go leaves open.\<close>

fun flush :: "(nat \<Rightarrow> bool) \<Rightarrow> int list \<Rightarrow> coordinator \<Rightarrow> coordinator" where
  "flush ok [] c = c"
| "flush ok (p # ps) c = flush ok ps (drain ok p c)"

text \<open>What the \<open>select\<close> of the main loop receives.\<close>

datatype coord_event = Receive kafka_message | ChannelClosed | Cancelled

fun run_coordinator ::
  "(nat \<Rightarrow> bool) \<Rightarrow> (coordinator \<Rightarrow> int list) \<Rightarrow> coord_event list \<Rightarrow> coordinator \<Rightarrow> coordinator" where
  "run_coordinator ok order [] c = c"
| "run_coordinator ok order (Receive msg # es) c =
     run_coordinator ok order es (drain ok (msg_partition msg) (enqueue msg c))"
| "run_coordinator ok order (ChannelClosed # es) c = flush ok (order c) c"
| "run_coordinator ok order (Cancelled # es) c = flush ok (order c) c"

text \<open>The messages the loop received before it ended.\<close>

fun received :: "coord_event list \<Rightarrow> kafka_message list" where
  "received (Receive msg # es) = msg # received es"
| "received es = []"

section \<open>Simplification rules\<close>

lemma pendingOf_upd [simp]:
  "pendingOf (c\<lparr>pending := fmupd p m (pending c)\<rparr>) q = (if q = p then m else pendingOf c q)"
  by (simp add: pendingOf_def)

lemma pendingOf_other_fields [frame_simps, simp]:
  "pendingOf (c\<lparr>nextOffset := a\<rparr>) = pendingOf c"
  "pendingOf (c\<lparr>pendingTotal := t\<rparr>) = pendingOf c"
  "pendingOf (c\<lparr>commitErrors := e\<rparr>) = pendingOf c"
  "pendingOf (c\<lparr>commits := l\<rparr>) = pendingOf c"
  by (simp_all add: pendingOf_def fun_eq_iff)

lemma newCommitCoordinator_sel [simp]:
  "nextOffset newCommitCoordinator = fmempty"
  "pendingOf newCommitCoordinator p = fmempty"
  "commits newCommitCoordinator = []"
  "pendingTotal newCommitCoordinator = 0"
  "commitErrors newCommitCoordinator = 0"
  by (simp_all add: newCommitCoordinator_def pendingOf_def)

lemma enqueue_simps:
  "pendingOf (enqueue m c) q =
     (if q = msg_partition m then fmupd (msg_offset m) m (pendingOf c q) else pendingOf c q)"
  "fmlookup (nextOffset (enqueue m c)) q =
     (if q = msg_partition m \<and> fmlookup (nextOffset c) q = None then Some (msg_offset m)
      else fmlookup (nextOffset c) q)"
  "commits (enqueue m c) = commits c"
  "pendingTotal (enqueue m c) = pendingTotal c + 1"
  "commitErrors (enqueue m c) = commitErrors c"
  by (auto simp: enqueue_def Let_def pendingOf_def split: option.splits)

lemma commitNext_None:
  "fmlookup (pendingOf c p) (nextOf c p) = None \<Longrightarrow> commitNext ok p c = (False, c)"
  by (simp add: commitNext_def Let_def)

text \<open>One call of \<open>commitNext\<close> that commits, as a relation between the states.\<close>

definition advanced :: "int \<Rightarrow> kafka_message \<Rightarrow> coordinator \<Rightarrow> coordinator \<Rightarrow> bool" where
  "advanced p m c c' \<longleftrightarrow>
     fmlookup (pendingOf c p) (nextOf c p) = Some m \<and>
     pendingOf c' = (pendingOf c)(p := fmdrop (nextOf c p) (pendingOf c p)) \<and>
     nextOffset c' = fmupd p (succ64 (nextOf c p)) (nextOffset c) \<and>
     commits c' = commits c @ [(m, True)] \<and>
     pendingTotal c' = pendingTotal c - 1 \<and> commitErrors c' = commitErrors c"

lemma commitNext_True:
  "commitNext ok p c = (True, c') \<Longrightarrow>
   advanced p (the (fmlookup (pendingOf c p) (nextOf c p))) c c'"
  by (auto simp: commitNext_def Let_def advanced_def fun_eq_iff pendingOf_def
      split: option.splits if_splits)

text \<open>A failed commit changes only the log and the error counter: the message stays buffered.\<close>

lemma commitNext_failed:
  assumes "fmlookup (pendingOf c p) (nextOf c p) = Some m" and "\<not> ok (length (commits c))"
  shows "commitNext ok p c =
    (False, c\<lparr>commits := commits c @ [(m, False)], commitErrors := commitErrors c + 1\<rparr>)"
proof -
  from assms(1) obtain pm where pm: "fmlookup (pending c) p = Some pm"
    and m: "fmlookup pm (nextOf c p) = Some m"
    by (auto simp: pendingOf_def split: option.splits)
  have "fmupd p (fmupd (nextOf c p) m (fmdrop (nextOf c p) pm))
      (fmupd p (fmdrop (nextOf c p) pm) (pending c)) = pending c"
    using pm m by (intro fmap_ext) (auto simp: fmupd_fmdrop_same)
  with assms pm m show ?thesis
    by (simp add: commitNext_def Let_def pendingOf_def)
qed

lemma commitNext_cases:
  obtains (none) "fmlookup (pendingOf c p) (nextOf c p) = None" "commitNext ok p c = (False, c)"
  | (failed) m where "fmlookup (pendingOf c p) (nextOf c p) = Some m"
      "\<not> ok (length (commits c))"
      "commitNext ok p c =
        (False, c\<lparr>commits := commits c @ [(m, False)], commitErrors := commitErrors c + 1\<rparr>)"
  | (advance) m c' where "commitNext ok p c = (True, c')" "ok (length (commits c))" "advanced p m c c'"
proof (cases "fmlookup (pendingOf c p) (nextOf c p)")
  case None
  then show ?thesis by (intro none) (simp_all add: commitNext_None)
next
  case (Some m)
  show ?thesis
  proof (cases "ok (length (commits c))")
    case False
    with Some show ?thesis by (intro failed) (simp_all add: commitNext_failed)
  next
    case True
    with Some obtain c' where "commitNext ok p c = (True, c')"
      by (simp add: commitNext_def Let_def)
    with True show ?thesis using commitNext_True by (intro advance) blast+
  qed
qed

lemma drain_None:
  "fmlookup (pendingOf c p) (nextOf c p) = None \<Longrightarrow> drain ok p c = c"
  by (subst drain.simps) (simp add: commitNext_None)

text \<open>What every failed and every successful commit keeps, draining keeps.\<close>

lemma drain_invariant:
  assumes "I c"
    and "\<And>c m. I c \<Longrightarrow> fmlookup (pendingOf c p) (nextOf c p) = Some m \<Longrightarrow>
      I (c\<lparr>commits := commits c @ [(m, False)], commitErrors := commitErrors c + 1\<rparr>)"
    and "\<And>c c' m. I c \<Longrightarrow> advanced p m c c' \<Longrightarrow> I c'"
  shows "I (drain ok p c)"
  using assms
proof (induction ok p c rule: drain.induct)
  case (1 ok p c)
  show ?case
  proof (cases rule: commitNext_cases [of c p ok])
    case none
    with "1.prems"(1) show ?thesis by (simp add: drain_None)
  next
    case (failed m)
    with "1.prems"(1,2) show ?thesis by (subst drain.simps) simp
  next
    case (advance m c')
    with "1.prems" have "I c'" by blast
    then have "I (drain ok p c')"
      by (rule "1.IH" [OF advance(1) [symmetric] refl TrueI]) (fact "1.prems")+
    with advance(1) show ?thesis by (subst drain.simps) simp
  qed
qed

text \<open>Draining ends at a missing offset, or right after a failed commit.\<close>

lemma drain_ends:
  "fmlookup (pendingOf (drain ok p c) p) (nextOf (drain ok p c) p) = None \<or>
   (\<exists>m k. fmlookup (pendingOf (drain ok p c) p) (nextOf (drain ok p c) p) = Some m \<and>
      \<not> ok k \<and> commits (drain ok p c) ! k = (m, False) \<and>
      length (commits (drain ok p c)) = Suc k)"
proof (induction ok p c rule: drain.induct)
  case (1 ok p c)
  show ?case
  proof (cases rule: commitNext_cases [of c p ok])
    case none
    then show ?thesis by (simp add: drain_None)
  next
    case (failed m)
    then have "drain ok p c =
        c\<lparr>commits := commits c @ [(m, False)], commitErrors := commitErrors c + 1\<rparr>"
      by (subst drain.simps) simp
    with failed show ?thesis by (auto simp: nextOf_def)
  next
    case (advance m c')
    then have "drain ok p c = drain ok p c'" by (subst drain.simps) simp
    moreover note "1.IH" [OF advance(1) [symmetric] refl TrueI]
    ultimately show ?thesis by simp
  qed
qed

lemma nextOf_fields [frame_simps, simp]:
  "nextOf (c\<lparr>pending := a\<rparr>) = nextOf c"
  "nextOf (c\<lparr>pendingTotal := t\<rparr>) = nextOf c"
  "nextOf (c\<lparr>commitErrors := e\<rparr>) = nextOf c"
  "nextOf (c\<lparr>commits := l\<rparr>) = nextOf c"
  by (simp_all add: nextOf_def fun_eq_iff)

section \<open>The order invariant\<close>

definition part_msgs :: "int \<Rightarrow> kafka_message list \<Rightarrow> kafka_message list" where
  "part_msgs p ms = filter (\<lambda>m. msg_partition m = p) ms"

text \<open>\<open>n\<close> consecutive offsets from \<open>f\<close> on, with the wrap-around of \<open>int64\<close>.\<close>

definition offsets_from :: "int \<Rightarrow> nat \<Rightarrow> int list" where
  "offsets_from f n = map (\<lambda>i. (succ64 ^^ i) f) [0..<n]"

definition part_inv :: "int \<Rightarrow> kafka_message list \<Rightarrow> coordinator \<Rightarrow> bool" where
  "part_inv p ms c \<longleftrightarrow>
     (let cs = part_msgs p (committed c) in
      (ms = [] \<longrightarrow> fmlookup (nextOffset c) p = None) \<and>
      (ms \<noteq> [] \<longrightarrow>
         fmlookup (nextOffset c) p = Some ((succ64 ^^ length cs) (msg_offset (hd ms))) \<and>
         map msg_offset cs = offsets_from (msg_offset (hd ms)) (length cs)) \<and>
      (\<forall>off m. fmlookup (pendingOf c p) off = Some m \<longrightarrow> m \<in> set ms \<and> msg_offset m = off) \<and>
      set cs \<subseteq> set ms \<and>
      (\<forall>m \<in> set ms. fmlookup (pendingOf c p) (msg_offset m) \<noteq> None \<or>
                     msg_offset m \<in> set (map msg_offset cs)))"

definition coord_inv :: "kafka_message list \<Rightarrow> coordinator \<Rightarrow> bool" where
  "coord_inv R c \<longleftrightarrow> (\<forall>p. part_inv p (part_msgs p R) c)"

lemma part_msgs_simps [simp]:
  "part_msgs p [] = []"
  "part_msgs p (m # ms) = (if msg_partition m = p then m # part_msgs p ms else part_msgs p ms)"
  "part_msgs p (ms @ ns) = part_msgs p ms @ part_msgs p ns"
  by (simp_all add: part_msgs_def)

lemma set_part_msgs [simp]: "set (part_msgs p ms) = {m \<in> set ms. msg_partition m = p}"
  by (auto simp: part_msgs_def)

lemma offsets_from_Suc: "offsets_from f (Suc n) = offsets_from f n @ [(succ64 ^^ n) f]"
  by (simp add: offsets_from_def)

lemma offsets_from_0 [simp]: "offsets_from f 0 = []"
  by (simp add: offsets_from_def)

lemma committed_fields [frame_simps, simp]:
  "committed (c\<lparr>commits := commits c @ [(m, False)]\<rparr>) = committed c"
  "committed (c\<lparr>commitErrors := e\<rparr>) = committed c"
  by (simp_all add: committed_def)

lemma committed_advanced: "advanced p m c c' \<Longrightarrow> committed c' = committed c @ [m]"
  by (simp add: advanced_def committed_def)

lemma committed_enqueue [simp]: "committed (enqueue m c) = committed c"
  by (simp add: committed_def enqueue_simps)

lemma coord_inv_init: "coord_inv [] newCommitCoordinator"
  by (simp add: coord_inv_def part_inv_def newCommitCoordinator_def pendingOf_def committed_def)

lemma coord_inv_failed:
  "coord_inv R c \<Longrightarrow>
   coord_inv R (c\<lparr>commits := commits c @ [(m, False)], commitErrors := e\<rparr>)"
  by (simp add: coord_inv_def part_inv_def committed_def)

lemma coord_inv_enqueue: "coord_inv R c \<Longrightarrow> coord_inv (R @ [m]) (enqueue m c)"
  unfolding coord_inv_def
proof
  fix p
  assume "\<forall>p. part_inv p (part_msgs p R) c"
  then have inv: "part_inv p (part_msgs p R) c" by blast
  show "part_inv p (part_msgs p (R @ [m])) (enqueue m c)"
  proof (cases "msg_partition m = p")
    case False
    with inv show ?thesis by (simp add: part_inv_def Let_def enqueue_simps)
  next
    case True
    show ?thesis
    proof (cases "part_msgs p R = []")
      case Nil: True
      with inv have "part_msgs p (committed c) = []"
        by (metis (no_types, lifting) empty_set part_inv_def set_empty subset_empty)
      with inv Nil True show ?thesis
        by (auto simp: part_inv_def Let_def enqueue_simps)
    next
      case Cons: False
      with inv True show ?thesis
        by (auto simp: part_inv_def Let_def enqueue_simps)
    qed
  qed
qed

lemma coord_inv_advanced:
  assumes inv: "coord_inv R c" and adv: "advanced p m c c'"
  shows "coord_inv R c'"
  unfolding coord_inv_def
proof
  fix q
  from inv have q: "part_inv q (part_msgs q R) c" and p: "part_inv p (part_msgs p R) c"
    by (auto simp: coord_inv_def)
  from adv have look: "fmlookup (pendingOf c p) (nextOf c p) = Some m"
    and pend: "pendingOf c' = (pendingOf c)(p := fmdrop (nextOf c p) (pendingOf c p))"
    and nxt: "nextOffset c' = fmupd p (succ64 (nextOf c p)) (nextOffset c)"
    by (auto simp: advanced_def)
  from p look have m: "m \<in> set R" "msg_partition m = p" "msg_offset m = nextOf c p"
    by (auto simp: part_inv_def Let_def)
  show "part_inv q (part_msgs q R) c'"
  proof (cases "q = p")
    case False
    with q m show ?thesis
      by (simp add: part_inv_def Let_def pend nxt committed_advanced [OF adv])
  next
    case True
    let ?cs = "part_msgs p (committed c)" and ?f = "msg_offset (hd (part_msgs p R))"
    from m have ne: "part_msgs p R \<noteq> []" by (auto simp: part_msgs_def filter_empty_conv)
    with p have next_p: "nextOf c p = (succ64 ^^ length ?cs) ?f"
      and offs: "map msg_offset ?cs = offsets_from ?f (length ?cs)"
      by (auto simp: part_inv_def Let_def nextOf_def)
    have cs': "part_msgs p (committed c') = ?cs @ [m]"
      by (simp add: committed_advanced [OF adv] m)
    from p ne m show ?thesis
      unfolding True
      by (auto simp: part_inv_def Let_def pend nxt cs' offs next_p offsets_from_Suc)
  qed
qed

lemma coord_inv_drain: "coord_inv R c \<Longrightarrow> coord_inv R (drain ok p c)"
  by (rule drain_invariant) (auto intro: coord_inv_failed coord_inv_advanced)

lemma coord_inv_flush: "coord_inv R c \<Longrightarrow> coord_inv R (flush ok ps c)"
  by (induction ps arbitrary: c) (auto intro: coord_inv_drain)

lemma coord_inv_run:
  "coord_inv R c \<Longrightarrow> coord_inv (R @ received es) (run_coordinator ok order es c)"
proof (induction ok order es c arbitrary: R rule: run_coordinator.induct)
  case (2 ok order msg es c)
  then have "coord_inv (R @ [msg]) (drain ok (msg_partition msg) (enqueue msg c))"
    by (intro coord_inv_drain coord_inv_enqueue)
  from "2.IH" [OF this] show ?case by simp
qed (simp_all add: coord_inv_flush)

lemma run_inv:
  "part_inv p (part_msgs p (received es)) (run_coordinator ok order es newCommitCoordinator)"
  using coord_inv_run [OF coord_inv_init] by (simp add: coord_inv_def)

section \<open>Consequences of the invariant\<close>

abbreviation run_from_start ::
  "(nat \<Rightarrow> bool) \<Rightarrow> (coordinator \<Rightarrow> int list) \<Rightarrow> coord_event list \<Rightarrow> coordinator" where
  "run_from_start ok order es \<equiv> run_coordinator ok order es newCommitCoordinator"

lemma run_committed_offsets:
  "map msg_offset (part_msgs p (committed (run_from_start ok order es))) =
   offsets_from (msg_offset (hd (part_msgs p (received es))))
     (length (part_msgs p (committed (run_from_start ok order es))))"
proof (cases "part_msgs p (received es) = []")
  case True
  with run_inv [of p es ok order] have "part_msgs p (committed (run_from_start ok order es)) = []"
    by (metis (no_types, lifting) empty_set part_inv_def set_empty subset_empty)
  then show ?thesis by simp
next
  case False
  with run_inv [of p es ok order] show ?thesis by (simp add: part_inv_def Let_def)
qed

lemma run_committed_received:
  "set (part_msgs p (committed (run_from_start ok order es))) \<subseteq> set (part_msgs p (received es))"
  using run_inv [of p es ok order] by (simp add: part_inv_def Let_def)

lemma run_next_offset:
  "part_msgs p (received es) \<noteq> [] \<Longrightarrow>
   nextOf (run_from_start ok order es) p =
     (succ64 ^^ length (part_msgs p (committed (run_from_start ok order es))))
       (msg_offset (hd (part_msgs p (received es))))"
  using run_inv [of p es ok order] by (simp add: part_inv_def Let_def nextOf_def)

lemma run_kept:
  "msg_offset ` set (part_msgs p (received es)) \<subseteq>
     fset (fmdom (pendingOf (run_from_start ok order es) p)) \<union>
     msg_offset ` set (part_msgs p (committed (run_from_start ok order es)))"
  using run_inv [of p es ok order]
  by (fastforce simp: part_inv_def Let_def fmlookup_dom_iff)

text \<open>Kafka offsets stay below the largest \<open>int64\<close>, so counting them does not wrap.\<close>

definition plain_offset :: "int \<Rightarrow> bool" where
  "plain_offset off \<longleftrightarrow> 0 \<le> off \<and> off < max_int64"

lemma iterate_plain:
  assumes "\<And>i. i < n \<Longrightarrow> plain_offset ((succ64 ^^ i) f)" and "i \<le> n"
  shows "(succ64 ^^ i) f = f + int i"
  using assms(2)
proof (induction i)
  case 0
  then show ?case by simp
next
  case (Suc i)
  from Suc have eq: "(succ64 ^^ i) f = f + int i" by simp
  from Suc.prems have "plain_offset ((succ64 ^^ i) f)" by (intro assms(1)) simp
  then have "succ64 (f + int i) = f + int i + 1"
    by (simp add: eq succ64_def plain_offset_def max_int64_def)
  then show ?case by (simp add: eq)
qed

lemma offsets_from_plain:
  assumes "\<forall>off \<in> set (offsets_from f n). plain_offset off"
  shows "offsets_from f n = map (\<lambda>i. f + int i) [0..<n]" and "(succ64 ^^ n) f = f + int n"
proof -
  have step: "\<And>i. i < n \<Longrightarrow> plain_offset ((succ64 ^^ i) f)"
    using assms by (auto simp: offsets_from_def)
  note plain = iterate_plain [of n f, OF step]
  show "(succ64 ^^ n) f = f + int n" by (rule plain) simp_all
  have "\<And>i. i < n \<Longrightarrow> (succ64 ^^ i) f = f + int i" by (rule plain) simp_all
  then show "offsets_from f n = map (\<lambda>i. f + int i) [0..<n]" by (simp add: offsets_from_def)
qed

lemma run_offsets_plain:
  fixes p ok order
  assumes "\<forall>m \<in> set (received es). plain_offset (msg_offset m)"
  defines "cs \<equiv> part_msgs p (committed (run_from_start ok order es))"
    and "f \<equiv> msg_offset (hd (part_msgs p (received es)))"
  shows "map msg_offset cs = map (\<lambda>i. f + int i) [0..<length cs]"
    and "part_msgs p (received es) \<noteq> [] \<Longrightarrow> nextOf (run_from_start ok order es) p = f + int (length cs)"
proof -
  have eq: "map msg_offset cs = offsets_from f (length cs)"
    unfolding cs_def f_def by (rule run_committed_offsets)
  have "set cs \<subseteq> set (received es)"
    using run_committed_received [of p ok order es] by (auto simp: cs_def)
  with assms(1) have "\<forall>off \<in> set (map msg_offset cs). plain_offset off" by auto
  then have "\<forall>off \<in> set (offsets_from f (length cs)). plain_offset off" by (simp only: eq)
  note plain = offsets_from_plain [OF this]
  show "map msg_offset cs = map (\<lambda>i. f + int i) [0..<length cs]" using eq plain(1) by simp
  assume "part_msgs p (received es) \<noteq> []"
  then show "nextOf (run_from_start ok order es) p = f + int (length cs)"
    using plain(2) run_next_offset by (simp add: cs_def f_def)
qed

section \<open>Runs in which every commit succeeds\<close>

text \<open>
  The abstract contract of the coordinator: with the offsets completed so far and the first one
  seen, the next offset to commit is the first that is missing.
\<close>

function frontier :: "int list \<Rightarrow> int \<Rightarrow> int" where
  "frontier offs n = (if n \<in> set offs then frontier (removeAll n offs) (n + 1) else n)"
  by pat_completeness auto
termination
  by (relation "measure (\<lambda>(offs, n). length offs)")
     (auto intro: length_removeAll_less)

declare frontier.simps [simp del]

lemma frontier_upto:
  assumes "n \<le> k" and "\<And>i. n \<le> i \<Longrightarrow> i < k \<Longrightarrow> i \<in> set offs" and "k \<notin> set offs"
  shows "frontier offs n = k"
  using assms
proof (induction offs n rule: frontier.induct)
  case (1 offs n)
  show ?case
  proof (cases "n = k")
    case True
    with "1.prems"(3) show ?thesis by (subst frontier.simps) simp
  next
    case False
    with "1.prems" have n: "n \<in> set offs" and "n + 1 \<le> k" by auto
    then have "frontier (removeAll n offs) (n + 1) = k"
      using "1.prems" by (intro "1.IH") auto
    with n show ?thesis by (subst frontier.simps) simp
  qed
qed

definition drained :: "coordinator \<Rightarrow> bool" where
  "drained c \<longleftrightarrow> (\<forall>p. fmlookup (nextOffset c) p \<noteq> None \<longrightarrow>
                    fmlookup (pendingOf c p) (nextOf c p) = None)"

lemma drain_other:
  assumes "q \<noteq> p"
  shows "pendingOf (drain ok p c) q = pendingOf c q \<and>
    fmlookup (nextOffset (drain ok p c)) q = fmlookup (nextOffset c) q"
  by (rule drain_invariant [where I = "\<lambda>d. pendingOf d q = pendingOf c q \<and>
        fmlookup (nextOffset d) q = fmlookup (nextOffset c) q"])
     (use assms in \<open>auto simp: advanced_def\<close>)

lemma drain_all_ok:
  "\<forall>n. ok n \<Longrightarrow> fmlookup (pendingOf (drain ok p c) p) (nextOf (drain ok p c) p) = None"
  using drain_ends [of ok p c] by blast

lemma drained_step:
  assumes "\<forall>n. ok n" and "drained c"
  shows "drained (drain ok (msg_partition m) (enqueue m c))"
  unfolding drained_def
proof (intro allI impI)
  fix q
  let ?p = "msg_partition m" and ?c' = "drain ok (msg_partition m) (enqueue m c)"
  assume known: "fmlookup (nextOffset ?c') q \<noteq> None"
  show "fmlookup (pendingOf ?c' q) (nextOf ?c' q) = None"
  proof (cases "q = ?p")
    case True
    with assms(1) show ?thesis by (simp add: drain_all_ok)
  next
    case False
    note other = drain_other [OF False, of ok "enqueue m c"]
    with False known assms(2) show ?thesis
      by (simp add: drained_def nextOf_def enqueue_simps)
  qed
qed

lemma drained_drain: "\<forall>n. ok n \<Longrightarrow> drained c \<Longrightarrow> drained (drain ok p c)"
proof -
  assume ok: "\<forall>n. ok n" and c: "drained c"
  have "fmlookup (nextOffset (drain ok p c)) q \<noteq> None \<Longrightarrow>
      fmlookup (pendingOf (drain ok p c) q) (nextOf (drain ok p c) q) = None" for q
  proof (cases "q = p")
    case True
    with ok show ?thesis by (simp add: drain_all_ok)
  next
    case False
    assume "fmlookup (nextOffset (drain ok p c)) q \<noteq> None"
    with c drain_other [OF False, of ok c] show ?thesis by (simp add: drained_def nextOf_def)
  qed
  then show ?thesis by (simp add: drained_def)
qed

lemma drained_flush: "\<forall>n. ok n \<Longrightarrow> drained c \<Longrightarrow> drained (flush ok ps c)"
  by (induction ps arbitrary: c) (auto intro: drained_drain)

lemma drained_run: "\<forall>n. ok n \<Longrightarrow> drained c \<Longrightarrow> drained (run_coordinator ok order es c)"
proof (induction ok order es c rule: run_coordinator.induct)
  case (2 ok order msg es c)
  from "2.IH" [OF "2.prems"(1) drained_step [OF "2.prems"]] show ?case by simp
qed (simp_all add: drained_flush)

lemma run_frontier:
  assumes ok: "\<forall>n. ok n" and plain: "\<forall>m \<in> set (received es). plain_offset (msg_offset m)"
    and ne: "part_msgs p (received es) \<noteq> []"
  shows "nextOf (run_from_start ok order es) p =
    frontier (map msg_offset (part_msgs p (received es)))
      (msg_offset (hd (part_msgs p (received es))))"
proof -
  let ?c = "run_from_start ok order es"
  let ?cs = "part_msgs p (committed ?c)" and ?ms = "part_msgs p (received es)"
  let ?f = "msg_offset (hd ?ms)"
  note offs = run_offsets_plain(1) [OF plain, of p ok order]
  note nxt = run_offsets_plain(2) [OF plain ne, of ok order]
  have "drained newCommitCoordinator" by (simp add: drained_def newCommitCoordinator_def)
  then have "drained ?c" by (rule drained_run [OF ok])
  moreover have "fmlookup (nextOffset ?c) p \<noteq> None"
    using run_inv [of p es ok order] ne by (auto simp: part_inv_def Let_def)
  ultimately have "nextOf ?c p \<notin> fset (fmdom (pendingOf ?c p))"
    by (simp add: drained_def fmlookup_dom_iff)
  moreover have "nextOf ?c p \<notin> set (map msg_offset ?cs)" by (simp only: nxt offs) auto
  ultimately have missing: "nextOf ?c p \<notin> set (map msg_offset ?ms)"
    using run_kept [of p es ok order] by auto
  have "set (map msg_offset ?cs) \<subseteq> set (map msg_offset ?ms)"
    using run_committed_received [of p ok order es] by auto
  then have below: "i \<in> set (map msg_offset ?ms)" if "?f \<le> i" "i < nextOf ?c p" for i
  proof -
    from that(1) obtain k where k: "i = ?f + int k" using zle_iff_zadd by blast
    with that(2) nxt have "k < length ?cs" by simp
    with k have "i \<in> set (map (\<lambda>i. ?f + int i) [0..<length ?cs])" by simp
    with \<open>set (map msg_offset ?cs) \<subseteq> set (map msg_offset ?ms)\<close> show ?thesis
      by (simp only: offs) blast
  qed
  show ?thesis
    by (rule frontier_upto [symmetric]) (use below missing nxt in \<open>auto\<close>)
qed

section \<open>The pending gauge\<close>

definition gauge_inv :: "nat \<Rightarrow> coordinator \<Rightarrow> bool" where
  "gauge_inv n c \<longleftrightarrow> pendingTotal c + of_nat (length (committed c)) = of_nat n"

lemma gauge_inv_drain: "gauge_inv n c \<Longrightarrow> gauge_inv n (drain ok p c)"
proof (rule drain_invariant)
  fix c c' m
  assume inv: "gauge_inv n c" and adv: "advanced p m c c'"
  then show "gauge_inv n c'"
    by (simp add: gauge_inv_def committed_advanced [OF adv]) (simp add: advanced_def)
qed (simp_all add: gauge_inv_def committed_def)

lemma gauge_inv_flush: "gauge_inv n c \<Longrightarrow> gauge_inv n (flush ok ps c)"
  by (induction ps arbitrary: c) (auto intro: gauge_inv_drain)

lemma gauge_inv_enqueue: "gauge_inv n c \<Longrightarrow> gauge_inv (Suc n) (enqueue m c)"
  by (simp add: gauge_inv_def enqueue_simps)

lemma gauge_inv_run:
  "gauge_inv n c \<Longrightarrow> gauge_inv (n + length (received es)) (run_coordinator ok order es c)"
proof (induction ok order es c arbitrary: n rule: run_coordinator.induct)
  case (2 ok order msg es c)
  have "gauge_inv (Suc n) (drain ok (msg_partition msg) (enqueue msg c))"
    by (intro gauge_inv_drain gauge_inv_enqueue "2.prems")
  from "2.IH" [OF this] show ?case by simp
qed (simp_all add: gauge_inv_flush)

lemma commitNext_calls:
  "commitNext ok p c = (True, c') \<Longrightarrow>
   length (commits c') = Suc (length (commits c)) \<and>
   Suc (fcard (fmdom (pendingOf c' p))) = fcard (fmdom (pendingOf c p))"
  using commitNext_True [of ok p c c']
  by (auto simp: advanced_def simp del: fmdom_drop intro: fcard_fmdrop)

lemma drain_calls:
  "length (commits (drain ok p c)) \<le> length (commits c) + fcard (fmdom (pendingOf c p))"
proof (induction ok p c rule: drain.induct)
  case (1 ok p c)
  show ?case
  proof (cases rule: commitNext_cases [of c p ok])
    case none
    then show ?thesis by (simp add: drain_None)
  next
    case (failed m)
    from failed(1) have "0 < fcard (fmdom (pendingOf c p))"
      using fcard_fmdrop_less by (metis gr_zeroI not_less0)
    with failed(3) show ?thesis by (subst drain.simps) simp
  next
    case (advance m c')
    then have "drain ok p c = drain ok p c'" by (subst drain.simps) simp
    moreover note "1.IH" [OF advance(1) [symmetric] refl TrueI] commitNext_calls [OF advance(1)]
    ultimately show ?thesis by simp
  qed
qed

lemma map_upto_shift: "map (\<lambda>i. f + int i) [0..<n] = [f..f + int n - 1]"
proof (induction n)
  case 0
  then show ?case by simp
next
  case (Suc n)
  have "[f..f + int (Suc n) - 1] = [f..f + int n - 1] @ [f + int n]"
    using upto_rec2 [of f "f + int n"] by simp
  with Suc show ?case by simp
qed

section \<open>Properties\<close>

text \<open>
  Claim C1. Whatever the commit outcomes, the map-iteration order and the events, the offsets
  committed for a partition are, in this order, the consecutive offsets from the first one the
  coordinator received for it, and every committed message was received as completed.
\<close>

theorem commits_in_offset_order:
  "map msg_offset (part_msgs p (committed (run_coordinator ok order es newCommitCoordinator))) =
     offsets_from (msg_offset (hd (part_msgs p (received es))))
       (length (part_msgs p (committed (run_coordinator ok order es newCommitCoordinator)))) \<and>
   set (part_msgs p (committed (run_coordinator ok order es newCommitCoordinator))) \<subseteq>
     set (part_msgs p (received es))"
  using run_committed_offsets run_committed_received by blast

text \<open>
  A partition is held at a gap: if the k-th offset after the first one is never
  received (its job never completes), at most k messages of the partition are ever committed,
  so nothing at or beyond the gap is.
\<close>

lemma gap_blocks_commits:
  assumes "(succ64 ^^ k) (msg_offset (hd (part_msgs p (received es)))) \<notin>
    msg_offset ` set (part_msgs p (received es))"
  shows "length (part_msgs p (committed (run_coordinator ok order es newCommitCoordinator))) \<le> k"
proof (rule ccontr)
  let ?cs = "part_msgs p (committed (run_from_start ok order es))"
  assume "\<not> length ?cs \<le> k"
  then have k: "k < length ?cs" by simp
  then have "map msg_offset ?cs ! k = (succ64 ^^ k) (msg_offset (hd (part_msgs p (received es))))"
    by (subst run_committed_offsets) (simp add: offsets_from_def)
  with k have "(succ64 ^^ k) (msg_offset (hd (part_msgs p (received es)))) \<in> msg_offset ` set ?cs"
    by (metis image_set length_map nth_mem)
  with assms run_committed_received [of p ok order es] show False by blast
qed

definition msg_at :: "int \<Rightarrow> int \<Rightarrow> kafka_message" where
  "msg_at p off = \<lparr>msg_partition = p, msg_offset = off, msg_key = [], msg_value = [],
     msg_time = zero_time\<rparr>"

lemma msg_at_sel [simp]: "msg_partition (msg_at p off) = p" "msg_offset (msg_at p off) = off"
  by (simp_all add: msg_at_def)

lemma gap_blocks_commits_witness:
  "length (part_msgs 0 (committed (run_coordinator (\<lambda>_. True) (\<lambda>_. [])
      [Receive (msg_at 0 7), Receive (msg_at 0 9), Receive (msg_at 0 10)] newCommitCoordinator))) \<le> 1"
  by (rule gap_blocks_commits) (simp add: succ64_def)

text \<open>
  Claim C32. A failed commit loses nothing: the buffer and the next offset are unchanged, the
  error counter goes up by one, the drain stops, and the next call whose commit succeeds commits
  that same message.
\<close>

theorem failed_commit_is_retried:
  assumes "fmlookup (pendingOf c p) (nextOf c p) = Some m"
    and "\<not> ok (length (commits c))" and "ok' (Suc (length (commits c)))"
  shows "fst (commitNext ok p c) = False \<and>
    pending (snd (commitNext ok p c)) = pending c \<and>
    nextOffset (snd (commitNext ok p c)) = nextOffset c \<and>
    commitErrors (snd (commitNext ok p c)) = commitErrors c + 1 \<and>
    fst (commitNext ok' p (snd (commitNext ok p c))) \<and>
    committed (snd (commitNext ok' p (snd (commitNext ok p c)))) = committed c @ [m] \<and>
    nextOf (snd (commitNext ok' p (snd (commitNext ok p c)))) p = succ64 (nextOf c p)"
  using assms by (simp add: commitNext_failed) (simp add: commitNext_def Let_def committed_def nextOf_def)

theorem failed_commit_is_retried_witness:
  "commitErrors (snd (commitNext (\<lambda>_. False) 0 (enqueue (msg_at 0 5) newCommitCoordinator))) = 1"
  using failed_commit_is_retried [of "enqueue (msg_at 0 5) newCommitCoordinator" 0 "msg_at 0 5"
      "\<lambda>_. False" "\<lambda>_. True"]
  by (simp add: enqueue_simps nextOf_def)

text \<open>
  Claim C2. The coordinator refines its contract: when every commit succeeds, the offsets
  committed for a partition are exactly those from the first one received up to the first one
  missing among the completed offsets, in whatever order the completions arrived.
\<close>

theorem coordinator_refines_frontier:
  assumes "\<forall>n. ok n" and "\<forall>m \<in> set (received es). plain_offset (msg_offset m)"
    and "part_msgs p (received es) \<noteq> []"
  shows "map msg_offset (part_msgs p (committed (run_coordinator ok order es newCommitCoordinator))) =
    [msg_offset (hd (part_msgs p (received es))) ..
     frontier (map msg_offset (part_msgs p (received es)))
       (msg_offset (hd (part_msgs p (received es)))) - 1]"
  using run_offsets_plain [OF assms(2), of p ok order] run_frontier [OF assms, of order] assms(3)
  by (simp add: map_upto_shift)

theorem coordinator_refines_frontier_witness:
  "map msg_offset (part_msgs 0 (committed (run_coordinator (\<lambda>_. True) (\<lambda>_. [])
      [Receive (msg_at 0 4), Receive (msg_at 0 6), Receive (msg_at 0 5), Receive (msg_at 0 9)]
      newCommitCoordinator))) = [4, 5, 6]"
proof -
  have "frontier [4, 6, 5, 9] 4 = 7" by (simp add: frontier.simps)
  moreover have "[4::int..6] = [4, 5, 6]" by code_simp
  ultimately show ?thesis
    using coordinator_refines_frontier [of "\<lambda>_. True" "[Receive (msg_at 0 4), Receive (msg_at 0 6),
      Receive (msg_at 0 5), Receive (msg_at 0 9)]" 0 "\<lambda>_. []"]
    by (simp add: plain_offset_def max_int64_def)
qed

text \<open>
  The first completion decides where a partition starts: a message with a lower offset
  than the first one received for its partition is never committed, and it stays in the buffer
  for good, even though every commit may succeed. Jobs run concurrently, so a later message can
  complete first.
\<close>

lemma late_lower_offset_stuck:
  assumes "\<forall>m \<in> set (received es). plain_offset (msg_offset m)"
    and "m \<in> set (part_msgs p (received es))"
    and "msg_offset m < msg_offset (hd (part_msgs p (received es)))"
  shows "m \<notin> set (committed (run_coordinator ok order es newCommitCoordinator)) \<and>
    fmlookup (pendingOf (run_coordinator ok order es newCommitCoordinator) p) (msg_offset m) \<noteq> None"
proof -
  let ?c = "run_from_start ok order es"
  let ?cs = "part_msgs p (committed ?c)"
  have "msg_offset m \<notin> set (map msg_offset ?cs)"
    using assms(3) by (simp only: run_offsets_plain(1) [OF assms(1)]) auto
  then have out: "msg_offset m \<notin> msg_offset ` set ?cs" by simp
  with run_kept [of p es ok order] assms(2) have "msg_offset m \<in> fset (fmdom (pendingOf ?c p))"
    by blast
  moreover have "m \<notin> set (committed ?c)" using out assms(2) by auto
  ultimately show ?thesis by (auto simp: fmlookup_dom_iff)
qed

lemma late_lower_offset_stuck_witness:
  "msg_at 0 3 \<notin> set (committed (run_coordinator (\<lambda>_. True) (\<lambda>_. [0])
     [Receive (msg_at 0 5), Receive (msg_at 0 3), Receive (msg_at 0 4), ChannelClosed]
     newCommitCoordinator))"
  using late_lower_offset_stuck [of "[Receive (msg_at 0 5), Receive (msg_at 0 3),
      Receive (msg_at 0 4), ChannelClosed]" "msg_at 0 3" 0 "\<lambda>_. True" "\<lambda>_. [0]"]
  by (simp add: plain_offset_def max_int64_def)

text \<open>
  The gauge \<open>relentless_worker_commit_pending_total\<close> is the number of messages received
  minus the number committed (modulo 64 bits), whatever fails in between.
\<close>

lemma pending_gauge_law:
  "pendingTotal (run_coordinator ok order es newCommitCoordinator) =
     of_nat (length (received es)) -
     of_nat (length (committed (run_coordinator ok order es newCommitCoordinator)))"
proof -
  have "gauge_inv 0 newCommitCoordinator"
    by (simp add: gauge_inv_def newCommitCoordinator_def committed_def)
  from gauge_inv_run [OF this, of es ok order] show ?thesis
    by (simp add: gauge_inv_def eq_diff_eq)
qed

text \<open>
  Draining terminates after at most as many \<open>CommitMessages\<close> calls as messages are
  buffered for the partition, and it stops only at an offset that is not buffered or right after
  a commit that failed.
\<close>

lemma drain_bounded_and_complete:
  "length (commits (drain ok p c)) \<le> length (commits c) + fcard (fmdom (pendingOf c p)) \<and>
   (fmlookup (pendingOf (drain ok p c) p) (nextOf (drain ok p c) p) = None \<or>
    (\<exists>m k. commits (drain ok p c) ! k = (m, False) \<and> length (commits (drain ok p c)) = Suc k \<and>
       fmlookup (pendingOf (drain ok p c) p) (nextOf (drain ok p c) p) = Some m))"
  using drain_calls drain_ends by blast

end
