(* ===== verification/Go_Json.thy ===== *)
theory Go_Json
  imports Go_Time
begin

text \<open>
  \<open>encoding/json\<close> as the program uses it: the compact text \<open>json.Marshal\<close> writes (HTML escaping on,
  invalid UTF-8 replaced), the scanner and parser behind \<open>json.Unmarshal\<close> with its nesting limit,
  and decoders for the Go types the program unmarshals into. A document is a value of
  \<open>json\<close>; number tokens keep their text, members keep their order and their duplicates.
\<close>

datatype json =
    JNull
  | JBool bool
  | JNum string
  | JStr string
  | JArr "json list"
  | JObj "(string \<times> json) list"

section \<open>Strings\<close>

definition hex_char :: "nat \<Rightarrow> char" where
  "hex_char n = (if n < 10 then chr (48 + n) else chr (87 + n))"

definition hex_val :: "char \<Rightarrow> nat option" where
  "hex_val c =
     (if byte_in 48 57 c then Some (byte c - 48)
      else if byte_in 97 102 c then Some (byte c - 87)
      else if byte_in 65 70 c then Some (byte c - 55)
      else None)"

text \<open>\<open>appendString\<close> of \<open>encoding/json\<close>: one ASCII character, then a whole string.\<close>

definition quote_ascii :: "char \<Rightarrow> string" where
  "quote_ascii c =
     (if c = CHR 0x22 \<or> c = CHR 0x5C then [CHR 0x5C, c]
      else if byte c = (8::nat) then [CHR 0x5C, CHR ''b'']
      else if byte c = (12::nat) then [CHR 0x5C, CHR ''f'']
      else if byte c = (10::nat) then [CHR 0x5C, CHR ''n'']
      else if byte c = (13::nat) then [CHR 0x5C, CHR ''r'']
      else if byte c = (9::nat) then [CHR 0x5C, CHR ''t'']
      else if byte c < (32::nat) \<or> c = CHR ''<'' \<or> c = CHR ''>'' \<or> c = CHR ''&''
      then [CHR 0x5C, CHR ''u'', CHR ''0'', CHR ''0'', hex_char (byte c div 16), hex_char (byte c mod 16)]
      else [c])"

function quote_body :: "string \<Rightarrow> string" where
  "quote_body s =
     (case s of
        [] \<Rightarrow> []
      | c # cs \<Rightarrow>
          if byte c < (128::nat) then quote_ascii c @ quote_body cs
          else if utf8_width s = 0 then CHR 0x5C # ''ufffd'' @ quote_body cs
          else if take 3 s = map chr [226, 128, 168] then CHR 0x5C # ''u2028'' @ quote_body (drop 3 s)
          else if take 3 s = map chr [226, 128, 169] then CHR 0x5C # ''u2029'' @ quote_body (drop 3 s)
          else take (utf8_width s) s @ quote_body (drop (utf8_width s) s))"
  by pat_completeness auto
termination
  by (relation "measure length") auto

declare quote_body.simps [simp del]

definition json_string :: "string \<Rightarrow> string" where
  "json_string s = CHR 0x22 # quote_body s @ [CHR 0x22]"

definition hex4 :: "string \<Rightarrow> nat option" where
  "hex4 s =
     (case s of
        a # b # c # d # _ \<Rightarrow>
          (case (hex_val a, hex_val b, hex_val c, hex_val d) of
             (Some w, Some x, Some y, Some z) \<Rightarrow> Some (((w * 16 + x) * 16 + y) * 16 + z)
           | _ \<Rightarrow> None)
      | _ \<Rightarrow> None)"

definition simple_escape :: "char \<Rightarrow> char option" where
  "simple_escape e =
     (if e = CHR 0x22 \<or> e = CHR 0x5C \<or> e = CHR ''/'' then Some e
      else if e = CHR ''b'' then Some (chr 8)
      else if e = CHR ''f'' then Some (chr 12)
      else if e = CHR ''n'' then Some (chr 10)
      else if e = CHR ''r'' then Some (chr 13)
      else if e = CHR ''t'' then Some (chr 9)
      else None)"

definition emit :: "string \<Rightarrow> (string \<times> string) option \<Rightarrow> (string \<times> string) option" where
  "emit x res = map_option (\<lambda>(t, r). (x @ t, r)) res"

text \<open>
  The characters after an opening quote: the string they denote and what follows the closing
  quote. A surrogate escape without its partner, and every byte that is not UTF-8, reads as
  U+FFFD, as in \<open>unquoteBytes\<close>.
\<close>

datatype str_step = Str_End string | Str_Bad | Str_Emit string string

definition unicode_step :: "string \<Rightarrow> str_step" where
  "unicode_step r =
     (case hex4 r of
        None \<Rightarrow> Str_Bad
      | Some n \<Rightarrow>
          if \<not> (55296 \<le> n \<and> n < 57344) then Str_Emit (utf8_encode n) (drop 4 r)
          else if n < 56320 \<and> has_prefix (drop 4 r) [CHR 0x5C, CHR ''u''] then
            (case hex4 (drop 6 r) of
               None \<Rightarrow> Str_Bad
             | Some m \<Rightarrow>
                 if 56320 \<le> m \<and> m < 57344
                 then Str_Emit (utf8_encode (65536 + (n - 55296) * 1024 + (m - 56320))) (drop 10 r)
                 else Str_Emit replacement_rune (drop 4 r))
          else Str_Emit replacement_rune (drop 4 r))"

definition str_step :: "string \<Rightarrow> str_step" where
  "str_step s =
     (case s of
        [] \<Rightarrow> Str_Bad
      | c # cs \<Rightarrow>
          if c = CHR 0x22 then Str_End cs
          else if c = CHR 0x5C then
            (case cs of
               [] \<Rightarrow> Str_Bad
             | e # r \<Rightarrow>
                 if e = CHR ''u'' then unicode_step r
                 else (case simple_escape e of None \<Rightarrow> Str_Bad | Some x \<Rightarrow> Str_Emit [x] r))
          else if byte c < (32::nat) then Str_Bad
          else if utf8_width s = 0 then Str_Emit replacement_rune cs
          else Str_Emit (take (utf8_width s) s) (drop (utf8_width s) s))"

lemma unicode_step_shrinks: "unicode_step r = Str_Emit x r' \<Longrightarrow> length r' \<le> length r"
  by (auto simp: unicode_step_def split: option.splits if_splits)

lemma str_step_shrinks:
  "str_step s = Str_Emit x r \<Longrightarrow> length r < length s"
  "str_step s = Str_End r \<Longrightarrow> length r < length s"
  by (auto simp: str_step_def unicode_step_def split: list.splits if_splits option.splits
      dest!: unicode_step_shrinks)

function lex_str :: "string \<Rightarrow> (string \<times> string) option" where
  "lex_str s =
     (case str_step s of
        Str_End r \<Rightarrow> Some ([], r)
      | Str_Bad \<Rightarrow> None
      | Str_Emit x r \<Rightarrow> emit x (lex_str r))"
  by pat_completeness auto
termination
  by (relation "measure length") (simp_all add: str_step_shrinks)

declare lex_str.simps [simp del]

lemma emit_simps [simp]:
  "emit x None = None"
  "emit x (Some (t, r)) = Some (x @ t, r)"
  by (simp_all add: emit_def)

lemma emit_Some: "emit x res = Some (t, r) \<longleftrightarrow> (\<exists>u. res = Some (u, r) \<and> t = x @ u)"
  by (auto simp: emit_def)

lemma lex_str_shrinks: "lex_str s = Some (t, r) \<Longrightarrow> length r < length s"
proof (induction s arbitrary: t rule: lex_str.induct)
  case (1 s)
  show ?case
  proof (cases "str_step s")
    case (Str_Emit x r')
    with "1.prems" obtain u where "lex_str r' = Some (u, r)"
      by (subst (asm) lex_str.simps) (auto simp: emit_Some)
    with "1.IH" Str_Emit have "length r < length r'" by blast
    with str_step_shrinks(1) [OF Str_Emit] show ?thesis by simp
  next
    case (Str_End r')
    with "1.prems" str_step_shrinks(2) [OF Str_End] show ?thesis
      by (subst (asm) lex_str.simps) simp
  next
    case Str_Bad
    with "1.prems" show ?thesis by (subst (asm) lex_str.simps) simp
  qed
qed

lemma lex_str_emit: "str_step s = Str_Emit x r \<Longrightarrow> lex_str s = emit x (lex_str r)"
  by (subst lex_str.simps) simp

lemma hex_val_hex_char: "n < 16 \<Longrightarrow> hex_val (hex_char n) = Some n"
  by (auto simp: hex_val_def hex_char_def byte_in_def of_char_of)

lemma lex_str_quote_ascii:
  assumes "byte c < (128::nat)"
  shows "lex_str (quote_ascii c @ r) = emit [c] (lex_str r)"
proof -
  have "hex_val (CHR ''0'') = Some 0" by (simp add: hex_val_def byte_in_def)
  moreover have "hex_val (hex_char (byte c div 16)) = Some (byte c div 16)"
    by (rule hex_val_hex_char) (use assms in simp)
  moreover have "hex_val (hex_char (byte c mod 16)) = Some (byte c mod 16)"
    by (rule hex_val_hex_char) simp
  ultimately have uc: "hex4 (CHR ''0'' # CHR ''0'' # hex_char (byte c div 16) #
      hex_char (byte c mod 16) # r) = Some (byte c)"
    by (simp add: hex4_def)
  consider (esc) "c = CHR 0x22 \<or> c = CHR 0x5C"
    | (ctl) "byte c = (8::nat) \<or> byte c = (12::nat) \<or> byte c = (10::nat) \<or> byte c = (13::nat) \<or> byte c = (9::nat)"
    | (uni) "\<not> (c = CHR 0x22 \<or> c = CHR 0x5C)"
        "byte c \<noteq> (8::nat)" "byte c \<noteq> (12::nat)" "byte c \<noteq> (10::nat)" "byte c \<noteq> (13::nat)" "byte c \<noteq> (9::nat)"
        "byte c < (32::nat) \<or> c = CHR ''<'' \<or> c = CHR ''>'' \<or> c = CHR ''&''"
    | (plain) "\<not> (c = CHR 0x22 \<or> c = CHR 0x5C)"
        "byte c \<noteq> (8::nat)" "byte c \<noteq> (12::nat)" "byte c \<noteq> (10::nat)" "byte c \<noteq> (13::nat)" "byte c \<noteq> (9::nat)"
        "\<not> (byte c < (32::nat) \<or> c = CHR ''<'' \<or> c = CHR ''>'' \<or> c = CHR ''&'')"
    by blast
  then have "str_step (quote_ascii c @ r) = Str_Emit [c] r"
  proof cases
    case esc
    then show ?thesis by (auto simp: str_step_def quote_ascii_def simple_escape_def)
  next
    case ctl
    then have "c = chr 8 \<or> c = chr 12 \<or> c = chr 10 \<or> c = chr 13 \<or> c = chr 9"
      by (metis char_of_char)
    then show ?thesis
      by (elim disjE; simp add: str_step_def quote_ascii_def simple_escape_def)
  next
    case uni
    then have "quote_ascii c = [CHR 0x5C, CHR ''u'', CHR ''0'', CHR ''0'',
        hex_char (byte c div 16), hex_char (byte c mod 16)]"
      by (simp add: quote_ascii_def)
    with assms uc show ?thesis by (simp add: str_step_def unicode_step_def utf8_encode_def)
  next
    case plain
    then have "quote_ascii c = [c]" by (simp add: quote_ascii_def)
    with assms plain show ?thesis by (simp add: str_step_def utf8_width_ascii)
  qed
  then show ?thesis by (rule lex_str_emit)
qed

lemma str_step_rune:
  assumes "1 < utf8_width s"
  shows "str_step (take (utf8_width s) s @ t) = Str_Emit (take (utf8_width s) s) t"
proof -
  obtain a u where s: "s = a # u" using assms by (cases s) (auto simp: utf8_width_def)
  from assms have "\<not> byte a < (128::nat)" by (auto simp: s utf8_width_ascii)
  then have a: "a \<noteq> CHR 0x22" "a \<noteq> CHR 0x5C" "\<not> byte a < (32::nat)" by auto
  have w: "utf8_width (take (utf8_width s) s @ t) = utf8_width s"
    using assms by (simp add: utf8_width_append utf8_width_take)
  from assms obtain v where v: "take (utf8_width s) s = a # v" by (cases "utf8_width s") (auto simp: s)
  have "length (take (utf8_width s) s) = utf8_width s" using utf8_width_le [of s] by simp
  with w v have "utf8_width (a # v @ t) = Suc (length v)" by simp
  with v a show ?thesis by (simp add: str_step_def)
qed

lemma hex4_line_separators:
  "hex4 (''2028'' @ t) = Some 8232" "hex4 (''2029'' @ t) = Some 8233"
  by (simp_all add: hex4_def hex_val_def byte_in_def)

lemma str_step_line_separators:
  "str_step (CHR 0x5C # ''u2028'' @ t) = Str_Emit (map chr [226, 128, 168]) t"
  "str_step (CHR 0x5C # ''u2029'' @ t) = Str_Emit (map chr [226, 128, 169]) t"
  using hex4_line_separators [of t]
  by (simp_all add: str_step_def unicode_step_def utf8_encode_def)

lemma line_separator_split:
  assumes "take 3 s = map chr [226, 128, b]" and "b = 168 \<or> b = 169"
  shows "s = map chr [226, 128, b] @ drop 3 s" and "utf8_width s = 3"
proof -
  show s: "s = map chr [226, 128, b] @ drop 3 s"
    using assms(1) by (metis append_take_drop_id)
  from assms(2) have "utf8_width (map chr [226, 128, b]) = 3"
    by (auto simp: utf8_width_def lead_width_def second_ok_def is_cont_def byte_in_def)
  then show "utf8_width s = 3"
    by (subst s) (simp only: utf8_width_append)
qed

text \<open>What the writer makes of a string: bytes that are not UTF-8 become U+FFFD.\<close>

function to_valid_utf8 :: "string \<Rightarrow> string" where
  "to_valid_utf8 s =
     (case s of
        [] \<Rightarrow> []
      | c # cs \<Rightarrow>
          if byte c < (128::nat) then c # to_valid_utf8 cs
          else if utf8_width s = 0 then replacement_rune @ to_valid_utf8 cs
          else take (utf8_width s) s @ to_valid_utf8 (drop (utf8_width s) s))"
  by pat_completeness auto
termination
  by (relation "measure length") auto

declare to_valid_utf8.simps [simp del]

lemma str_step_replacement:
  "str_step (CHR 0x5C # ''ufffd'' @ t) = Str_Emit replacement_rune t"
proof -
  have "hex4 (''fffd'' @ t) = Some 65533"
    by (simp add: hex4_def hex_val_def byte_in_def)
  moreover have "utf8_encode 65533 = replacement_rune"
    by (simp add: utf8_encode_def replacement_rune_def)
  ultimately show ?thesis by (simp add: str_step_def unicode_step_def)
qed

lemma lex_str_quote_body:
  "lex_str (quote_body s @ CHR 0x22 # rest) = Some (to_valid_utf8 s, rest)"
proof (induction s rule: quote_body.induct)
  case (1 s)
  show ?case
  proof (cases s)
    case Nil
    then show ?thesis by (simp add: quote_body.simps lex_str.simps str_step_def to_valid_utf8.simps)
  next
    case (Cons c cs)
    show ?thesis
    proof (cases "byte c < (128::nat)")
      case True
      with "1.IH"(1) [OF Cons True] Cons show ?thesis
        by (subst quote_body.simps, subst to_valid_utf8.simps) (simp add: lex_str_quote_ascii)
    next
      case high: False
      let ?w = "utf8_width s"
      from utf8_width_ge_2 [OF high] Cons have w1: "?w \<noteq> 1" by simp
      show ?thesis
      proof (cases "?w = 0")
        case True
        from "1.IH"(2) [OF Cons high True]
        have "lex_str (CHR 0x5C # ''ufffd'' @ quote_body cs @ CHR 0x22 # rest) =
            Some (replacement_rune @ to_valid_utf8 cs, rest)"
          using lex_str_emit [OF str_step_replacement] by simp
        with Cons high True show ?thesis
          by (subst quote_body.simps, subst to_valid_utf8.simps) simp
      next
        case False
        with w1 have w2: "1 < ?w" by simp
        have valid: "to_valid_utf8 s = take ?w s @ to_valid_utf8 (drop ?w s)"
          using Cons high False by (subst to_valid_utf8.simps) simp
        consider (ls) "take 3 s = map chr [226, 128, 168]" | (ps) "take 3 s = map chr [226, 128, 169]"
          "take 3 s \<noteq> map chr [226, 128, 168]"
          | (other) "take 3 s \<noteq> map chr [226, 128, 168]" "take 3 s \<noteq> map chr [226, 128, 169]"
          by blast
        then show ?thesis
        proof cases
          case other
          from "1.IH"(5) [OF Cons high False other]
          have IH: "lex_str (quote_body (drop ?w s) @ CHR 0x22 # rest) = Some (to_valid_utf8 (drop ?w s), rest)" .
          from Cons high False other have "quote_body s = take ?w s @ quote_body (drop ?w s)"
            by (subst quote_body.simps) auto
          with IH valid show ?thesis by (simp add: lex_str_emit [OF str_step_rune [OF w2]])
        next
          case ls
          have w3: "?w = 3" using line_separator_split(2) [OF ls] by simp
          from "1.IH"(3) [OF Cons high False ls]
          have IH: "lex_str (quote_body (drop 3 s) @ CHR 0x22 # rest) = Some (to_valid_utf8 (drop 3 s), rest)" .
          from Cons high False ls have q: "quote_body s = CHR 0x5C # ''u2028'' @ quote_body (drop 3 s)"
            by (subst quote_body.simps) simp
          show ?thesis
            using lex_str_emit [OF str_step_line_separators(1)] IH ls by (simp add: q valid w3)
        next
          case ps
          have w3: "?w = 3" using line_separator_split(2) [OF ps(1)] by simp
          from "1.IH"(4) [OF Cons high False ps(2,1)]
          have IH: "lex_str (quote_body (drop 3 s) @ CHR 0x22 # rest) = Some (to_valid_utf8 (drop 3 s), rest)" .
          from Cons high False ps have q: "quote_body s = CHR 0x5C # ''u2029'' @ quote_body (drop 3 s)"
            by (subst quote_body.simps) simp
          show ?thesis
            using lex_str_emit [OF str_step_line_separators(2)] IH ps by (simp add: q valid w3)
        qed
      qed
    qed
  qed
qed

lemma to_valid_utf8_id: "valid_utf8 s \<Longrightarrow> to_valid_utf8 s = s"
proof (induction s rule: to_valid_utf8.induct)
  case (1 s)
  show ?case
  proof (cases s)
    case Nil
    then show ?thesis by (simp add: to_valid_utf8.simps)
  next
    case (Cons c cs)
    show ?thesis
    proof (cases "byte c < (128::nat)")
      case True
      with "1.prems" Cons have "valid_utf8 cs" by (simp add: valid_utf8_ascii_Cons)
      with "1.IH"(1) [OF Cons True] Cons True show ?thesis by (subst to_valid_utf8.simps) simp
    next
      case False
      from "1.prems" Cons have w: "utf8_width s \<noteq> 0" and rest: "valid_utf8 (drop (utf8_width s) s)"
        by (subst (asm) valid_utf8.simps, simp split: if_splits)+
      from "1.IH"(3) [OF Cons False w rest] Cons False w show ?thesis
        by (subst to_valid_utf8.simps) simp
    qed
  qed
qed

section \<open>Numbers\<close>

definition take_digits :: "string \<Rightarrow> string \<times> string" where
  "take_digits s = (takeWhile is_digit s, dropWhile is_digit s)"

definition lex_int_part :: "string \<Rightarrow> (string \<times> string) option" where
  "lex_int_part s =
     (case s of
        [] \<Rightarrow> None
      | c # cs \<Rightarrow>
          if c = CHR ''0'' then Some (''0'', cs)
          else if is_digit c then Some (take_digits s)
          else None)"

definition lex_frac :: "string \<Rightarrow> (string \<times> string) option" where
  "lex_frac s =
     (case s of
        [] \<Rightarrow> Some ([], [])
      | c # cs \<Rightarrow>
          if c \<noteq> CHR ''.'' then Some ([], s)
          else (case take_digits cs of (ds, r) \<Rightarrow> if ds = [] then None else Some (c # ds, r)))"

definition lex_exp :: "string \<Rightarrow> (string \<times> string) option" where
  "lex_exp s =
     (case s of
        [] \<Rightarrow> Some ([], [])
      | c # cs \<Rightarrow>
          if c \<noteq> CHR ''e'' \<and> c \<noteq> CHR ''E'' then Some ([], s)
          else (case cs of
              [] \<Rightarrow> None
            | d # r \<Rightarrow>
                (case take_digits (if d = CHR ''+'' \<or> d = CHR ''-'' then r else cs) of
                   (ds, r') \<Rightarrow>
                     if ds = [] then None
                     else Some (c # (if d = CHR ''+'' \<or> d = CHR ''-'' then d # ds else ds), r'))))"

definition lex_unsigned :: "string \<Rightarrow> (string \<times> string) option" where
  "lex_unsigned s =
     (case lex_int_part s of
        None \<Rightarrow> None
      | Some (i, s2) \<Rightarrow>
          (case lex_frac s2 of
             None \<Rightarrow> None
           | Some (f, s3) \<Rightarrow>
               (case lex_exp s3 of
                  None \<Rightarrow> None
                | Some (e, s4) \<Rightarrow> Some (i @ f @ e, s4))))"

definition lex_num :: "string \<Rightarrow> (string \<times> string) option" where
  "lex_num s = (if has_prefix s ''-'' then emit ''-'' (lex_unsigned (tl s)) else lex_unsigned s)"

definition is_number :: "string \<Rightarrow> bool" where
  "is_number l \<longleftrightarrow> lex_num l = Some (l, [])"

text \<open>What may follow a number without becoming part of it.\<close>

definition number_end :: "string \<Rightarrow> bool" where
  "number_end s \<longleftrightarrow>
     (case s of [] \<Rightarrow> True
      | c # _ \<Rightarrow> \<not> is_digit c \<and> c \<noteq> CHR ''.'' \<and> c \<noteq> CHR ''e'' \<and> c \<noteq> CHR ''E'')"

lemma take_digits_split: "take_digits s = (ds, r) \<Longrightarrow> s = ds @ r"
  by (auto simp: take_digits_def)

lemma lex_int_part_split: "lex_int_part s = Some (i, r) \<Longrightarrow> s = i @ r \<and> i \<noteq> []"
  by (auto simp: lex_int_part_def take_digits_def split: list.splits if_splits)

lemma lex_frac_split: "lex_frac s = Some (f, r) \<Longrightarrow> s = f @ r"
  by (auto simp: lex_frac_def split: list.splits if_splits prod.splits dest: take_digits_split)

lemma lex_exp_split: "lex_exp s = Some (e, r) \<Longrightarrow> s = e @ r"
  by (auto simp: lex_exp_def split: list.splits if_splits prod.splits dest: take_digits_split)

lemma lex_num_split: "lex_num s = Some (l, r) \<Longrightarrow> s = l @ r \<and> l \<noteq> []"
  by (cases s)
     (auto simp: lex_num_def lex_unsigned_def emit_Some split: if_splits option.splits
       dest!: lex_int_part_split lex_frac_split lex_exp_split)

lemma lex_num_shrinks: "lex_num s = Some (l, r) \<Longrightarrow> length r < length s"
  by (drule lex_num_split) (cases l; auto)

lemma take_digits_append:
  "number_end t \<Longrightarrow> take_digits (s @ t) = (fst (take_digits s), snd (take_digits s) @ t)"
  by (induction s) (auto simp: take_digits_def number_end_def split: list.splits)

lemma lex_int_part_append:
  "number_end t \<Longrightarrow> lex_int_part s = Some (i, r) \<Longrightarrow> lex_int_part (s @ t) = Some (i, r @ t)"
  using take_digits_append [of t s]
  by (auto simp: lex_int_part_def split: list.splits if_splits)

lemma lex_frac_end: "number_end t \<Longrightarrow> lex_frac t = Some ([], t)"
  by (auto simp: lex_frac_def number_end_def split: list.splits)

lemma lex_exp_end: "number_end t \<Longrightarrow> lex_exp t = Some ([], t)"
  by (auto simp: lex_exp_def number_end_def split: list.splits)

lemma lex_frac_append:
  assumes "number_end t" and "lex_frac s = Some (f, r)"
  shows "lex_frac (s @ t) = Some (f, r @ t)"
proof (cases s)
  case Nil
  with assms show ?thesis by (simp add: lex_frac_end) (simp add: lex_frac_def)
next
  case (Cons c cs)
  with assms(2) take_digits_append [OF assms(1), of cs] show ?thesis
    by (auto simp: lex_frac_def split: if_splits prod.splits)
qed

lemma lex_exp_append:
  assumes t: "number_end t" and "lex_exp s = Some (e, r)"
  shows "lex_exp (s @ t) = Some (e, r @ t)"
proof (cases s)
  case Nil
  with assms show ?thesis by (simp add: lex_exp_end) (simp add: lex_exp_def)
next
  case (Cons c cs)
  show ?thesis
  proof (cases cs)
    case Nil
    with assms Cons show ?thesis by (auto simp: lex_exp_def split: if_splits)
  next
    case (Cons d ds)
    with assms(2) \<open>s = c # cs\<close> take_digits_append [OF t, of cs] take_digits_append [OF t, of ds]
    show ?thesis by (auto simp: lex_exp_def split: if_splits prod.splits)
  qed
qed

lemma lex_unsigned_append:
  assumes "number_end t" and "lex_unsigned s = Some (l, r)"
  shows "lex_unsigned (s @ t) = Some (l, r @ t)"
proof -
  from assms(2) obtain i s2 f s3 e where parts: "lex_int_part s = Some (i, s2)"
      "lex_frac s2 = Some (f, s3)" "lex_exp s3 = Some (e, r)" "l = i @ f @ e"
    by (auto simp: lex_unsigned_def split: option.splits)
  with lex_int_part_append [OF assms(1) parts(1)] lex_frac_append [OF assms(1) parts(2)]
    lex_exp_append [OF assms(1) parts(3)]
  show ?thesis by (simp add: lex_unsigned_def)
qed

lemma lex_num_append:
  assumes "number_end t" and "is_number l"
  shows "lex_num (l @ t) = Some (l, t)"
proof -
  from assms(2) have ne: "l \<noteq> []" using lex_num_split by (auto simp: is_number_def)
  then have sign: "has_prefix (l @ t) ''-'' = has_prefix l ''-''" "tl (l @ t) = tl l @ t"
    by (cases l; simp)+
  show ?thesis
    using assms(2) lex_unsigned_append [OF assms(1)]
    by (fastforce simp: is_number_def lex_num_def sign emit_Some split: if_splits)
qed

lemma take_digits_all: "list_all is_digit s \<Longrightarrow> take_digits s = (s, [])"
  by (auto simp: take_digits_def list_all_iff takeWhile_eq_all_conv dropWhile_eq_Nil_conv)

lemma nat_digits_zero: "nat_digits 0 = ''0''"
  by (simp add: nat_digits.simps digit_char_def)

lemma nat_digits_hd_nonzero: "0 < n \<Longrightarrow> hd (nat_digits n) \<noteq> CHR ''0''"
proof (induction n rule: nat_digits.induct)
  case (1 n)
  show ?case
  proof (cases "n < 10")
    case True
    with "1.prems" have "byte (hd (nat_digits n)) \<noteq> (48::nat)"
      by (subst nat_digits.simps) (simp add: digit_char_props(3))
    then show ?thesis by auto
  next
    case False
    with "1.IH" have "hd (nat_digits (n div 10)) \<noteq> CHR ''0''" by simp
    with False show ?thesis by (subst nat_digits.simps) simp
  qed
qed

lemma lex_int_part_nat_digits: "lex_int_part (nat_digits n) = Some (nat_digits n, [])"
proof (cases "n = 0")
  case True
  then show ?thesis by (simp add: nat_digits_zero lex_int_part_def)
next
  case False
  then have "hd (nat_digits n) \<noteq> CHR ''0''" by (simp add: nat_digits_hd_nonzero)
  then show ?thesis
    using nat_digits_digits [of n] take_digits_all [OF nat_digits_digits, of n]
    by (cases "nat_digits n") (auto simp: lex_int_part_def)
qed

lemma lex_unsigned_nat_digits: "lex_unsigned (nat_digits n) = Some (nat_digits n, [])"
  by (simp add: lex_unsigned_def lex_int_part_nat_digits lex_frac_def lex_exp_def)

lemma is_number_itoa: "is_number (itoa n)"
  using nat_digits_hd [of "nat n"]
  by (auto simp: is_number_def itoa_def lex_num_def lex_unsigned_nat_digits)

section \<open>Documents\<close>

fun join_comma :: "string list \<Rightarrow> string" where
  "join_comma [] = []"
| "join_comma [s] = s"
| "join_comma (s # ss) = s @ '','' @ join_comma ss"

fun json_text :: "json \<Rightarrow> string" where
  "json_text JNull = ''null''"
| "json_text (JBool b) = (if b then ''true'' else ''false'')"
| "json_text (JNum l) = l"
| "json_text (JStr s) = json_string s"
| "json_text (JArr js) = ''['' @ join_comma (map json_text js) @ '']''"
| "json_text (JObj kvs) =
     ''{'' @ join_comma (map (\<lambda>(k, v). json_string k @ '':'' @ json_text v) kvs) @ ''}''"

datatype token =
    T_ObjOpen | T_ObjClose | T_ArrOpen | T_ArrClose | T_Colon | T_Comma
  | T_Str string
  | T_Num string
  | T_Lit json

definition punct :: "char \<Rightarrow> token option" where
  "punct c =
     (if c = CHR ''{'' then Some T_ObjOpen
      else if c = CHR ''}'' then Some T_ObjClose
      else if c = CHR ''['' then Some T_ArrOpen
      else if c = CHR '']'' then Some T_ArrClose
      else if c = CHR '':'' then Some T_Colon
      else if c = CHR '','' then Some T_Comma
      else None)"

definition is_json_space :: "char \<Rightarrow> bool" where
  "is_json_space c \<longleftrightarrow> c = CHR '' '' \<or> c = CHR 0x09 \<or> c = CHR 0x0A \<or> c = CHR 0x0D"

text \<open>The token at the head of a non-empty text that starts with no white space.\<close>

definition next_token :: "string \<Rightarrow> (token \<times> string) option" where
  "next_token s =
     (case s of
        [] \<Rightarrow> None
      | c # cs \<Rightarrow>
          (case punct c of
             Some t \<Rightarrow> Some (t, cs)
           | None \<Rightarrow>
               if c = CHR 0x22 then map_option (\<lambda>(x, r). (T_Str x, r)) (lex_str cs)
               else if c = CHR ''-'' \<or> is_digit c then map_option (\<lambda>(x, r). (T_Num x, r)) (lex_num s)
               else if has_prefix s ''true'' then Some (T_Lit (JBool True), drop 4 s)
               else if has_prefix s ''false'' then Some (T_Lit (JBool False), drop 5 s)
               else if has_prefix s ''null'' then Some (T_Lit JNull, drop 4 s)
               else None))"

lemma next_token_shrinks: "next_token s = Some (t, r) \<Longrightarrow> length r < length s"
  by (auto simp: next_token_def split: list.splits option.splits if_splits
      dest: lex_str_shrinks lex_num_shrinks)

function lex :: "string \<Rightarrow> token list option" where
  "lex s =
     (if s = [] then Some []
      else if is_json_space (hd s) then lex (tl s)
      else (case next_token s of
          None \<Rightarrow> None
        | Some (t, r) \<Rightarrow> map_option (\<lambda>ts. t # ts) (lex r)))"
  by pat_completeness auto
termination
  by (relation "measure length") (auto dest: next_token_shrinks)

declare lex.simps [simp del]

text \<open>
  The parser: a stack of the containers that are open, and what the next token may be. The
  nesting limit is \<open>maxNestingDepth\<close> of the Go scanner.
\<close>

datatype frame = F_Arr "json list" | F_Obj "(string \<times> json) list" string

datatype mode =
    M_Value                              \<comment> \<open>a value\<close>
  | M_ArrFirst                           \<comment> \<open>a value or the end of the array\<close>
  | M_ObjFirst                           \<comment> \<open>a key or the end of the object\<close>
  | M_Key "(string \<times> json) list"        \<comment> \<open>a key\<close>
  | M_Colon "(string \<times> json) list" string
  | M_Done json                          \<comment> \<open>after a value\<close>

definition max_nesting :: nat where
  "max_nesting = 10000"

definition begin_value :: "frame list \<Rightarrow> token \<Rightarrow> (frame list \<times> mode) option" where
  "begin_value st t =
     (case t of
        T_Str s \<Rightarrow> Some (st, M_Done (JStr s))
      | T_Num l \<Rightarrow> Some (st, M_Done (JNum l))
      | T_Lit j \<Rightarrow> Some (st, M_Done j)
      | T_ArrOpen \<Rightarrow> if length st < max_nesting then Some (F_Arr [] # st, M_ArrFirst) else None
      | T_ObjOpen \<Rightarrow> if length st < max_nesting then Some (st, M_ObjFirst) else None
      | _ \<Rightarrow> None)"

definition end_value :: "frame list \<Rightarrow> json \<Rightarrow> token \<Rightarrow> (frame list \<times> mode) option" where
  "end_value st v t =
     (case st of
        [] \<Rightarrow> None
      | F_Arr vs # st' \<Rightarrow>
          (case t of
             T_Comma \<Rightarrow> Some (F_Arr (vs @ [v]) # st', M_Value)
           | T_ArrClose \<Rightarrow> Some (st', M_Done (JArr (vs @ [v])))
           | _ \<Rightarrow> None)
      | F_Obj kvs k # st' \<Rightarrow>
          (case t of
             T_Comma \<Rightarrow> Some (st', M_Key (kvs @ [(k, v)]))
           | T_ObjClose \<Rightarrow> Some (st', M_Done (JObj (kvs @ [(k, v)])))
           | _ \<Rightarrow> None))"

definition parse_step :: "frame list \<Rightarrow> mode \<Rightarrow> token \<Rightarrow> (frame list \<times> mode) option" where
  "parse_step st m t =
     (case m of
        M_Value \<Rightarrow> begin_value st t
      | M_ArrFirst \<Rightarrow>
          if t = T_ArrClose then Some (tl st, M_Done (JArr [])) else begin_value st t
      | M_ObjFirst \<Rightarrow>
          (case t of
             T_ObjClose \<Rightarrow> Some (st, M_Done (JObj []))
           | T_Str k \<Rightarrow> Some (st, M_Colon [] k)
           | _ \<Rightarrow> None)
      | M_Key kvs \<Rightarrow> (case t of T_Str k \<Rightarrow> Some (st, M_Colon kvs k) | _ \<Rightarrow> None)
      | M_Colon kvs k \<Rightarrow> if t = T_Colon then Some (F_Obj kvs k # st, M_Value) else None
      | M_Done v \<Rightarrow> end_value st v t)"

fun parse_tokens :: "frame list \<Rightarrow> mode \<Rightarrow> token list \<Rightarrow> json option" where
  "parse_tokens st m [] = (case (st, m) of ([], M_Done v) \<Rightarrow> Some v | _ \<Rightarrow> None)"
| "parse_tokens st m (t # ts) =
     (case parse_step st m t of None \<Rightarrow> None | Some (st', m') \<Rightarrow> parse_tokens st' m' ts)"

definition json_parse :: "string \<Rightarrow> json option" where
  "json_parse s = Option.bind (lex s) (parse_tokens [] M_Value)"

section \<open>Parsing what was printed\<close>

fun join_tokens :: "token list list \<Rightarrow> token list" where
  "join_tokens [] = []"
| "join_tokens [ts] = ts"
| "join_tokens (ts # tss) = ts @ T_Comma # join_tokens tss"

fun json_tokens :: "json \<Rightarrow> token list" where
  "json_tokens JNull = [T_Lit JNull]"
| "json_tokens (JBool b) = [T_Lit (JBool b)]"
| "json_tokens (JNum l) = [T_Num l]"
| "json_tokens (JStr s) = [T_Str s]"
| "json_tokens (JArr js) = T_ArrOpen # join_tokens (map json_tokens js) @ [T_ArrClose]"
| "json_tokens (JObj kvs) =
     T_ObjOpen # join_tokens (map (\<lambda>(k, v). T_Str k # T_Colon # json_tokens v) kvs) @ [T_ObjClose]"

text \<open>Documents \<open>json.Marshal\<close> can write without changing them: numbers are number tokens and
  strings are UTF-8.\<close>

fun wf_json :: "json \<Rightarrow> bool" where
  "wf_json JNull = True"
| "wf_json (JBool b) = True"
| "wf_json (JNum l) = is_number l"
| "wf_json (JStr s) = valid_utf8 s"
| "wf_json (JArr js) = list_all wf_json js"
| "wf_json (JObj kvs) = list_all (\<lambda>(k, v). valid_utf8 k \<and> wf_json v) kvs"

fun depth_ok :: "nat \<Rightarrow> json \<Rightarrow> bool" where
  "depth_ok n (JArr js) = (0 < n \<and> list_all (depth_ok (n - 1)) js)"
| "depth_ok n (JObj kvs) = (0 < n \<and> list_all (\<lambda>(k, v). depth_ok (n - 1) v) kvs)"
| "depth_ok n j = True"

text \<open>Any value the encoders build, and what is read back of it.\<close>

fun numbers_ok :: "json \<Rightarrow> bool" where
  "numbers_ok (JNum l) = is_number l"
| "numbers_ok (JArr js) = list_all numbers_ok js"
| "numbers_ok (JObj kvs) = list_all (\<lambda>(k, v). numbers_ok v) kvs"
| "numbers_ok j = True"

fun clean_json :: "json \<Rightarrow> json" where
  "clean_json (JStr s) = JStr (to_valid_utf8 s)"
| "clean_json (JArr js) = JArr (map clean_json js)"
| "clean_json (JObj kvs) = JObj (map (\<lambda>(k, v). (to_valid_utf8 k, clean_json v)) kvs)"
| "clean_json j = j"

lemma clean_json_wf: "wf_json j \<Longrightarrow> clean_json j = j \<and> numbers_ok j"
proof (induction j rule: wf_json.induct)
  case (5 js)
  then show ?case by (auto simp: list_all_iff intro: map_idI)
next
  case (6 kvs)
  then show ?case by (fastforce simp: list_all_iff to_valid_utf8_id intro: map_idI)
qed (simp_all add: to_valid_utf8_id)

lemma clean_json_depth: "depth_ok n (clean_json j) = depth_ok n j"
proof (induction n j rule: depth_ok.induct)
  case (1 n js)
  then show ?case by (auto simp: list_all_iff)
next
  case (2 n kvs)
  then show ?case by (fastforce simp: list_all_iff)
qed simp_all

definition lexes :: "string \<Rightarrow> token list \<Rightarrow> bool" where
  "lexes s ts \<longleftrightarrow> (\<forall>r. number_end r \<longrightarrow> lex (s @ r) = map_option (\<lambda>us. ts @ us) (lex r))"

lemma lex_token:
  assumes "next_token s = Some (t, r)"
  shows "lex s = map_option (\<lambda>ts. t # ts) (lex r)"
proof -
  from assms obtain c cs where s: "s = c # cs" by (cases s) (auto simp: next_token_def)
  have "\<not> is_json_space c"
    using assms by (auto simp: s next_token_def punct_def is_json_space_def is_digit_def byte_in_def)
  with assms s show ?thesis by (subst lex.simps) simp
qed

lemma lexesI:
  assumes "\<And>r. number_end r \<Longrightarrow> next_token (s @ r) = Some (t, r)"
  shows "lexes s [t]"
  using assms by (auto simp: lexes_def lex_token)

lemma lexes_punct: "punct c = Some t \<Longrightarrow> lexes [c] [t]"
  by (rule lexesI) (simp add: next_token_def)

lemma lexes_string: "lexes (json_string s) [T_Str (to_valid_utf8 s)]"
  by (rule lexesI) (simp add: next_token_def punct_def json_string_def lex_str_quote_body)

lemma lexes_number: "is_number l \<Longrightarrow> lexes l [T_Num l]"
proof (rule lexesI)
  fix r
  assume l: "is_number l" and r: "number_end r"
  then have split: "lex_num (l @ r) = Some (l, r)" by (simp add: lex_num_append)
  from l obtain c cs where lc: "l = c # cs" using lex_num_split by (cases l) (auto simp: is_number_def)
  have "c = CHR ''-'' \<or> is_digit c"
    using l by (auto simp: lc is_number_def lex_num_def lex_unsigned_def lex_int_part_def
        is_digit_def byte_in_def split: if_splits option.splits)
  moreover from this have "punct c = None" "c \<noteq> CHR 0x22"
    by (auto simp: punct_def is_digit_def byte_in_def)
  ultimately show "next_token (l @ r) = Some (T_Num l, r)"
    using split by (auto simp: next_token_def lc)
qed

lemma lexes_literals:
  "lexes ''true'' [T_Lit (JBool True)]" "lexes ''false'' [T_Lit (JBool False)]"
  "lexes ''null'' [T_Lit JNull]"
  by (rule lexesI, simp add: next_token_def punct_def is_digit_def byte_in_def)+

lemma lexes_append:
  assumes "lexes s ts" and "lexes u vs" and "u \<noteq> []" and "number_end u"
  shows "lexes (s @ u) (ts @ vs)"
  unfolding lexes_def
proof (intro allI impI)
  fix r
  assume r: "number_end r"
  have "number_end (u @ r)" using assms(3,4) by (cases u) (auto simp: number_end_def)
  with assms(1) have "lex (s @ u @ r) = map_option (\<lambda>us. ts @ us) (lex (u @ r))"
    by (simp add: lexes_def)
  also from assms(2) r have "lex (u @ r) = map_option (\<lambda>us. vs @ us) (lex r)"
    by (simp add: lexes_def)
  finally show "lex ((s @ u) @ r) = map_option (\<lambda>us. (ts @ vs) @ us) (lex r)"
    by (simp add: option.map_comp comp_def)
qed

lemma number_end_punct: "punct c = Some t \<Longrightarrow> number_end (c # s)"
  by (auto simp: punct_def number_end_def is_digit_def byte_in_def split: if_splits)

lemma lexes_punct_Cons: "punct c = Some t \<Longrightarrow> lexes s ts \<Longrightarrow> lexes (c # s) (t # ts)"
proof -
  assume c: "punct c = Some t" and s: "lexes s ts"
  have "lex (c # s @ r) = map_option (\<lambda>ts. t # ts) (lex (s @ r))" for r
    by (rule lex_token) (simp add: next_token_def c)
  with s show ?thesis by (simp add: lexes_def option.map_comp comp_def)
qed

lemma lexes_Nil [simp]: "lexes [] []"
  by (simp add: lexes_def option.map_id0 [unfolded id_def, THEN fun_cong])

lemma lexes_join:
  "list_all2 lexes ss tss \<Longrightarrow> lexes (join_comma ss) (join_tokens tss)"
proof (induction ss arbitrary: tss rule: join_comma.induct)
  case 1
  then show ?case by simp
next
  case (2 s)
  then show ?case by (auto simp: list_all2_Cons1)
next
  case (3 s s' ss)
  then obtain ts tss' where tss: "tss = ts # tss'" "lexes s ts" "list_all2 lexes (s' # ss) tss'"
    by (auto simp: list_all2_Cons1)
  then obtain ts' tss'' where tss': "tss' = ts' # tss''" by (auto simp: list_all2_Cons1)
  have comma: "punct (CHR '','') = Some T_Comma" by (simp add: punct_def)
  from "3.IH" [OF tss(3)] have "lexes ('','' @ join_comma (s' # ss)) (T_Comma # join_tokens tss')"
    using lexes_punct_Cons [OF comma] by simp
  with tss(2) have "lexes (s @ '','' @ join_comma (s' # ss)) (ts @ T_Comma # join_tokens tss')"
    by (rule lexes_append) (simp_all add: number_end_punct [OF comma])
  with tss(1) tss' show ?case by simp
qed

lemma lexes_bracketed:
  assumes "punct a = Some ta" and "punct b = Some tb" and "lexes s ts"
  shows "lexes (a # s @ [b]) (ta # ts @ [tb])"
  by (rule lexes_punct_Cons [OF assms(1)], rule lexes_append [OF assms(3) lexes_punct [OF assms(2)]])
     (simp_all add: number_end_punct [OF assms(2)])

lemma lexes_json_text: "numbers_ok j \<Longrightarrow> lexes (json_text j) (json_tokens (clean_json j))"
proof (induction j rule: json_text.induct)
  case (5 js)
  then have "list_all2 lexes (map json_text js) (map (json_tokens \<circ> clean_json) js)"
    by (simp add: list_all_iff list_all2_map1 list_all2_map2 list_all2_same)
  then have "lexes (join_comma (map json_text js)) (join_tokens (map (json_tokens \<circ> clean_json) js))"
    by (rule lexes_join)
  then show ?case using lexes_bracketed [of "CHR ''[''" _ "CHR '']''"] by (simp add: punct_def comp_def)
next
  case (6 kvs)
  have "lexes (json_string k @ '':'' @ json_text v) ([T_Str (to_valid_utf8 k)] @ T_Colon # json_tokens (clean_json v))"
    if "(k, v) \<in> set kvs" for k v
  proof -
    have colon: "punct (CHR '':'') = Some T_Colon" by (simp add: punct_def)
    from 6 that have "lexes (json_text v) (json_tokens (clean_json v))"
      by (auto simp: list_all_iff)
    then show ?thesis
      using lexes_append [OF lexes_string lexes_punct_Cons [OF colon]]
      by (simp add: number_end_punct [OF colon])
  qed
  then have "list_all2 lexes (map (\<lambda>(k, v). json_string k @ '':'' @ json_text v) kvs)
      (map (\<lambda>(k, v). T_Str (to_valid_utf8 k) # T_Colon # json_tokens (clean_json v)) kvs)"
    by (auto simp: list_all2_map1 list_all2_map2 list_all2_same)
  then have "lexes (join_comma (map (\<lambda>(k, v). json_string k @ '':'' @ json_text v) kvs))
      (join_tokens (map (\<lambda>(k, v). T_Str (to_valid_utf8 k) # T_Colon # json_tokens (clean_json v)) kvs))"
    by (rule lexes_join)
  then show ?case using lexes_bracketed [of "CHR ''{''" _ "CHR ''}''"]
    by (simp add: punct_def comp_def case_prod_unfold)
qed (simp_all add: lexes_literals lexes_number lexes_string)

text \<open>A printed value, read where a value may start, leaves the parser after that value.\<close>

definition reads :: "nat \<Rightarrow> json \<Rightarrow> bool" where
  "reads n j \<longleftrightarrow>
     (\<forall>st ts. length st = n \<longrightarrow>
        parse_tokens st M_Value (json_tokens j @ ts) = parse_tokens st (M_Done j) ts)"

lemma json_tokens_head: "\<exists>t ts. json_tokens j = t # ts \<and> t \<noteq> T_ArrClose"
  by (cases j) auto

lemma parse_ArrFirst:
  "parse_tokens st M_ArrFirst (json_tokens j @ ts) = parse_tokens st M_Value (json_tokens j @ ts)"
  using json_tokens_head [of j] by (auto simp: parse_step_def)

lemma parse_array_tail:
  assumes "\<forall>j \<in> set (j # js). reads (Suc (length st)) j"
  shows "parse_tokens (F_Arr vs # st) M_Value
      (join_tokens (map json_tokens (j # js)) @ T_ArrClose # ts) =
    parse_tokens st (M_Done (JArr (vs @ j # js))) ts"
  using assms
proof (induction js arbitrary: j vs)
  case Nil
  then show ?case by (simp add: reads_def parse_step_def end_value_def)
next
  case (Cons j' js)
  have "parse_tokens (F_Arr vs # st) M_Value
      (json_tokens j @ T_Comma # join_tokens (map json_tokens (j' # js)) @ T_ArrClose # ts) =
    parse_tokens (F_Arr (vs @ [j]) # st) M_Value
      (join_tokens (map json_tokens (j' # js)) @ T_ArrClose # ts)"
    using Cons.prems by (simp add: reads_def parse_step_def end_value_def)
  also have "\<dots> = parse_tokens st (M_Done (JArr ((vs @ [j]) @ j' # js))) ts"
    by (rule Cons.IH) (use Cons.prems in auto)
  finally show ?case by simp
qed

lemma parse_object_tail:
  assumes "\<forall>(k, v) \<in> set (kv # kvs). reads (Suc (length st)) v"
  shows "parse_tokens st (M_Key acc)
      (join_tokens (map (\<lambda>(k, v). T_Str k # T_Colon # json_tokens v) (kv # kvs)) @ T_ObjClose # ts) =
    parse_tokens st (M_Done (JObj (acc @ kv # kvs))) ts"
  using assms
proof (induction kvs arbitrary: kv acc)
  case Nil
  then show ?case by (cases kv) (simp add: reads_def parse_step_def end_value_def)
next
  case (Cons kv' kvs)
  obtain k v where kv: "kv = (k, v)" by (cases kv)
  have "parse_tokens st (M_Key acc) (T_Str k # T_Colon # json_tokens v @ T_Comma #
      join_tokens (map (\<lambda>(k, v). T_Str k # T_Colon # json_tokens v) (kv' # kvs)) @ T_ObjClose # ts) =
    parse_tokens st (M_Key (acc @ [(k, v)]))
      (join_tokens (map (\<lambda>(k, v). T_Str k # T_Colon # json_tokens v) (kv' # kvs)) @ T_ObjClose # ts)"
    using Cons.prems by (simp add: kv reads_def parse_step_def end_value_def)
  also have "\<dots> = parse_tokens st (M_Done (JObj ((acc @ [(k, v)]) @ kv' # kvs))) ts"
    by (rule Cons.IH) (use Cons.prems in auto)
  finally show ?case by (simp add: kv)
qed

lemma parse_ObjFirst:
  "parse_tokens st M_ObjFirst (T_Str k # ts) = parse_tokens st (M_Key []) (T_Str k # ts)"
  by (simp add: parse_step_def)

lemma reads_json: "n \<le> max_nesting \<Longrightarrow> depth_ok (max_nesting - n) j \<Longrightarrow> reads n j"
proof (induction j arbitrary: n rule: json_text.induct)
  case (5 js)
  then have n: "n < max_nesting" and "\<forall>j \<in> set js. reads (Suc n) j"
    by (auto simp: list_all_iff)
  show ?case
    unfolding reads_def
  proof (intro allI impI)
    fix st :: "frame list" and ts
    assume st: "length st = n"
    show "parse_tokens st M_Value (json_tokens (JArr js) @ ts) = parse_tokens st (M_Done (JArr js)) ts"
    proof (cases js)
      case Nil
      with n st show ?thesis by (simp add: parse_step_def begin_value_def)
    next
      case (Cons j js')
      have "parse_tokens st M_Value (json_tokens (JArr js) @ ts) =
          parse_tokens (F_Arr [] # st) M_ArrFirst (join_tokens (map json_tokens js) @ T_ArrClose # ts)"
        using n st by (simp add: parse_step_def begin_value_def)
      also have "\<dots> =
          parse_tokens (F_Arr [] # st) M_Value (join_tokens (map json_tokens js) @ T_ArrClose # ts)"
        using parse_ArrFirst [of "F_Arr [] # st" j] by (cases js') (simp_all add: Cons)
      also have "\<dots> = parse_tokens st (M_Done (JArr js)) ts"
        using parse_array_tail [of j js' st "[]" ts] \<open>\<forall>j \<in> set js. reads (Suc n) j\<close> st
        by (simp add: Cons)
      finally show ?thesis .
    qed
  qed
next
  case (6 kvs)
  then have n: "n < max_nesting" and vals: "\<forall>(k, v) \<in> set kvs. reads (Suc n) v"
    by (auto simp: list_all_iff)
  show ?case
    unfolding reads_def
  proof (intro allI impI)
    fix st :: "frame list" and ts
    assume st: "length st = n"
    let ?member = "\<lambda>(k, v). T_Str k # T_Colon # json_tokens v"
    show "parse_tokens st M_Value (json_tokens (JObj kvs) @ ts) = parse_tokens st (M_Done (JObj kvs)) ts"
    proof (cases kvs)
      case Nil
      with n st show ?thesis by (simp add: parse_step_def begin_value_def)
    next
      case (Cons kv kvs')
      have "parse_tokens st M_Value (json_tokens (JObj kvs) @ ts) =
          parse_tokens st M_ObjFirst (join_tokens (map ?member kvs) @ T_ObjClose # ts)"
        using n st by (simp add: parse_step_def begin_value_def)
      also have "\<dots> = parse_tokens st (M_Key []) (join_tokens (map ?member kvs) @ T_ObjClose # ts)"
        using parse_ObjFirst [of st] by (cases kv; cases kvs') (simp_all add: Cons)
      also have "\<dots> = parse_tokens st (M_Done (JObj kvs)) ts"
        using parse_object_tail [of kv kvs' st "[]" ts] vals st by (simp add: Cons)
      finally show ?thesis .
    qed
  qed
qed (simp_all add: reads_def parse_step_def begin_value_def)

theorem json_parse_text:
  assumes "numbers_ok j" and "depth_ok max_nesting j"
  shows "json_parse (json_text j) = Some (clean_json j)"
proof -
  have stop: "number_end []" by (simp add: number_end_def)
  have "lex (json_text j @ []) = map_option (\<lambda>us. json_tokens (clean_json j) @ us) (lex [])"
    using lexes_json_text [OF assms(1)] stop unfolding lexes_def by blast
  then have "lex (json_text j) = Some (json_tokens (clean_json j))" by (simp add: lex.simps)
  moreover have "parse_tokens [] M_Value (json_tokens (clean_json j) @ []) = parse_tokens [] (M_Done (clean_json j)) []"
    using reads_json [of 0 "clean_json j"] assms(2) by (simp add: reads_def clean_json_depth del: append_Nil2)
  ultimately show ?thesis by (simp add: json_parse_def)
qed

theorem json_roundtrip:
  "wf_json j \<Longrightarrow> depth_ok max_nesting j \<Longrightarrow> json_parse (json_text j) = Some j"
  using json_parse_text [of j] clean_json_wf [of j] by simp

end
