(* ===== verification/Codec.thy ===== *)
theory Codec
  imports Go_Json "HOL-Library.List_Lexorder" "HOL-Library.Char_ord"
begin

text \<open>
  \<open>json.Marshal\<close> and \<open>json.Unmarshal\<close> on Go values. A decoder takes the value already in the
  target, as \<open>Unmarshal\<close> decodes into it: \<open>null\<close> and missing members leave it as it is, and the
  last of several members of one name wins. The program drops the target when \<open>Unmarshal\<close>
  returns an error, so a decoder returns \<open>None\<close> then. The locale \<open>codec\<close> states what an encoder and
  a decoder of one type promise each other; every type the program both writes and reads
  interprets it.
\<close>

type_synonym 'a decoder = "'a \<Rightarrow> json \<Rightarrow> 'a option"
type_synonym 'r struct_field = "string \<times> ('r \<Rightarrow> json \<Rightarrow> 'r option)"

section \<open>Scalars, slices and maps\<close>

definition dec_string :: "string decoder" where
  "dec_string old j = (case j of JNull \<Rightarrow> Some old | JStr s \<Rightarrow> Some s | _ \<Rightarrow> None)"

definition dec_int :: "int decoder" where
  "dec_int old j = (case j of JNull \<Rightarrow> Some old | JNum l \<Rightarrow> atoi l | _ \<Rightarrow> None)"

definition dec_bool :: "bool decoder" where
  "dec_bool old j = (case j of JNull \<Rightarrow> Some old | JBool b \<Rightarrow> Some b | _ \<Rightarrow> None)"

text \<open>A pointer: \<open>null\<close> sets it to nil, anything else is decoded into the value it points to.\<close>

definition dec_pointer :: "'a \<Rightarrow> 'a decoder \<Rightarrow> 'a option decoder" where
  "dec_pointer z d old j =
     (if j = JNull then Some None
      else map_option Some (d (case old of None \<Rightarrow> z | Some x \<Rightarrow> x) j))"

definition dec_time :: "go_time decoder" where
  "dec_time old j = (case j of JNull \<Rightarrow> Some old | JStr s \<Rightarrow> unmarshal_time s | _ \<Rightarrow> None)"

text \<open>The elements of an array are decoded into those the slice already has, then into new ones.\<close>

fun dec_elems :: "'a \<Rightarrow> 'a decoder \<Rightarrow> 'a list \<Rightarrow> json list \<Rightarrow> 'a list option" where
  "dec_elems z d xs [] = Some []"
| "dec_elems z d xs (j # js) =
     (case d (if xs = [] then z else hd xs) j of
        None \<Rightarrow> None
      | Some y \<Rightarrow> map_option ((#) y) (dec_elems z d (tl xs) js))"

definition dec_slice :: "'a \<Rightarrow> 'a decoder \<Rightarrow> 'a list decoder" where
  "dec_slice z d old j = (case j of JNull \<Rightarrow> Some [] | JArr js \<Rightarrow> dec_elems z d old js | _ \<Rightarrow> None)"

text \<open>A map keeps its other entries; the value of a member is decoded into a zero value.\<close>

fun dec_entries :: "'a \<Rightarrow> 'a decoder \<Rightarrow> (string, 'a) fmap \<Rightarrow> (string \<times> json) list \<Rightarrow> (string, 'a) fmap option" where
  "dec_entries z d m [] = Some m"
| "dec_entries z d m ((k, j) # kvs) =
     (case d z j of None \<Rightarrow> None | Some v \<Rightarrow> dec_entries z d (fmupd k v m) kvs)"

definition dec_map :: "'a \<Rightarrow> 'a decoder \<Rightarrow> (string, 'a) fmap decoder" where
  "dec_map z d old j =
     (case j of JNull \<Rightarrow> Some fmempty | JObj kvs \<Rightarrow> dec_entries z d old kvs | _ \<Rightarrow> None)"

section \<open>Values of type any\<close>

text \<open>
  The number tokens \<open>strconv.ParseFloat\<close> takes: those whose value stays below the largest
  \<open>float64\<close> after rounding. A token is a sign, its digits as one natural number and a decimal
  exponent; as in \<open>readFloat\<close>, the exponent's digits stop counting beyond 10000.
\<close>

definition exp_val :: "string \<Rightarrow> int" where
  "exp_val e =
     (let ds = filter is_digit e;
          n = foldl (\<lambda>v c. if v < 10000 then v * 10 + digit_val c else v) 0 ds
      in if CHR ''-'' \<in> set e then - int n else int n)"

definition number_parts :: "string \<Rightarrow> string \<times> int" where
  "number_parts l =
     (let u = (if has_prefix l ''-'' then tl l else l);
          (i, s2) = take_digits u;
          (f, s3) = (if has_prefix s2 ''.'' then take_digits (tl s2) else ([], s2))
      in (i @ f, exp_val s3 - int (length f)))"

definition float64_limit :: nat where
  "float64_limit = 2 ^ 1024 - 2 ^ 970"

definition float64_ok :: "string \<Rightarrow> bool" where
  "float64_ok l =
     (let (ds, k) = number_parts l;
          sig = dropWhile ((=) (CHR ''0'')) ds;
          m = digits_val sig;
          w = int (length sig) + k
      in sig = [] \<or> w < 309 \<or>
         (w = 309 \<and> (if 0 \<le> k then m * 10 ^ nat k < float64_limit
                     else m < float64_limit * 10 ^ nat (- k))))"

fun any_ok :: "json \<Rightarrow> bool" where
  "any_ok (JNum l) = float64_ok l"
| "any_ok (JArr js) = list_all any_ok js"
| "any_ok (JObj kvs) = list_all (\<lambda>(k, v). any_ok v) kvs"
| "any_ok j = True"

definition dec_any :: "json decoder" where
  "dec_any old j = (if any_ok j then Some j else None)"

text \<open>\<open>v[k]\<close> for a value of type \<open>map[string]any\<close>: the last member of that name.\<close>

definition any_lookup :: "(string \<times> json) list \<Rightarrow> string \<Rightarrow> json option" where
  "any_lookup kvs k = map_of (rev kvs) k"

section \<open>Structs\<close>

text \<open>A field of a struct, by its name, its selector and its update.\<close>

definition struct_field ::
  "string \<Rightarrow> ('r \<Rightarrow> 'a) \<Rightarrow> (('a \<Rightarrow> 'a) \<Rightarrow> 'r \<Rightarrow> 'r) \<Rightarrow> 'a decoder \<Rightarrow> 'r struct_field" where
  "struct_field n get upd d = (n, \<lambda>r j. map_option (\<lambda>v. upd (\<lambda>_. v) r) (d (get r) j))"

text \<open>The field a member goes to: the one of exactly this name, else the first one whose name is
  the same under case folding.\<close>

definition find_field :: "'r struct_field list \<Rightarrow> string \<Rightarrow> ('r \<Rightarrow> json \<Rightarrow> 'r option) option" where
  "find_field fs k =
     (case map_of fs k of
        Some f \<Rightarrow> Some f
      | None \<Rightarrow> map_option snd (find (\<lambda>(n, f). fold_name n = fold_name k) fs))"

fun dec_members :: "'r struct_field list \<Rightarrow> 'r \<Rightarrow> (string \<times> json) list \<Rightarrow> 'r option" where
  "dec_members fs r [] = Some r"
| "dec_members fs r ((k, j) # kvs) =
     (case find_field fs k of
        None \<Rightarrow> dec_members fs r kvs
      | Some f \<Rightarrow> (case f r j of None \<Rightarrow> None | Some r' \<Rightarrow> dec_members fs r' kvs))"

definition dec_struct :: "'r struct_field list \<Rightarrow> 'r decoder" where
  "dec_struct fs old j =
     (case j of JNull \<Rightarrow> Some old | JObj kvs \<Rightarrow> dec_members fs old kvs | _ \<Rightarrow> None)"

section \<open>Encoders\<close>

text \<open>A member that \<open>omitempty\<close> drops when the field is empty.\<close>

definition member :: "string \<Rightarrow> json \<Rightarrow> (string \<times> json) list" where
  "member n j = [(n, j)]"

definition opt_member :: "string \<Rightarrow> bool \<Rightarrow> json \<Rightarrow> (string \<times> json) list" where
  "opt_member n e j = (if e then [] else [(n, j)])"

definition enc_int :: "int \<Rightarrow> json" where
  "enc_int n = JNum (itoa n)"

definition enc_strings :: "string list \<Rightarrow> json" where
  "enc_strings xs = JArr (map JStr xs)"

definition enc_ints :: "int list \<Rightarrow> json" where
  "enc_ints ns = JArr (map enc_int ns)"

text \<open>Maps are written in the order of their keys.\<close>

definition enc_map :: "('a \<Rightarrow> json) \<Rightarrow> (string, 'a) fmap \<Rightarrow> json" where
  "enc_map f m = JObj (map (\<lambda>k. (k, f (the (fmlookup m k)))) (sorted_list_of_fset (fmdom m)))"

definition marshal :: "('a \<Rightarrow> json option) \<Rightarrow> 'a \<Rightarrow> string option" where
  "marshal enc x = map_option json_text (enc x)"

definition unmarshal :: "'a decoder \<Rightarrow> 'a \<Rightarrow> string \<Rightarrow> 'a option" where
  "unmarshal d z s = Option.bind (json_parse s) (d z)"

section \<open>Reading back what was written\<close>

lemma dec_scalar [codec_simps, simp]:
  "dec_string old (JStr s) = Some s"
  "dec_bool oldb (JBool b) = Some b"
  "in_int64 n \<Longrightarrow> dec_int oldn (enc_int n) = Some n"
  by (simp_all add: dec_string_def dec_bool_def dec_int_def enc_int_def atoi_itoa)

lemma dec_elems_map:
  "(\<And>x. x \<in> set xs \<Longrightarrow> d z (f x) = Some x) \<Longrightarrow> dec_elems z d [] (map f xs) = Some xs"
  by (induction xs) auto

lemma dec_slice_map [codec_simps]:
  "(\<And>x. x \<in> set xs \<Longrightarrow> d z (f x) = Some x) \<Longrightarrow> dec_slice z d [] (JArr (map f xs)) = Some xs"
  by (simp add: dec_slice_def dec_elems_map)

lemma dec_strings [codec_simps, simp]: "dec_slice [] dec_string [] (enc_strings xs) = Some xs"
  by (simp add: enc_strings_def dec_slice_map)

lemma dec_ints [codec_simps, simp]:
  "list_all in_int64 ns \<Longrightarrow> dec_slice 0 dec_int [] (enc_ints ns) = Some ns"
  by (simp add: enc_ints_def dec_slice_map list_all_iff)

lemma dec_entries_map:
  assumes "\<And>k. k \<in> set ks \<Longrightarrow> d z (f k) = Some (g k)"
  shows "dec_entries z d m (map (\<lambda>k. (k, f k)) ks) = Some (foldl (\<lambda>m k. fmupd k (g k) m) m ks)"
  using assms by (induction ks arbitrary: m) auto

lemma fmlookup_foldl_fmupd:
  "fmlookup (foldl (\<lambda>m k. fmupd k (g k) m) m ks) x = (if x \<in> set ks then Some (g x) else fmlookup m x)"
  by (induction ks arbitrary: m) auto

lemma dec_enc_map:
  assumes "\<And>k v. fmlookup m k = Some v \<Longrightarrow> d z (f v) = Some v"
  shows "dec_map z d fmempty (enc_map f m) = Some m"
proof -
  let ?ks = "sorted_list_of_fset (fmdom m)"
  have ks: "set ?ks = fset (fmdom m)" by simp
  have "dec_entries z d fmempty (map (\<lambda>k. (k, f (the (fmlookup m k)))) ?ks) =
      Some (foldl (\<lambda>a k. fmupd k (the (fmlookup m k)) a) fmempty ?ks)"
    by (rule dec_entries_map) (auto simp: fmlookup_dom_iff intro!: assms)
  also have "foldl (\<lambda>a k. fmupd k (the (fmlookup m k)) a) fmempty ?ks = m"
    by (rule fmap_ext) (auto simp: fmlookup_foldl_fmupd fmlookup_dom_iff split: option.splits)
  finally show ?thesis by (simp add: dec_map_def enc_map_def)
qed

lemma dec_members_append [codec_simps]:
  "dec_members fs r (xs @ ys) = Option.bind (dec_members fs r xs) (\<lambda>r'. dec_members fs r' ys)"
  by (induction fs r xs rule: dec_members.induct) (auto split: option.splits)

lemma dec_member [codec_simps]:
  "find_field fs n = Some f \<Longrightarrow> dec_members fs r (member n j) = f r j"
  by (simp add: member_def split: option.splits)

text \<open>Decode the members one after another: the rest only once the target is known.\<close>

lemma bind_first_cong: "a = a' \<Longrightarrow> Option.bind a f = Option.bind a' f"
  by simp

lemma dec_members_unknown:
  "find_field fs n = None \<Longrightarrow> dec_members fs r (member n j @ kvs) = dec_members fs r kvs"
  by (simp add: member_def)

definition unknown_member :: "'r struct_field list \<Rightarrow> string \<times> json \<Rightarrow> bool" where
  "unknown_member fs kv \<longleftrightarrow> find_field fs (fst kv) = None"

lemma dec_members_all_unknown: "list_all (unknown_member fs) kvs \<Longrightarrow> dec_members fs r kvs = Some r"
  by (induction kvs) (auto simp: unknown_member_def)

lemma unknown_member_iff: "list_all (unknown_member fs) (member n j) = (find_field fs n = None)"
  by (simp add: member_def unknown_member_def)

text \<open>A dropped member reads as the zero value the target already has.\<close>

lemma dec_opt_member [codec_simps]:
  "find_field fs n = Some f \<Longrightarrow> (e \<Longrightarrow> f r j = Some r) \<Longrightarrow>
   dec_members fs r (opt_member n e j) = f r j"
  by (auto simp: opt_member_def split: option.splits)

lemma dec_slice_empty [codec_simps, simp]: "dec_slice z d old (JArr []) = Some []"
  by (simp add: dec_slice_def)

lemma find_field_Cons [codec_simps]:
  "find_field (struct_field n get upd d # fs) n = Some (\<lambda>r j. map_option (\<lambda>v. upd (\<lambda>_. v) r) (d (get r) j))"
  by (simp add: find_field_def struct_field_def)

lemma find_field_skip [codec_simps]:
  "n \<noteq> k \<Longrightarrow> n \<in> set (map fst fs) \<Longrightarrow> find_field (struct_field k get upd d # fs) n = find_field fs n"
  by (auto simp: find_field_def struct_field_def map_of_eq_None_iff split: option.splits)

lemma fst_struct_field [codec_simps, simp]: "fst (struct_field n get upd d) = n"
  by (simp add: struct_field_def)

lemma depth_ok_Suc: "depth_ok n j \<Longrightarrow> depth_ok (Suc n) j"
proof (induction n j rule: depth_ok.induct)
  case (1 n js)
  then have "j \<in> set js \<Longrightarrow> depth_ok n j" for j
    using "1.IH" [of j] by (cases n) (auto simp: list_all_iff)
  then show ?case by (simp add: list_all_iff)
next
  case (2 n kvs)
  then have "(k, v) \<in> set kvs \<Longrightarrow> depth_ok n v" for k v
    using "2.IH" [of "(k, v)" k v] by (cases n) (auto simp: list_all_iff)
  then show ?case by (auto simp: list_all_iff)
qed simp_all

lemma depth_ok_mono: "depth_ok m j \<Longrightarrow> m \<le> n \<Longrightarrow> depth_ok n j"
  by (induction n) (auto simp: le_Suc_eq intro: depth_ok_Suc)

text \<open>Every 64-bit integer is a number \<open>ParseFloat\<close> takes.\<close>

lemma number_parts_itoa: "number_parts (itoa n) = (nat_digits (nat \<bar>n\<bar>), 0)"
  using nat_digits_hd [of "nat \<bar>n\<bar>"] take_digits_all [OF nat_digits_digits]
  by (auto simp: number_parts_def itoa_def exp_val_def Let_def)

lemma float64_ok_itoa [simp]: "in_int64 n \<Longrightarrow> float64_ok (itoa n)"
proof -
  assume n: "in_int64 n"
  have "nat \<bar>n\<bar> < 10 ^ 19" using n by (auto simp: in_int64_iff)
  then have "length (nat_digits (nat \<bar>n\<bar>)) \<le> 19" by (intro length_nat_digits_le) simp_all
  then have "length (dropWhile ((=) (CHR ''0'')) (nat_digits (nat \<bar>n\<bar>))) \<le> 19"
    by (rule order_trans [OF length_dropWhile_le])
  then show ?thesis by (simp add: float64_ok_def number_parts_itoa Let_def)
qed

section \<open>The contract of a codec\<close>

locale codec =
  fixes enc :: "'a \<Rightarrow> json option" and dec :: "'a decoder" and zero :: 'a and wf :: "'a \<Rightarrow> bool"
  assumes enc_wf: "wf x \<Longrightarrow> \<exists>j. enc x = Some j \<and> wf_json j \<and> depth_ok 100 j"
    and dec_enc: "wf x \<Longrightarrow> enc x = Some j \<Longrightarrow> dec zero j = Some x"
begin

lemma enc_text:
  assumes "wf x"
  shows "\<exists>j. marshal enc x = Some (json_text j) \<and> enc x = Some j \<and> json_parse (json_text j) = Some j"
proof -
  from enc_wf [OF assms] obtain j where j: "enc x = Some j" "wf_json j" "depth_ok 100 j" by blast
  from json_roundtrip [OF j(2) depth_ok_mono [OF j(3)]] j(1) show ?thesis
    by (auto simp: marshal_def max_nesting_def)
qed

lemma unmarshal_marshal: "wf x \<Longrightarrow> Option.bind (marshal enc x) (unmarshal dec zero) = Some x"
  using enc_text [of x] dec_enc [of x] by (auto simp: unmarshal_def)

lemma marshal_ok: "wf x \<Longrightarrow> \<exists>s. marshal enc x = Some s \<and> unmarshal dec zero s = Some x"
  using enc_text [of x] dec_enc [of x] by (auto simp: unmarshal_def)

lemma marshal_inj: "wf x \<Longrightarrow> wf y \<Longrightarrow> marshal enc x = marshal enc y \<Longrightarrow> x = y"
  by (metis unmarshal_marshal option.inject)

end

text \<open>
  The same for values whose strings need not be UTF-8: they are read back with the bytes that are
  not replaced by U+FFFD (\<open>clean\<close>), and everything else as it was.
\<close>

locale lossy_codec = codec enc dec zero wf
  for enc :: "'a \<Rightarrow> json option" and dec :: "'a decoder" and zero :: 'a and wf :: "'a \<Rightarrow> bool" +
  fixes typed :: "'a \<Rightarrow> bool" and clean :: "'a \<Rightarrow> 'a"
  assumes typed_enc: "typed x \<Longrightarrow> \<exists>j. enc x = Some j \<and> numbers_ok j \<and> depth_ok 100 j"
    and dec_clean: "typed x \<Longrightarrow> enc x = Some j \<Longrightarrow> dec zero (clean_json j) = Some (clean x)"
    and wf_typed: "wf x \<Longrightarrow> typed x"
begin

lemma marshal_lossy: "typed x \<Longrightarrow> \<exists>s. marshal enc x = Some s \<and> unmarshal dec zero s = Some (clean x)"
proof -
  assume x: "typed x"
  from typed_enc [OF x] obtain j where j: "enc x = Some j" "numbers_ok j" "depth_ok 100 j" by blast
  from json_parse_text [OF j(2) depth_ok_mono [OF j(3)]] dec_clean [OF x j(1)] j(1) show ?thesis
    by (auto simp: marshal_def unmarshal_def max_nesting_def)
qed

lemma unmarshal_lossy: "typed x \<Longrightarrow> marshal enc x = Some s \<Longrightarrow> unmarshal dec zero s = Some (clean x)"
  using marshal_lossy [of x] by auto

lemma clean_wf: "wf x \<Longrightarrow> clean x = x"
  using marshal_lossy [OF wf_typed, of x] marshal_ok [of x] by auto

end

end
