(* ===== verification/Models.thy ===== *)
theory Models
  imports Codec
begin

text \<open>
  \<open>internal/models\<close>: the jobs, statuses, failures, edges, nodes and search responses of the
  crawler, their JSON encoders and decoders, and \<open>NewCrawlResult\<close>. The interpretations of
  \<open>codec\<close> show that what one service marshals the others unmarshal to the same value.
\<close>

section \<open>Jobs, statuses, failures and edges\<close>

record crawl_job =
  job_session :: string
  job_seed :: string
  job_url :: string
  job_depth :: int
  job_created :: go_time

definition zero_job :: crawl_job where
  "zero_job = \<lparr>job_session = [], job_seed = [], job_url = [], job_depth = 0, job_created = zero_time\<rparr>"

definition job_fields :: "crawl_job struct_field list" where
  "job_fields =
     [struct_field ''session_id'' job_session job_session_update dec_string,
      struct_field ''seed_url'' job_seed job_seed_update dec_string,
      struct_field ''url'' job_url job_url_update dec_string,
      struct_field ''depth'' job_depth job_depth_update dec_int,
      struct_field ''created_at'' job_created job_created_update dec_time]"

definition enc_job :: "crawl_job \<Rightarrow> json option" where
  "enc_job x =
     map_option (\<lambda>t. JObj
       (member ''session_id'' (JStr (job_session x)) @ member ''seed_url'' (JStr (job_seed x)) @
        member ''url'' (JStr (job_url x)) @ member ''depth'' (enc_int (job_depth x)) @
        member ''created_at'' (JStr t))) (marshal_time (job_created x))"

record crawl_status =
  status_session :: string
  status_seed :: string
  status_text :: string
  status_created :: go_time

definition zero_status :: crawl_status where
  "zero_status = \<lparr>status_session = [], status_seed = [], status_text = [], status_created = zero_time\<rparr>"

definition status_fields :: "crawl_status struct_field list" where
  "status_fields =
     [struct_field ''session_id'' status_session status_session_update dec_string,
      struct_field ''seed_url'' status_seed status_seed_update dec_string,
      struct_field ''status'' status_text status_text_update dec_string,
      struct_field ''created_at'' status_created status_created_update dec_time]"

definition enc_status :: "crawl_status \<Rightarrow> json option" where
  "enc_status x =
     map_option (\<lambda>t. JObj
       (member ''session_id'' (JStr (status_session x)) @ member ''seed_url'' (JStr (status_seed x)) @
        member ''status'' (JStr (status_text x)) @ member ''created_at'' (JStr t)))
       (marshal_time (status_created x))"

record crawl_failure =
  fail_session :: string
  fail_seed :: string
  fail_url :: string
  fail_depth :: int
  fail_error :: string
  fail_at :: go_time

definition zero_failure :: crawl_failure where
  "zero_failure = \<lparr>fail_session = [], fail_seed = [], fail_url = [], fail_depth = 0, fail_error = [],
     fail_at = zero_time\<rparr>"

definition failure_fields :: "crawl_failure struct_field list" where
  "failure_fields =
     [struct_field ''session_id'' fail_session fail_session_update dec_string,
      struct_field ''seed_url'' fail_seed fail_seed_update dec_string,
      struct_field ''url'' fail_url fail_url_update dec_string,
      struct_field ''depth'' fail_depth fail_depth_update dec_int,
      struct_field ''error'' fail_error fail_error_update dec_string,
      struct_field ''failed_at'' fail_at fail_at_update dec_time]"

definition enc_failure :: "crawl_failure \<Rightarrow> json option" where
  "enc_failure x =
     map_option (\<lambda>t. JObj
       (member ''session_id'' (JStr (fail_session x)) @ member ''seed_url'' (JStr (fail_seed x)) @
        member ''url'' (JStr (fail_url x)) @ member ''depth'' (enc_int (fail_depth x)) @
        member ''error'' (JStr (fail_error x)) @ member ''failed_at'' (JStr t)))
       (marshal_time (fail_at x))"

record edge =
  edge_session :: string
  edge_from :: string
  edge_to :: string
  edge_relation :: string

definition zero_edge :: edge where
  "zero_edge = \<lparr>edge_session = [], edge_from = [], edge_to = [], edge_relation = []\<rparr>"

definition edge_fields :: "edge struct_field list" where
  "edge_fields =
     [struct_field ''session_id'' edge_session edge_session_update dec_string,
      struct_field ''from'' edge_from edge_from_update dec_string,
      struct_field ''to'' edge_to edge_to_update dec_string,
      struct_field ''relation'' edge_relation edge_relation_update dec_string]"

definition enc_edge :: "edge \<Rightarrow> json option" where
  "enc_edge x = Some (JObj
     (member ''session_id'' (JStr (edge_session x)) @ member ''from'' (JStr (edge_from x)) @
      member ''to'' (JStr (edge_to x)) @ member ''relation'' (JStr (edge_relation x))))"

text \<open>What survives the trip: strings that are UTF-8, 64-bit integers, times with a four-digit year.\<close>

definition wf_job :: "crawl_job \<Rightarrow> bool" where
  "wf_job x \<longleftrightarrow> valid_utf8 (job_session x) \<and> valid_utf8 (job_seed x) \<and> valid_utf8 (job_url x) \<and>
     in_int64 (job_depth x) \<and> wf_time (job_created x)"

definition wf_status :: "crawl_status \<Rightarrow> bool" where
  "wf_status x \<longleftrightarrow> valid_utf8 (status_session x) \<and> valid_utf8 (status_seed x) \<and>
     valid_utf8 (status_text x) \<and> wf_time (status_created x)"

definition wf_failure :: "crawl_failure \<Rightarrow> bool" where
  "wf_failure x \<longleftrightarrow> valid_utf8 (fail_session x) \<and> valid_utf8 (fail_seed x) \<and> valid_utf8 (fail_url x) \<and>
     in_int64 (fail_depth x) \<and> valid_utf8 (fail_error x) \<and> wf_time (fail_at x)"

definition wf_edge :: "edge \<Rightarrow> bool" where
  "wf_edge x \<longleftrightarrow> valid_utf8 (edge_session x) \<and> valid_utf8 (edge_from x) \<and> valid_utf8 (edge_to x) \<and>
     valid_utf8 (edge_relation x)"

lemma dec_time_marshal:
  "wf_time t \<Longrightarrow> marshal_time t = Some s \<Longrightarrow> dec_time old (JStr s) = Some t"
  using time_roundtrip [of t] by (simp add: dec_time_def)

lemma wf_json_members [codec_simps, simp]:
  "wf_json (enc_int n)" "depth_ok k (enc_int n)"
  "list_all (\<lambda>(k, v). valid_utf8 k \<and> wf_json v) (member n' j) = (valid_utf8 n' \<and> wf_json j)"
  "list_all (\<lambda>(k, v). depth_ok i v) (member n' j) = depth_ok i j"
  "list_all (\<lambda>(k, v). valid_utf8 k \<and> wf_json v) (opt_member n' e j) = (e \<or> (valid_utf8 n' \<and> wf_json j))"
  "list_all (\<lambda>(k, v). depth_ok i v) (opt_member n' e j) = (e \<or> depth_ok i j)"
  by (auto simp: enc_int_def member_def opt_member_def is_number_itoa)

lemma marshal_time_utf8: "marshal_time t = Some s \<Longrightarrow> valid_utf8 s"
  by (rule valid_utf8_ascii, rule marshal_time_ascii)

lemma dec_struct_JObj [codec_simps]: "dec_struct fs r (JObj kvs) = dec_members fs r kvs"
  by (simp add: dec_struct_def)

lemmas job_codec = enc_job_def wf_job_def job_fields_def zero_job_def
lemmas status_codec = enc_status_def wf_status_def status_fields_def zero_status_def
lemmas failure_codec = enc_failure_def wf_failure_def failure_fields_def zero_failure_def
lemmas edge_codec = enc_edge_def wf_edge_def edge_fields_def zero_edge_def

interpretation job: codec enc_job "dec_struct job_fields" zero_job wf_job
proof
  show "wf_job x \<Longrightarrow> \<exists>j. enc_job x = Some j \<and> wf_json j \<and> depth_ok 100 j" for x
    using wf_time_marshals [of "job_created x"]
    by (auto simp: job_codec valid_utf8_ascii is_ascii_def marshal_time_utf8)
  show "wf_job x \<Longrightarrow> enc_job x = Some j \<Longrightarrow> dec_struct job_fields zero_job j = Some x" for x j
    by (auto simp: job_codec codec_simps dec_time_marshal)
qed

interpretation status: codec enc_status "dec_struct status_fields" zero_status wf_status
proof
  show "wf_status x \<Longrightarrow> \<exists>j. enc_status x = Some j \<and> wf_json j \<and> depth_ok 100 j" for x
    using wf_time_marshals [of "status_created x"]
    by (auto simp: status_codec valid_utf8_ascii is_ascii_def marshal_time_utf8)
  show "wf_status x \<Longrightarrow> enc_status x = Some j \<Longrightarrow> dec_struct status_fields zero_status j = Some x" for x j
    by (auto simp: status_codec codec_simps dec_time_marshal)
qed

interpretation failure: codec enc_failure "dec_struct failure_fields" zero_failure wf_failure
proof
  show "wf_failure x \<Longrightarrow> \<exists>j. enc_failure x = Some j \<and> wf_json j \<and> depth_ok 100 j" for x
    using wf_time_marshals [of "fail_at x"]
    by (auto simp: failure_codec valid_utf8_ascii is_ascii_def marshal_time_utf8)
  show "wf_failure x \<Longrightarrow> enc_failure x = Some j \<Longrightarrow> dec_struct failure_fields zero_failure j = Some x" for x j
    by (auto simp: failure_codec codec_simps dec_time_marshal)
qed

interpretation edge: codec enc_edge "dec_struct edge_fields" zero_edge wf_edge
proof
  show "wf_edge x \<Longrightarrow> \<exists>j. enc_edge x = Some j \<and> wf_json j \<and> depth_ok 100 j" for x
    by (auto simp: edge_codec valid_utf8_ascii is_ascii_def)
  show "wf_edge x \<Longrightarrow> enc_edge x = Some j \<Longrightarrow> dec_struct edge_fields zero_edge j = Some x" for x j
    by (auto simp: edge_codec codec_simps)
qed

section \<open>Values with arbitrary strings\<close>

definition typed_job :: "crawl_job \<Rightarrow> bool" where
  "typed_job x \<longleftrightarrow> in_int64 (job_depth x) \<and> wf_time (job_created x)"

definition clean_job :: "crawl_job \<Rightarrow> crawl_job" where
  "clean_job x = x\<lparr>job_session := to_valid_utf8 (job_session x), job_seed := to_valid_utf8 (job_seed x),
     job_url := to_valid_utf8 (job_url x)\<rparr>"

definition clean_edge :: "edge \<Rightarrow> edge" where
  "clean_edge x = x\<lparr>edge_session := to_valid_utf8 (edge_session x), edge_from := to_valid_utf8 (edge_from x),
     edge_to := to_valid_utf8 (edge_to x), edge_relation := to_valid_utf8 (edge_relation x)\<rparr>"

lemma to_valid_utf8_ascii [simp]: "is_ascii s \<Longrightarrow> to_valid_utf8 s = s"
  by (simp add: to_valid_utf8_id valid_utf8_ascii)

lemma numbers_ok_int [simp]: "numbers_ok (enc_int n)" "clean_json (enc_int n) = enc_int n"
  by (simp_all add: enc_int_def is_number_itoa)

lemma clean_members:
  "map (\<lambda>(k, v). (to_valid_utf8 k, clean_json v)) (member n j) = member (to_valid_utf8 n) (clean_json j)"
  "list_all (\<lambda>(k, v). numbers_ok v) (member n j) = numbers_ok j"
  by (simp_all add: member_def)

interpretation job: lossy_codec enc_job "dec_struct job_fields" zero_job wf_job typed_job clean_job
proof
  show "typed_job x \<Longrightarrow> \<exists>j. enc_job x = Some j \<and> numbers_ok j \<and> depth_ok 100 j" for x
    using wf_time_marshals [of "job_created x"] by (auto simp: enc_job_def typed_job_def clean_members)
  show "typed_job x \<Longrightarrow> enc_job x = Some j \<Longrightarrow> dec_struct job_fields zero_job (clean_json j) = Some (clean_job x)" for x j
    by (auto simp: enc_job_def job_fields_def zero_job_def typed_job_def clean_job_def clean_members is_ascii_def
        to_valid_utf8_id [OF marshal_time_utf8] codec_simps dec_time_marshal)
  show "wf_job x \<Longrightarrow> typed_job x" for x
    by (simp add: wf_job_def typed_job_def)
qed

text \<open>What a job that was written and read again has kept, whatever its strings and its time.\<close>

lemma job_reread:
  assumes "in_int64 (job_depth x)" and "marshal enc_job x = Some s"
    and "unmarshal (dec_struct job_fields) zero_job s = Some y"
  shows "job_depth y = job_depth x \<and> job_url y = to_valid_utf8 (job_url x) \<and>
    job_session y = to_valid_utf8 (job_session x) \<and> job_seed y = to_valid_utf8 (job_seed x)"
proof -
  from assms(2) obtain t where t: "marshal_time (job_created x) = Some t"
    and s: "s = json_text (JObj
       (member ''session_id'' (JStr (job_session x)) @ member ''seed_url'' (JStr (job_seed x)) @
        member ''url'' (JStr (job_url x)) @ member ''depth'' (enc_int (job_depth x)) @
        member ''created_at'' (JStr t)))" (is "s = json_text ?j")
    by (auto simp: marshal_def enc_job_def)
  have "numbers_ok ?j" "depth_ok max_nesting ?j"
    by (simp_all add: clean_members max_nesting_def)
  from json_parse_text [OF this] assms(1,3) show ?thesis
    unfolding unmarshal_def s
    by (auto simp: clean_members is_ascii_def job_fields_def zero_job_def codec_simps
        simp del: json_text.simps)
qed

interpretation edge: lossy_codec enc_edge "dec_struct edge_fields" zero_edge wf_edge "\<lambda>x. True" clean_edge
  by unfold_locales
     (auto simp: enc_edge_def edge_fields_def zero_edge_def clean_edge_def clean_members is_ascii_def codec_simps)

section \<open>Nodes\<close>

record book_node =
  book_key :: string
  book_title :: string
  book_full_title :: string
  book_authors :: "string list"
  book_works :: "string list"
  book_subjects :: "string list"
  book_publishers :: "string list"
  book_publish_date :: string
  book_languages :: "string list"
  book_identifiers :: "(string, string list) fmap"
  book_covers :: "int list"
  book_raw :: string

definition zero_book :: book_node where
  "zero_book = \<lparr>book_key = [], book_title = [], book_full_title = [], book_authors = [], book_works = [],
     book_subjects = [], book_publishers = [], book_publish_date = [], book_languages = [],
     book_identifiers = fmempty, book_covers = [], book_raw = []\<rparr>"

definition book_fields :: "book_node struct_field list" where
  "book_fields =
     [struct_field ''key'' book_key book_key_update dec_string,
      struct_field ''title'' book_title book_title_update dec_string,
      struct_field ''full_title'' book_full_title book_full_title_update dec_string,
      struct_field ''authors'' book_authors book_authors_update (dec_slice [] dec_string),
      struct_field ''works'' book_works book_works_update (dec_slice [] dec_string),
      struct_field ''subjects'' book_subjects book_subjects_update (dec_slice [] dec_string),
      struct_field ''publishers'' book_publishers book_publishers_update (dec_slice [] dec_string),
      struct_field ''publish_date'' book_publish_date book_publish_date_update dec_string,
      struct_field ''languages'' book_languages book_languages_update (dec_slice [] dec_string),
      struct_field ''identifiers'' book_identifiers book_identifiers_update
        (dec_map [] (dec_slice [] dec_string)),
      struct_field ''covers'' book_covers book_covers_update (dec_slice 0 dec_int)]"

definition enc_book :: "book_node \<Rightarrow> json" where
  "enc_book b = JObj
     (member ''key'' (JStr (book_key b)) @
      opt_member ''title'' (book_title b = []) (JStr (book_title b)) @
      opt_member ''full_title'' (book_full_title b = []) (JStr (book_full_title b)) @
      opt_member ''authors'' (book_authors b = []) (enc_strings (book_authors b)) @
      opt_member ''works'' (book_works b = []) (enc_strings (book_works b)) @
      opt_member ''subjects'' (book_subjects b = []) (enc_strings (book_subjects b)) @
      opt_member ''publishers'' (book_publishers b = []) (enc_strings (book_publishers b)) @
      opt_member ''publish_date'' (book_publish_date b = []) (JStr (book_publish_date b)) @
      opt_member ''languages'' (book_languages b = []) (enc_strings (book_languages b)) @
      opt_member ''identifiers'' (book_identifiers b = fmempty) (enc_map enc_strings (book_identifiers b)) @
      opt_member ''covers'' (book_covers b = []) (enc_ints (book_covers b)))"

record work_node =
  work_key :: string
  work_title :: string
  work_authors :: "string list"
  work_subjects :: "string list"
  work_people :: "string list"
  work_times :: "string list"
  work_description :: string
  work_covers :: "int list"
  work_raw :: string

definition zero_work :: work_node where
  "zero_work = \<lparr>work_key = [], work_title = [], work_authors = [], work_subjects = [], work_people = [],
     work_times = [], work_description = [], work_covers = [], work_raw = []\<rparr>"

definition work_fields :: "work_node struct_field list" where
  "work_fields =
     [struct_field ''key'' work_key work_key_update dec_string,
      struct_field ''title'' work_title work_title_update dec_string,
      struct_field ''authors'' work_authors work_authors_update (dec_slice [] dec_string),
      struct_field ''subjects'' work_subjects work_subjects_update (dec_slice [] dec_string),
      struct_field ''subject_people'' work_people work_people_update (dec_slice [] dec_string),
      struct_field ''subject_times'' work_times work_times_update (dec_slice [] dec_string),
      struct_field ''description'' work_description work_description_update dec_string,
      struct_field ''covers'' work_covers work_covers_update (dec_slice 0 dec_int)]"

definition enc_work :: "work_node \<Rightarrow> json" where
  "enc_work w = JObj
     (member ''key'' (JStr (work_key w)) @
      opt_member ''title'' (work_title w = []) (JStr (work_title w)) @
      opt_member ''authors'' (work_authors w = []) (enc_strings (work_authors w)) @
      opt_member ''subjects'' (work_subjects w = []) (enc_strings (work_subjects w)) @
      opt_member ''subject_people'' (work_people w = []) (enc_strings (work_people w)) @
      opt_member ''subject_times'' (work_times w = []) (enc_strings (work_times w)) @
      opt_member ''description'' (work_description w = []) (JStr (work_description w)) @
      opt_member ''covers'' (work_covers w = []) (enc_ints (work_covers w)))"

record author_link =
  link_title :: string
  link_url :: string

definition zero_link :: author_link where
  "zero_link = \<lparr>link_title = [], link_url = []\<rparr>"

definition link_fields :: "author_link struct_field list" where
  "link_fields =
     [struct_field ''title'' link_title link_title_update dec_string,
      struct_field ''url'' link_url link_url_update dec_string]"

definition enc_link :: "author_link \<Rightarrow> json" where
  "enc_link l = JObj (member ''title'' (JStr (link_title l)) @ member ''url'' (JStr (link_url l)))"

record author_node =
  author_key :: string
  author_name :: string
  author_personal :: string
  author_bio :: string
  author_alternates :: "string list"
  author_photos :: "int list"
  author_remote_ids :: "(string, string) fmap"
  author_links :: "author_link list"
  author_raw :: string

definition zero_author :: author_node where
  "zero_author = \<lparr>author_key = [], author_name = [], author_personal = [], author_bio = [],
     author_alternates = [], author_photos = [], author_remote_ids = fmempty, author_links = [],
     author_raw = []\<rparr>"

definition author_fields :: "author_node struct_field list" where
  "author_fields =
     [struct_field ''key'' author_key author_key_update dec_string,
      struct_field ''name'' author_name author_name_update dec_string,
      struct_field ''personal_name'' author_personal author_personal_update dec_string,
      struct_field ''bio'' author_bio author_bio_update dec_string,
      struct_field ''alternate_names'' author_alternates author_alternates_update (dec_slice [] dec_string),
      struct_field ''photos'' author_photos author_photos_update (dec_slice 0 dec_int),
      struct_field ''remote_ids'' author_remote_ids author_remote_ids_update (dec_map [] dec_string),
      struct_field ''links'' author_links author_links_update (dec_slice zero_link (dec_struct link_fields))]"

definition enc_author :: "author_node \<Rightarrow> json" where
  "enc_author a = JObj
     (member ''key'' (JStr (author_key a)) @
      opt_member ''name'' (author_name a = []) (JStr (author_name a)) @
      opt_member ''personal_name'' (author_personal a = []) (JStr (author_personal a)) @
      opt_member ''bio'' (author_bio a = []) (JStr (author_bio a)) @
      opt_member ''alternate_names'' (author_alternates a = []) (enc_strings (author_alternates a)) @
      opt_member ''photos'' (author_photos a = []) (enc_ints (author_photos a)) @
      opt_member ''remote_ids'' (author_remote_ids a = fmempty) (enc_map JStr (author_remote_ids a)) @
      opt_member ''links'' (author_links a = []) (JArr (map enc_link (author_links a))))"

text \<open>\<open>Node\<close>, a non-nil value of the interface, with its methods.\<close>

datatype node = Book book_node | Work work_node | Author author_node

primrec NodeType :: "node \<Rightarrow> string" where
  "NodeType (Book b) = ''edition''"
| "NodeType (Work w) = ''work''"
| "NodeType (Author a) = ''author''"

primrec ID :: "node \<Rightarrow> string" where
  "ID (Book b) = book_key b"
| "ID (Work w) = work_key w"
| "ID (Author a) = author_key a"

primrec enc_node :: "node \<Rightarrow> json" where
  "enc_node (Book b) = enc_book b"
| "enc_node (Work w) = enc_work w"
| "enc_node (Author a) = enc_author a"

section \<open>Results\<close>

record crawl_result =
  result_session :: string
  result_url :: string
  result_type :: string
  result_node :: json

definition zero_result :: crawl_result where
  "zero_result = \<lparr>result_session = [], result_url = [], result_type = [], result_node = JNull\<rparr>"

definition result_fields :: "crawl_result struct_field list" where
  "result_fields =
     [struct_field ''session_id'' result_session result_session_update dec_string,
      struct_field ''url'' result_url result_url_update dec_string,
      struct_field ''node_type'' result_type result_type_update dec_string,
      struct_field ''node'' result_node result_node_update dec_any]"

definition enc_result :: "crawl_result \<Rightarrow> json option" where
  "enc_result r = Some (JObj
     (member ''session_id'' (JStr (result_session r)) @ member ''url'' (JStr (result_url r)) @
      member ''node_type'' (JStr (result_type r)) @ member ''node'' (result_node r)))"

definition NewCrawlResult :: "crawl_job \<Rightarrow> node \<Rightarrow> string option" where
  "NewCrawlResult job n =
     marshal enc_result
       \<lparr>result_session = job_session job, result_url = job_url job, result_type = NodeType n,
        result_node = enc_node n\<rparr>"

definition wf_result :: "crawl_result \<Rightarrow> bool" where
  "wf_result r \<longleftrightarrow> valid_utf8 (result_session r) \<and> valid_utf8 (result_url r) \<and>
     valid_utf8 (result_type r) \<and> wf_json (result_node r) \<and> depth_ok 99 (result_node r) \<and>
     any_ok (result_node r)"

section \<open>Search responses\<close>

record edition_doc =
  edition_doc_key :: string

record editions =
  editions_docs :: "edition_doc list"

record search_doc =
  doc_key :: string
  doc_title :: string
  doc_author_key :: "string list"
  doc_author_name :: "string list"
  doc_cover_edition :: string
  doc_cover_i :: int
  doc_ebook_access :: string
  doc_edition_count :: int
  doc_first_year :: int
  doc_has_fulltext :: bool
  doc_ia :: "string list"
  doc_ia_collection :: "string list"
  doc_language :: "string list"
  doc_lending_edition :: string
  doc_lending_identifier :: string
  doc_public_scan :: bool
  doc_standard_ebooks :: "string list"
  doc_editions :: editions

record search_response =
  num_found :: int
  num_found_exact :: bool
  num_found_alt :: int
  search_start :: int
  search_q :: string
  search_offset :: "int option"
  search_documentation :: string
  search_docs :: "search_doc list"

definition zero_doc :: search_doc where
  "zero_doc = \<lparr>doc_key = [], doc_title = [], doc_author_key = [], doc_author_name = [],
     doc_cover_edition = [], doc_cover_i = 0, doc_ebook_access = [], doc_edition_count = 0,
     doc_first_year = 0, doc_has_fulltext = False, doc_ia = [], doc_ia_collection = [],
     doc_language = [], doc_lending_edition = [], doc_lending_identifier = [],
     doc_public_scan = False, doc_standard_ebooks = [], doc_editions = \<lparr>editions_docs = []\<rparr>\<rparr>"

definition zero_response :: search_response where
  "zero_response = \<lparr>num_found = 0, num_found_exact = False, num_found_alt = 0, search_start = 0,
     search_q = [], search_offset = None, search_documentation = [], search_docs = []\<rparr>"

abbreviation dec_strings_field :: "string list decoder" where
  "dec_strings_field \<equiv> dec_slice [] dec_string"

definition editions_fields :: "editions struct_field list" where
  "editions_fields =
     [struct_field ''docs'' editions_docs editions_docs_update
        (dec_slice \<lparr>edition_doc_key = []\<rparr>
          (dec_struct [struct_field ''key'' edition_doc_key edition_doc_key_update dec_string]))]"

definition doc_fields :: "search_doc struct_field list" where
  "doc_fields =
     [struct_field ''key'' doc_key doc_key_update dec_string,
      struct_field ''title'' doc_title doc_title_update dec_string,
      struct_field ''author_key'' doc_author_key doc_author_key_update dec_strings_field,
      struct_field ''author_name'' doc_author_name doc_author_name_update dec_strings_field,
      struct_field ''cover_edition_key'' doc_cover_edition doc_cover_edition_update dec_string,
      struct_field ''cover_i'' doc_cover_i doc_cover_i_update dec_int,
      struct_field ''ebook_access'' doc_ebook_access doc_ebook_access_update dec_string,
      struct_field ''edition_count'' doc_edition_count doc_edition_count_update dec_int,
      struct_field ''first_publish_year'' doc_first_year doc_first_year_update dec_int,
      struct_field ''has_fulltext'' doc_has_fulltext doc_has_fulltext_update dec_bool,
      struct_field ''ia'' doc_ia doc_ia_update dec_strings_field,
      struct_field ''ia_collection'' doc_ia_collection doc_ia_collection_update dec_strings_field,
      struct_field ''language'' doc_language doc_language_update dec_strings_field,
      struct_field ''lending_edition_s'' doc_lending_edition doc_lending_edition_update dec_string,
      struct_field ''lending_identifier_s'' doc_lending_identifier doc_lending_identifier_update dec_string,
      struct_field ''public_scan_b'' doc_public_scan doc_public_scan_update dec_bool,
      struct_field ''id_standard_ebooks'' doc_standard_ebooks doc_standard_ebooks_update dec_strings_field,
      struct_field ''editions'' doc_editions doc_editions_update (dec_struct editions_fields)]"

definition response_fields :: "search_response struct_field list" where
  "response_fields =
     [struct_field ''numFound'' num_found num_found_update dec_int,
      struct_field ''numFoundExact'' num_found_exact num_found_exact_update dec_bool,
      struct_field ''num_found'' num_found_alt num_found_alt_update dec_int,
      struct_field ''start'' search_start search_start_update dec_int,
      struct_field ''q'' search_q search_q_update dec_string,
      struct_field ''offset'' search_offset search_offset_update (dec_pointer 0 dec_int),
      struct_field ''documentation_url'' search_documentation search_documentation_update dec_string,
      struct_field ''docs'' search_docs search_docs_update (dec_slice zero_doc (dec_struct doc_fields))]"

section \<open>Round trips of nodes and results\<close>

definition wf_strings :: "string list \<Rightarrow> bool" where
  "wf_strings xs \<longleftrightarrow> list_all valid_utf8 xs"

definition wf_book :: "book_node \<Rightarrow> bool" where
  "wf_book b \<longleftrightarrow> valid_utf8 (book_key b) \<and> valid_utf8 (book_title b) \<and> valid_utf8 (book_full_title b) \<and>
     wf_strings (book_authors b) \<and> wf_strings (book_works b) \<and> wf_strings (book_subjects b) \<and>
     wf_strings (book_publishers b) \<and> valid_utf8 (book_publish_date b) \<and> wf_strings (book_languages b) \<and>
     fmpred (\<lambda>k v. valid_utf8 k \<and> wf_strings v) (book_identifiers b) \<and> list_all in_int64 (book_covers b)"

definition wf_work :: "work_node \<Rightarrow> bool" where
  "wf_work w \<longleftrightarrow> valid_utf8 (work_key w) \<and> valid_utf8 (work_title w) \<and> wf_strings (work_authors w) \<and>
     wf_strings (work_subjects w) \<and> wf_strings (work_people w) \<and> wf_strings (work_times w) \<and>
     valid_utf8 (work_description w) \<and> list_all in_int64 (work_covers w)"

definition wf_author :: "author_node \<Rightarrow> bool" where
  "wf_author a \<longleftrightarrow> valid_utf8 (author_key a) \<and> valid_utf8 (author_name a) \<and> valid_utf8 (author_personal a) \<and>
     valid_utf8 (author_bio a) \<and> wf_strings (author_alternates a) \<and> list_all in_int64 (author_photos a) \<and>
     fmpred (\<lambda>k v. valid_utf8 k \<and> valid_utf8 v) (author_remote_ids a) \<and>
     list_all (\<lambda>l. valid_utf8 (link_title l) \<and> valid_utf8 (link_url l)) (author_links a)"

lemma wf_json_lists [simp]:
  "wf_json (enc_strings xs) = wf_strings xs" "depth_ok n (enc_strings xs) = (0 < n)"
  "wf_json (enc_ints ns)" "depth_ok n (enc_ints ns) = (0 < n)"
  by (auto simp: enc_strings_def enc_ints_def wf_strings_def list_all_iff)

lemma wf_json_enc_map:
  "fmpred (\<lambda>k v. valid_utf8 k \<and> wf_json (f v)) m \<Longrightarrow> wf_json (enc_map f m)"
  by (auto simp: enc_map_def list_all_iff fmlookup_dom_iff fmpred_iff)

lemma depth_ok_enc_map:
  "0 < n \<Longrightarrow> (\<And>v. depth_ok (n - 1) (f v)) \<Longrightarrow> depth_ok n (enc_map f m)"
  by (auto simp: enc_map_def list_all_iff)

lemma dec_link [simp]: "dec_struct link_fields zero_link (enc_link l) = Some l"
  by (simp add: link_fields_def zero_link_def enc_link_def codec_simps)

lemma dec_links [simp]:
  "dec_slice zero_link (dec_struct link_fields) [] (JArr (map enc_link ls)) = Some ls"
  by (rule dec_slice_map) simp

lemma dec_string_map [simp]: "dec_map [] dec_string fmempty (enc_map JStr m) = Some m"
  by (rule dec_enc_map) simp

lemma dec_strings_map [simp]:
  "dec_map [] (dec_slice [] dec_string) fmempty (enc_map enc_strings m) = Some m"
  by (rule dec_enc_map) simp

lemma dec_enc_book:
  "list_all in_int64 (book_covers b) \<Longrightarrow>
   dec_struct book_fields zero_book (enc_book b) = Some (b\<lparr>book_raw := []\<rparr>)"
  by (simp add: enc_book_def book_fields_def zero_book_def codec_simps)

lemma dec_enc_work:
  "list_all in_int64 (work_covers w) \<Longrightarrow>
   dec_struct work_fields zero_work (enc_work w) = Some (w\<lparr>work_raw := []\<rparr>)"
  by (simp add: enc_work_def work_fields_def zero_work_def codec_simps)

lemma dec_enc_author:
  "list_all in_int64 (author_photos a) \<Longrightarrow>
   dec_struct author_fields zero_author (enc_author a) = Some (a\<lparr>author_raw := []\<rparr>)"
  by (simp add: enc_author_def author_fields_def zero_author_def codec_simps)

lemma enc_link_wf:
  "wf_json (enc_link l) = (valid_utf8 (link_title l) \<and> valid_utf8 (link_url l))"
  "0 < n \<Longrightarrow> depth_ok n (enc_link l)"
  by (simp_all add: enc_link_def valid_utf8_ascii is_ascii_def)

lemma enc_book_wf: "wf_book b \<Longrightarrow> wf_json (enc_book b)" "depth_ok 9 (enc_book b)"
  by (simp_all add: enc_book_def wf_book_def valid_utf8_ascii is_ascii_def wf_json_enc_map
      depth_ok_enc_map)

lemma enc_work_wf: "wf_work w \<Longrightarrow> wf_json (enc_work w)" "depth_ok 9 (enc_work w)"
  by (simp_all add: enc_work_def wf_work_def valid_utf8_ascii is_ascii_def)

lemma enc_author_wf: "wf_author a \<Longrightarrow> wf_json (enc_author a)" "depth_ok 9 (enc_author a)"
  by (simp_all add: enc_author_def wf_author_def valid_utf8_ascii is_ascii_def wf_json_enc_map
      depth_ok_enc_map enc_link_wf list.pred_map o_def list.pred_True)

text \<open>Decoding drops \<open>RawJSON\<close>, which is not written.\<close>

interpretation book: codec "\<lambda>b. Some (enc_book b)" "dec_struct book_fields" zero_book
    "\<lambda>b. wf_book b \<and> book_raw b = []"
  by unfold_locales (auto simp: enc_book_wf depth_ok_mono [OF enc_book_wf(2)] dec_enc_book wf_book_def)

interpretation work: codec "\<lambda>w. Some (enc_work w)" "dec_struct work_fields" zero_work
    "\<lambda>w. wf_work w \<and> work_raw w = []"
  by unfold_locales (auto simp: enc_work_wf depth_ok_mono [OF enc_work_wf(2)] dec_enc_work wf_work_def)

interpretation author: codec "\<lambda>a. Some (enc_author a)" "dec_struct author_fields" zero_author
    "\<lambda>a. wf_author a \<and> author_raw a = []"
  by unfold_locales
     (auto simp: enc_author_wf depth_ok_mono [OF enc_author_wf(2)] dec_enc_author wf_author_def)

interpretation result: codec enc_result "dec_struct result_fields" zero_result wf_result
  by unfold_locales
     (auto simp: enc_result_def wf_result_def result_fields_def zero_result_def codec_simps dec_any_def
       valid_utf8_ascii is_ascii_def)

lemma any_ok_members [simp]:
  "list_all (\<lambda>(k, v). any_ok v) (member n j) = any_ok j"
  "list_all (\<lambda>(k, v). any_ok v) (opt_member n e j) = (e \<or> any_ok j)"
  "any_ok (enc_strings xs)" "list_all in_int64 ns \<Longrightarrow> any_ok (enc_ints ns)"
  "any_ok (enc_map JStr sm)" "any_ok (enc_map enc_strings lm)" "any_ok (enc_link l)"
  by (auto simp: member_def opt_member_def enc_strings_def enc_ints_def enc_int_def enc_map_def
      enc_link_def list_all_iff)

primrec wf_node :: "node \<Rightarrow> bool" where
  "wf_node (Book b) = wf_book b"
| "wf_node (Work w) = wf_work w"
| "wf_node (Author a) = wf_author a"

lemma any_ok_node: "wf_node n \<Longrightarrow> any_ok (enc_node n)"
  by (cases n)
     (simp_all add: enc_book_def wf_book_def enc_work_def wf_work_def enc_author_def wf_author_def
       list.pred_map o_def list.pred_True)

lemma NodeType_utf8: "valid_utf8 (NodeType n)"
  by (cases n) (simp_all add: valid_utf8_ascii is_ascii_def)

lemma wf_result_node:
  "wf_node n \<Longrightarrow> valid_utf8 (job_session job) \<Longrightarrow> valid_utf8 (job_url job) \<Longrightarrow>
   wf_result \<lparr>result_session = job_session job, result_url = job_url job, result_type = NodeType n,
     result_node = enc_node n\<rparr>"
  using enc_book_wf enc_work_wf enc_author_wf any_ok_node [of n] NodeType_utf8 [of n]
  by (cases n) (auto simp: wf_result_def intro: depth_ok_mono [where m = 9])

lemma NewCrawlResult_reads:
  assumes "wf_node n" and "valid_utf8 (job_session job)" and "valid_utf8 (job_url job)"
  shows "\<exists>s. NewCrawlResult job n = Some s \<and>
    unmarshal (dec_struct result_fields) zero_result s =
      Some \<lparr>result_session = job_session job, result_url = job_url job, result_type = NodeType n,
        result_node = enc_node n\<rparr>"
  using result.marshal_ok [OF wf_result_node [OF assms]] by (simp add: NewCrawlResult_def)

end
