(* ===== verification/Go_Url.thy ===== *)
theory Go_Url
  imports Go_Json
begin

text \<open>
  \<open>net/url\<close> as the program uses it: query escaping, query strings, and \<open>url.Parse\<close> with every
  check it makes, of which the program reads the path. \<open>None\<close> is a returned error.
\<close>

section \<open>Query escaping\<close>

definition is_alnum :: "char \<Rightarrow> bool" where
  "is_alnum c \<longleftrightarrow> byte_in 97 122 c \<or> byte_in 65 90 c \<or> is_digit c"

definition is_unreserved :: "char \<Rightarrow> bool" where
  "is_unreserved c \<longleftrightarrow> is_alnum c \<or> c \<in> set ''-_.~''"

definition upper_hex :: "nat \<Rightarrow> char" where
  "upper_hex n = (if n < 10 then chr (48 + n) else chr (55 + n))"

definition escape_char :: "char \<Rightarrow> string" where
  "escape_char c =
     (if is_unreserved c then [c]
      else if c = CHR '' '' then ''+''
      else [CHR ''%'', upper_hex (byte c div 16), upper_hex (byte c mod 16)])"

definition query_escape :: "string \<Rightarrow> string" where
  "query_escape s = concat (map escape_char s)"

text \<open>\<open>unescape\<close> of a path (\<open>qc\<close> false) or of a query component, where a plus is a space.\<close>

fun unescape :: "bool \<Rightarrow> string \<Rightarrow> string option" where
  "unescape qc [] = Some []"
| "unescape qc (c # s) =
     (if c = CHR ''%'' then
        (case s of
           a # b # r \<Rightarrow>
             (case (hex_val a, hex_val b) of
                (Some x, Some y) \<Rightarrow> map_option ((#) (chr (16 * x + y))) (unescape qc r)
              | _ \<Rightarrow> None)
         | _ \<Rightarrow> None)
      else map_option ((#) (if qc \<and> c = CHR ''+'' then CHR '' '' else c)) (unescape qc s))"

text \<open>\<open>strings.Cut\<close> at the first occurrence of a character, the second part empty without one.\<close>

definition cut :: "char \<Rightarrow> string \<Rightarrow> string \<times> string" where
  "cut c s = (takeWhile ((\<noteq>) c) s, drop 1 (dropWhile ((\<noteq>) c) s))"

definition parse_pair :: "string \<Rightarrow> (string \<times> string) list" where
  "parse_pair kv =
     (if kv = [] \<or> CHR '';'' \<in> set kv then []
      else (case cut (CHR ''='') kv of
          (k, v) \<Rightarrow> (case (unescape True k, unescape True v) of
              (Some k', Some v') \<Rightarrow> [(k', v')]
            | _ \<Rightarrow> [])))"

text \<open>\<open>URL.Query\<close> drops what does not parse; \<open>Values.Get\<close> is the first value, or the empty string.\<close>

definition parse_query :: "string \<Rightarrow> (string \<times> string) list" where
  "parse_query q = concat (map parse_pair (split_char (CHR ''&'') q))"

definition query_get :: "string \<Rightarrow> string \<Rightarrow> string" where
  "query_get q k = (case map_of (parse_query q) k of None \<Rightarrow> [] | Some v \<Rightarrow> v)"

text \<open>\<open>Values.Encode\<close> of a single pair.\<close>

definition encode_pair :: "string \<Rightarrow> string \<Rightarrow> string" where
  "encode_pair k v = query_escape k @ ''='' @ query_escape v"

lemma nibbles: "byte c div 16 < (16::nat)" "byte c mod 16 < (16::nat)"
  by (simp_all add: less_mult_imp_div_less)

lemma hex_val_upper: "n < 16 \<Longrightarrow> hex_val (upper_hex n) = Some n"
proof -
  assume "n < 16"
  then have "n \<in> set [0..<16]" by simp
  then show ?thesis
    by (simp add: upt_rec) (elim disjE; simp add: hex_val_def upper_hex_def byte_in_def)
qed

lemma unescape_escape_char:
  "unescape True (escape_char c @ s) = map_option ((#) c) (unescape True s)"
proof -
  have "chr (16 * (byte c div 16) + byte c mod 16) = c"
    by (metis mult_div_mod_eq char_of_char)
  moreover note nibbles [of c]
  moreover have "is_unreserved c \<Longrightarrow> c \<noteq> CHR ''%'' \<and> c \<noteq> CHR ''+''"
    by (auto simp: is_unreserved_def is_alnum_def byte_in_def is_digit_def)
  ultimately show ?thesis by (auto simp: escape_char_def hex_val_upper)
qed

lemma unescape_escape: "unescape True (query_escape s) = Some s"
  by (induction s) (simp_all add: query_escape_def unescape_escape_char)

lemma query_escape_safe:
  "set (query_escape s) \<subseteq> {c. is_unreserved c} \<union> {CHR ''%'', CHR ''+''}"
proof -
  have "set (escape_char c) \<subseteq> {c. is_unreserved c} \<union> {CHR ''%'', CHR ''+''}" for c
  proof -
    have "is_unreserved (upper_hex n)" if "n < 16" for n
    proof -
      from that have "n \<in> set [0..<16]" by simp
      then show ?thesis
        by (simp add: upt_rec)
           (elim disjE; simp add: upper_hex_def is_unreserved_def is_alnum_def byte_in_def is_digit_def)
    qed
    moreover note nibbles [of c]
    ultimately show ?thesis by (auto simp: escape_char_def)
  qed
  then show ?thesis by (fastforce simp: query_escape_def)
qed

lemma query_escape_no_sep:
  assumes "c \<in> set ''&;=/?#: ''"
  shows "c \<notin> set (query_escape s)"
  using assms query_escape_safe [of s]
  by (auto simp: is_unreserved_def is_alnum_def byte_in_def is_digit_def)

lemma split_char_none: "c \<notin> set s \<Longrightarrow> split_char c s = [s]"
  by (induction s) auto

lemma cut_append: "c \<notin> set k \<Longrightarrow> cut c (k @ c # v) = (k, v)"
  by (induction k) (auto simp: cut_def)

text \<open>What one side encodes under a key, the other side gets under it.\<close>

lemma query_get_encode: "query_get (encode_pair k v) k = v"
proof -
  let ?q = "query_escape k @ CHR ''='' # query_escape v"
  have sep: "CHR ''&'' \<notin> set ?q" "CHR '';'' \<notin> set ?q" "CHR ''='' \<notin> set (query_escape k)"
    using query_escape_no_sep by auto
  have "parse_query ?q = [(k, v)]"
    using sep by (simp add: parse_query_def split_char_none parse_pair_def cut_append unescape_escape)
  then show ?thesis by (simp add: query_get_def encode_pair_def)
qed

section \<open>Parsing a URL\<close>

record url =
  u_scheme :: string
  u_opaque :: string
  u_authority :: string
  u_path :: string
  u_query :: string

definition is_letter :: "char \<Rightarrow> bool" where
  "is_letter c \<longleftrightarrow> byte_in 97 122 c \<or> byte_in 65 90 c"

definition has_ctl :: "string \<Rightarrow> bool" where
  "has_ctl s \<longleftrightarrow> list_ex (\<lambda>c. byte c < (32::nat) \<or> byte c = (127::nat)) s"

text \<open>\<open>getScheme\<close>: the scheme and the rest; an error for a leading colon.\<close>

definition get_scheme :: "string \<Rightarrow> (string \<times> string) option" where
  "get_scheme s =
     (let is_sc = (\<lambda>c. is_alnum c \<or> c \<in> set ''+-.'');
          pre = takeWhile is_sc s;
          rest = dropWhile is_sc s
      in if pre = [] then (if has_prefix s '':'' then None else Some ([], s))
         else if \<not> is_letter (hd pre) then Some ([], s)
         else if has_prefix rest '':'' then Some (pre, tl rest)
         else Some ([], s))"

definition valid_optional_port :: "string \<Rightarrow> bool" where
  "valid_optional_port p \<longleftrightarrow> p = [] \<or> (hd p = CHR '':'' \<and> list_all is_digit (tl p))"

text \<open>The characters \<open>shouldEscape\<close> lets stand in a host.\<close>

definition host_plain :: "char \<Rightarrow> bool" where
  "host_plain c \<longleftrightarrow> is_unreserved c \<or> c \<in> set ''!$&()*+,;=:[]<>'' \<or> c = CHR 0x22 \<or> c = CHR 0x27"

text \<open>Whether \<open>unescape\<close> accepts a host, or a zone of an IPv6 address (\<open>zone\<close>).\<close>

fun host_ok :: "bool \<Rightarrow> string \<Rightarrow> bool" where
  "host_ok zone [] = True"
| "host_ok zone (c # s) =
     (if c = CHR ''%'' then
        (case s of
           a # b # r \<Rightarrow>
             (case (hex_val a, hex_val b) of
                (Some x, Some y) \<Rightarrow>
                  (if zone then (a = CHR ''2'' \<and> b = CHR ''5'') \<or> 16 * x + y = 32 \<or>
                     host_plain (chr (16 * x + y))
                   else 8 \<le> x \<or> (a = CHR ''2'' \<and> b = CHR ''5'')) \<and> host_ok zone r
              | _ \<Rightarrow> False)
         | _ \<Rightarrow> False)
      else (host_plain c \<or> 128 \<le> byte c) \<and> host_ok zone s)"

text \<open>The part before the first \<open>%25\<close> and the rest from there.\<close>

fun split_zone :: "string \<Rightarrow> (string \<times> string) option" where
  "split_zone [] = None"
| "split_zone (c # s) =
     (if has_prefix (c # s) ''%25'' then Some ([], c # s)
      else map_option (\<lambda>(h, z). (c # h, z)) (split_zone s))"

definition last_part :: "char \<Rightarrow> string \<Rightarrow> string" where
  "last_part c s = rev (takeWhile ((\<noteq>) c) (rev s))"

definition parse_host_ok :: "string \<Rightarrow> bool" where
  "parse_host_ok h =
     (if has_prefix h ''['' then
        CHR '']'' \<in> set h \<and>
        (let port = last_part (CHR '']'') h;
             inner = take (length h - length port - 1) h
         in valid_optional_port port \<and>
            (case split_zone inner of
               None \<Rightarrow> host_ok False h
             | Some (h1, z) \<Rightarrow> host_ok False h1 \<and> host_ok True z))
      else (CHR '':'' \<notin> set h \<or> valid_optional_port (CHR '':'' # last_part (CHR '':'') h)) \<and>
        host_ok False h)"

definition userinfo_ok :: "string \<Rightarrow> bool" where
  "userinfo_ok u \<longleftrightarrow>
     list_all (\<lambda>c. is_alnum c \<or> c \<in> set ''-._:~!$&()*+,;=%@'' \<or> c = CHR 0x27) u \<and>
     (let (n, p) = cut (CHR '':'') u in unescape False n \<noteq> None \<and> unescape False p \<noteq> None)"

definition authority_ok :: "string \<Rightarrow> bool" where
  "authority_ok a \<longleftrightarrow>
     (if CHR ''@'' \<in> set a
      then parse_host_ok (last_part (CHR ''@'') a) \<and>
        userinfo_ok (take (length a - length (last_part (CHR ''@'') a) - 1) a)
      else parse_host_ok a)"

definition set_path :: "string \<Rightarrow> string \<Rightarrow> string \<Rightarrow> string \<Rightarrow> url option" where
  "set_path sch auth p q =
     map_option (\<lambda>path. \<lparr>u_scheme = sch, u_opaque = [], u_authority = auth, u_path = path, u_query = q\<rparr>)
       (unescape False p)"

definition parse_no_fragment :: "string \<Rightarrow> url option" where
  "parse_no_fragment s =
     (if has_ctl s then None
      else if s = ''*'' then set_path [] [] ''*'' []
      else (case get_scheme s of
          None \<Rightarrow> None
        | Some (scheme, after) \<Rightarrow>
            (let sch = map ascii_lower scheme;
                 (rest, q) = cut (CHR ''?'') after
             in if \<not> has_prefix rest ''/'' then
                  (if sch \<noteq> [] then Some \<lparr>u_scheme = sch, u_opaque = rest, u_authority = [], u_path = [], u_query = q\<rparr>
                   else if CHR '':'' \<in> set (fst (cut (CHR ''/'') rest)) then None
                   else set_path sch [] rest q)
                else if (sch \<noteq> [] \<or> \<not> has_prefix rest ''///'') \<and> has_prefix rest ''//'' then
                  (let auth = takeWhile ((\<noteq>) (CHR ''/'')) (drop 2 rest);
                       path = dropWhile ((\<noteq>) (CHR ''/'')) (drop 2 rest)
                   in if authority_ok auth then set_path sch auth path q else None)
                else set_path sch [] rest q)))"

definition url_parse :: "string \<Rightarrow> url option" where
  "url_parse raw =
     (let (s, frag) = cut (CHR ''#'') raw
      in if unescape False frag = None then None else parse_no_fragment s)"

lemma unescape_plain: "CHR ''%'' \<notin> set p \<Longrightarrow> unescape False p = Some p"
  by (induction p) auto

text \<open>A path that needs no escaping is read back as it was written after the site's name.\<close>

lemma url_parse_site:
  assumes "set p \<subseteq> {c. is_unreserved c} \<union> {CHR ''/'', CHR '':'', CHR '',''}"
  shows "url_parse (''https://openlibrary.org/'' @ p) =
    Some \<lparr>u_scheme = ''https'', u_opaque = [], u_authority = ''openlibrary.org'', u_path = CHR ''/'' # p,
      u_query = []\<rparr>"
proof -
  have safe: "CHR ''#'' \<notin> set p" "CHR ''?'' \<notin> set p" "CHR ''%'' \<notin> set p" "\<not> has_ctl p"
    using assms
    by (auto simp: has_ctl_def list_ex_iff is_unreserved_def is_alnum_def byte_in_def is_digit_def)
  have none: "cut c s = (s, [])" if "c \<notin> set s" for c s
    using that by (induction s) (auto simp: cut_def)
  have scheme: "get_scheme (''https://openlibrary.org/'' @ p) = Some (''https'', ''//openlibrary.org/'' @ p)"
    by (simp add: get_scheme_def is_alnum_def byte_in_def is_letter_def is_digit_def)
  have auth: "authority_ok ''openlibrary.org''"
    by (simp add: authority_ok_def parse_host_ok_def host_plain_def is_unreserved_def is_alnum_def
        byte_in_def)
  have "parse_no_fragment (''https://openlibrary.org/'' @ p) =
      set_path ''https'' ''openlibrary.org'' (CHR ''/'' # p) []"
    using safe auth
    by (subst parse_no_fragment_def, subst scheme)
       (simp add: has_ctl_def none ascii_lower_def Let_def)
  then show ?thesis
    using safe by (simp add: url_parse_def none set_path_def unescape_plain)
qed

end
