(* ===== verification/OL_Client.thy ===== *)
theory OL_Client
  imports Go_Url
begin

text \<open>
  \<open>internal/ol/client.go\<close>: the URLs the crawler asks for and the fetch of one URL. What the HTTP
  client returns for a request is an argument; the texts of the errors \<open>net/http\<close> makes are too.
\<close>

definition EnsureJSONURL :: "string \<Rightarrow> string" where
  "EnsureJSONURL url =
     (if has_suffix url ''.json'' then url else trim_right_char (CHR ''/'') url @ ''.json'')"

definition SearchURL :: "string \<Rightarrow> string" where
  "SearchURL q = ''https://openlibrary.org/search.json?q='' @ query_escape q"

definition SearchAuthorURL :: "string \<Rightarrow> string" where
  "SearchAuthorURL author = ''https://openlibrary.org/search.json?author='' @ query_escape author"

definition SearchSubjectURL :: "string \<Rightarrow> string" where
  "SearchSubjectURL subject = ''https://openlibrary.org/search.json?subject='' @ query_escape subject"

definition DefaultUserAgent :: string where
  "DefaultUserAgent = ''RelentlessBookworm/1.0 (+https://github.com/relentless-bookworm)''"

text \<open>A request, and what \<open>client.Do\<close> and reading the body give.\<close>

record http_request =
  req_url :: string
  req_agent :: string

datatype http_reply =
    No_Response go_error
  | Response (reply_status: int) (reply_body: "go_error + string")

text \<open>\<open>http.NewRequestWithContext\<close> fails on a URL that does not parse; \<open>bad_url\<close> is the text of that
  error.\<close>

definition new_request :: "(string \<Rightarrow> go_error) \<Rightarrow> string \<Rightarrow> go_error + http_request" where
  "new_request bad_url url =
     (if url_parse url = None then Inl (bad_url url)
      else Inr \<lparr>req_url = url, req_agent = DefaultUserAgent\<rparr>)"

definition FetchJSONWithClient ::
  "(string \<Rightarrow> go_error) \<Rightarrow> (http_request \<Rightarrow> http_reply) \<Rightarrow> string \<Rightarrow> go_error + string" where
  "FetchJSONWithClient bad_url do_request url =
     (case new_request bad_url url of
        Inl e \<Rightarrow> Inl e
      | Inr req \<Rightarrow>
          (case do_request req of
             No_Response e \<Rightarrow> Inl e
           | Response status body \<Rightarrow>
               if status < 200 \<or> status \<ge> 300
               then Inl (''unexpected status '' @ itoa status @ '' for '' @ url)
               else body))"

section \<open>Lemmas\<close>

lemma EnsureJSONURL_json: "has_suffix (EnsureJSONURL url) ''.json''"
  by (simp add: EnsureJSONURL_def)

lemma EnsureJSONURL_idem: "EnsureJSONURL (EnsureJSONURL url) = EnsureJSONURL url"
  using EnsureJSONURL_json [of url] by (simp add: EnsureJSONURL_def)

text \<open>Trailing slashes make no difference.\<close>

lemma EnsureJSONURL_slashes:
  assumes "\<not> has_suffix url ''.json''" and "url \<noteq> []" and "last url \<noteq> CHR ''/''"
  shows "EnsureJSONURL (url @ replicate n (CHR ''/'')) = url @ ''.json''"
proof -
  have t: "trim_right_char (CHR ''/'') (url @ replicate n (CHR ''/'')) = url"
    using assms(2,3) by (cases url rule: rev_cases) (auto simp: trim_right_char_def dropWhile_append)
  show ?thesis
  proof (cases n)
    case 0
    with assms t show ?thesis by (simp add: EnsureJSONURL_def)
  next
    case (Suc k)
    have "\<not> has_suffix (url @ replicate n (CHR ''/'')) ''.json''"
      by (auto simp: has_suffix_iff Suc replicate_append_same [symmetric] simp del: replicate.simps
          dest!: arg_cong [where f = last])
    with t show ?thesis by (simp add: EnsureJSONURL_def)
  qed
qed

end
