(* ===== verification/OL_Robots.thy ===== *)
theory OL_Robots
  imports OL_Client
begin

text \<open>
  \<open>internal/ol/robots.go\<close>: parsing robots.txt, matching paths and fetching the file. The rules are
  the list of disallowed prefixes, \<open>None\<close> the nil pointer. \<open>bufio.Scanner\<close> stops at the first line
  that does not fit its 64 KiB buffer.
\<close>

section \<open>Paths\<close>

definition normalizePath :: "string \<Rightarrow> string" where
  "normalizePath p =
     (let q = trim_space p
      in if q = [] then ''/'' else if hd q \<noteq> CHR ''/'' then CHR ''/'' # q else q)"

definition PathFromURL :: "string \<Rightarrow> string" where
  "PathFromURL rawURL =
     (case url_parse rawURL of None \<Rightarrow> [] | Some u \<Rightarrow> normalizePath (u_path u))"

type_synonym robots_rules = "string list"

definition Allowed :: "robots_rules option \<Rightarrow> string \<Rightarrow> bool" where
  "Allowed r path =
     (case r of
        None \<Rightarrow> True
      | Some disallow \<Rightarrow>
          disallow = [] \<or> \<not> list_ex (\<lambda>prefix. has_prefix (normalizePath path) prefix) disallow)"

section \<open>Parsing\<close>

definition scan_lines :: "string \<Rightarrow> string list" where
  "scan_lines body = takeWhile (\<lambda>l. length l < 65536) (split_char (CHR 0x0A) body)"

text \<open>The loop body: whether the current block applies, and the prefixes so far.\<close>

definition robots_line :: "string \<Rightarrow> string \<Rightarrow> bool \<times> robots_rules \<Rightarrow> bool \<times> robots_rules" where
  "robots_line userAgent text st =
     (let (inMatchingBlock, disallow) = st; line = trim_space text
      in if line = [] \<or> has_prefix line ''#'' then st
         else if has_prefix (to_lower line) ''user-agent:'' then
           (let agent = trim_space (drop (length ''user-agent:'') line);
                match = (agent = ''*'' \<or> equal_fold agent userAgent)
            in (match \<and> \<not> inMatchingBlock, disallow))
         else if inMatchingBlock \<and> has_prefix (to_lower line) ''disallow:'' then
           (let path = trim_space (drop (length ''disallow:'') line)
            in if path \<noteq> [] then (inMatchingBlock, disallow @ [normalizePath path]) else st)
         else st)"

definition ParseRobots :: "string \<Rightarrow> string \<Rightarrow> robots_rules" where
  "ParseRobots body userAgent = snd (fold (robots_line userAgent) (scan_lines body) (False, []))"

text \<open>\<open>FetchRobots\<close>: \<open>url_string\<close> is \<open>URL.String\<close> of the base URL with path \<open>/robots.txt\<close> and no query.\<close>

definition FetchRobots ::
  "(string \<Rightarrow> go_error) \<Rightarrow> (url \<Rightarrow> string) \<Rightarrow> (http_request \<Rightarrow> http_reply) \<Rightarrow> string \<Rightarrow> go_error + string" where
  "FetchRobots bad_url url_string do_request baseURL =
     (case url_parse baseURL of
        None \<Rightarrow> Inl (bad_url baseURL)
      | Some u \<Rightarrow>
          (case new_request bad_url (url_string (u\<lparr>u_path := ''/robots.txt'', u_query := []\<rparr>)) of
             Inl e \<Rightarrow> Inl e
           | Inr req \<Rightarrow>
               (case do_request req of
                  No_Response e \<Rightarrow> Inl e
                | Response status body \<Rightarrow>
                    if status \<noteq> 200 then Inl ''robots.txt fetch failed'' else body)))"

section \<open>Lemmas\<close>

lemma normalizePath_slash: "has_prefix (normalizePath p) ''/''"
  by (cases "trim_space p") (auto simp: normalizePath_def Let_def)

lemma normalizePath_nonempty [simp]: "normalizePath p \<noteq> []"
  by (simp add: normalizePath_def Let_def)

lemma has_prefix_snoc: "x \<notin> set p \<Longrightarrow> has_prefix (a @ [x]) p = has_prefix a p"
proof
  assume x: "x \<notin> set p" and "has_prefix (a @ [x]) p"
  then obtain r where "a @ [x] = p @ r" by (auto simp: has_prefix_iff)
  with x show "has_prefix a p" by (cases r rule: rev_cases) (auto simp: has_prefix_iff)
qed (rule has_prefix_extend)

lemma trim_space_slash: "trim_space q = q \<Longrightarrow> q \<noteq> [] \<Longrightarrow> trim_space (CHR ''/'' # q) = CHR ''/'' # q"
proof -
  assume q: "trim_space q = q" "q \<noteq> []"
  have a: "\<not> starts_with_any space_seqs (CHR ''/'' # q)"
    by (simp add: starts_with_any_def space_seqs_def)
  have b: "\<not> starts_with_any (map rev space_seqs) (rev q @ ''/'')"
  proof
    assume "starts_with_any (map rev space_seqs) (rev q @ ''/'')"
    then obtain s where s: "s \<in> set space_seqs" "s \<noteq> []" "has_prefix (rev q @ ''/'') (rev s)"
      by (auto simp: starts_with_any_def)
    have "CHR ''/'' \<notin> set (rev s)" using s(1) by (auto simp: space_seqs_def)
    from has_prefix_snoc [OF this] s(3) have "has_prefix (rev q) (rev s)" by simp
    with s(1,2) have "starts_with_any (map rev space_seqs) (rev q)"
      by (force simp: starts_with_any_def)
    with trim_space_ends(2) [of q] q(1) show False by simp
  qed
  from a b show ?thesis by (simp add: trim_space_def trim_seqs_id)
qed

lemma normalizePath_idem: "normalizePath (normalizePath p) = normalizePath p"
proof -
  have "trim_space (normalizePath p) = normalizePath p"
    using trim_space_slash [OF trim_space_idem, of p] trim_space_idem [of p]
      trim_space_plain [of "''/''"]
    by (simp add: normalizePath_def Let_def)
  then show ?thesis
    using normalizePath_slash [of p]
    by (auto simp: normalizePath_def [of "normalizePath p"] Let_def has_prefix_iff)
qed

lemma Allowed_None [simp]: "Allowed None p"
  by (simp add: Allowed_def)

lemma Allowed_Some:
  "Allowed (Some ps) p \<longleftrightarrow> list_all (\<lambda>prefix. \<not> has_prefix (normalizePath p) prefix) ps"
  by (auto simp: Allowed_def list_ex_iff list_all_iff)

section \<open>Which lines count\<close>

text \<open>What a line says to a given agent.\<close>

datatype directive = Agent_Line bool | Disallow_Line string | Other_Line

definition directive :: "string \<Rightarrow> string \<Rightarrow> directive" where
  "directive userAgent text =
     (let line = trim_space text
      in if line = [] \<or> has_prefix line ''#'' then Other_Line
         else if has_prefix (to_lower line) ''user-agent:'' then
           (let agent = trim_space (drop (length ''user-agent:'') line)
            in Agent_Line (agent = ''*'' \<or> equal_fold agent userAgent))
         else if has_prefix (to_lower line) ''disallow:'' then
           (let path = trim_space (drop (length ''disallow:'') line)
            in if path = [] then Other_Line else Disallow_Line (normalizePath path))
         else Other_Line)"

fun agent_matches :: "directive list \<Rightarrow> bool list" where
  "agent_matches [] = []"
| "agent_matches (Agent_Line m # ds) = m # agent_matches ds"
| "agent_matches (d # ds) = agent_matches ds"

definition in_block :: "directive list \<Rightarrow> bool" where
  "in_block ds \<longleftrightarrow> odd (length (takeWhile id (rev (agent_matches ds))))"

definition enforced :: "directive list \<Rightarrow> string list" where
  "enforced ds = concat (map (\<lambda>i. case ds ! i of
       Disallow_Line p \<Rightarrow> if in_block (take i ds) then [p] else [] | _ \<Rightarrow> []) [0..<length ds])"

lemma agent_matches_snoc:
  "agent_matches (ds @ [d]) = agent_matches ds @ (case d of Agent_Line m \<Rightarrow> [m] | _ \<Rightarrow> [])"
  by (induction ds rule: agent_matches.induct) (auto split: directive.splits)

lemma in_block_snoc:
  "in_block (ds @ [d]) = (case d of Agent_Line m \<Rightarrow> m \<and> \<not> in_block ds | _ \<Rightarrow> in_block ds)"
  by (auto simp: in_block_def agent_matches_snoc split: directive.splits)

lemma enforced_snoc:
  "enforced (ds @ [d]) =
     enforced ds @ (case d of Disallow_Line p \<Rightarrow> if in_block ds then [p] else [] | _ \<Rightarrow> [])"
proof -
  have "(case (ds @ [d]) ! i of
       Disallow_Line p \<Rightarrow> if in_block (take i (ds @ [d])) then [p] else [] | _ \<Rightarrow> []) =
     (case ds ! i of Disallow_Line p \<Rightarrow> if in_block (take i ds) then [p] else [] | _ \<Rightarrow> [])"
    if "i < length ds" for i
    using that by (auto simp: nth_append split: directive.splits)
  then have eq: "map (\<lambda>i. case (ds @ [d]) ! i of
       Disallow_Line p \<Rightarrow> if in_block (take i (ds @ [d])) then [p] else [] | _ \<Rightarrow> []) [0..<length ds] =
     map (\<lambda>i. case ds ! i of
       Disallow_Line p \<Rightarrow> if in_block (take i ds) then [p] else [] | _ \<Rightarrow> []) [0..<length ds]"
    by (intro map_cong) auto
  have upt: "[0..<length (ds @ [d])] = [0..<length ds] @ [length ds]" by simp
  show ?thesis
    unfolding enforced_def upt map_append concat_append eq by (cases d) simp_all
qed

lemma robots_line_directive:
  "robots_line ua l (b, ps) =
     (case directive ua l of
        Agent_Line m \<Rightarrow> (m \<and> \<not> b, ps)
      | Disallow_Line p \<Rightarrow> (b, if b then ps @ [p] else ps)
      | Other_Line \<Rightarrow> (b, ps))"
  by (auto simp: robots_line_def directive_def Let_def)

lemma fold_robots_line:
  "fold (robots_line ua) ls (False, []) =
     (in_block (map (directive ua) ls), enforced (map (directive ua) ls))"
proof (induction ls rule: rev_induct)
  case Nil
  then show ?case by (simp add: in_block_def enforced_def)
next
  case (snoc l ls)
  then show ?case
    by (simp add: robots_line_directive in_block_snoc enforced_snoc split: directive.splits)
qed

text \<open>
  Claim C30. The rules \<open>ParseRobots\<close> returns are the paths of the Disallow lines at which an odd
  number of matching User-agent lines stands last among the User-agent lines above. One matching
  line opens a block, the next one closes it again, and every later block that matches is
  collected too, not only the first.
\<close>

theorem robots_rules_enforced:
  "ParseRobots body ua = enforced (map (directive ua) (scan_lines body))"
  by (simp add: ParseRobots_def fold_robots_line)

lemma directive_slash: "directive ua l = Disallow_Line p \<Longrightarrow> has_prefix p ''/''"
  using normalizePath_slash
  by (auto simp: directive_def Let_def simp del: has_prefix_Cons split: if_splits)


lemma robots_agent_line:
  assumes "trim_space (''User-agent: '' @ agent) = ''User-agent: '' @ agent"
  shows "robots_line ua (''User-agent: '' @ agent) (b, ps) =
    ((trim_space agent = ''*'' \<or> equal_fold (trim_space agent) ua) \<and> \<not> b, ps)"
proof -
  have "has_prefix (to_lower (''User-agent: '' @ agent)) ''user-agent:''"
    by (cases agent; simp add: ascii_lower_def)
  then show ?thesis
    using assms by (simp add: robots_line_def Let_def has_prefix_def [of _ "''#''"] del: has_prefix_Cons to_lower.simps)
qed

text \<open>
  A group that names the crawler in two adjacent User-agent lines is not enforced: the
  second line closes the block the first one opened, so a path its rule forbids is allowed.
\<close>

lemma robots_two_agents_off:
  "Allowed (Some (ParseRobots
     (''User-agent: *'' @ CHR 0x0A # ''User-agent: '' @ DefaultUserAgent @ CHR 0x0A # ''Disallow: /search'')
     DefaultUserAgent)) ''/search.json''"
proof -
  have lines: "scan_lines
      (''User-agent: *'' @ CHR 0x0A # ''User-agent: '' @ DefaultUserAgent @ CHR 0x0A # ''Disallow: /search'') =
    [''User-agent: *'', ''User-agent: '' @ DefaultUserAgent, ''Disallow: /search'']"
    by (simp add: scan_lines_def DefaultUserAgent_def)
  have trims: "trim_space (''User-agent: '' @ ''*'') = ''User-agent: '' @ ''*''"
    "trim_space (''User-agent: '' @ DefaultUserAgent) = ''User-agent: '' @ DefaultUserAgent"
    "trim_space ''*'' = ''*''" "trim_space DefaultUserAgent = DefaultUserAgent"
    by (rule trim_space_plain; simp add: DefaultUserAgent_def)+
  have "trim_space ''Disallow: /search'' = ''Disallow: /search''"
    by (rule trim_space_plain) simp_all
  then have "robots_line DefaultUserAgent ''Disallow: /search'' (False, []) = (False, [])"
    by (simp add: robots_line_def ascii_lower_def)
  then have "ParseRobots (''User-agent: *'' @ CHR 0x0A # ''User-agent: '' @ DefaultUserAgent @
      CHR 0x0A # ''Disallow: /search'') DefaultUserAgent = []"
    using robots_agent_line [OF trims(1), of DefaultUserAgent False "[]"]
      robots_agent_line [OF trims(2), of DefaultUserAgent True "[]"]
    by (simp only: ParseRobots_def lines) (simp add: trims(3,4) equal_fold_def)
  then show ?thesis by (simp add: Allowed_def)
qed

end
