(* ===== verification/OL_Parser.thy ===== *)
theory OL_Parser
  imports Models
begin

text \<open>
  \<open>internal/ol/parser.go\<close>: from the JSON of an Open Library record to a node, and of a search to its
  response. The text of a JSON error is \<open>json_err\<close> of the body. The local payload structs differ
  from the node structs in how they refer to other records, so their field lists do too.
\<close>

section \<open>References and texts\<close>

text \<open>\<open>keyRef\<close> and \<open>authorRef\<close>, each a struct with one field, as that field.\<close>

definition key_ref :: "string decoder" where
  "key_ref = dec_struct [struct_field ''key'' (\<lambda>s. s) (\<lambda>f. f) dec_string]"

definition author_ref :: "string decoder" where
  "author_ref = dec_struct [struct_field ''author'' (\<lambda>s. s) (\<lambda>f. f) key_ref]"

definition textValue :: "json \<Rightarrow> string" where
  "textValue v =
     (case v of
        JStr s \<Rightarrow> s
      | JObj kvs \<Rightarrow> (case any_lookup kvs ''value'' of Some (JStr raw) \<Rightarrow> raw | _ \<Rightarrow> [])
      | _ \<Rightarrow> [])"

section \<open>Editions\<close>

definition edition_fields :: "book_node struct_field list" where
  "edition_fields =
     [struct_field ''key'' book_key book_key_update dec_string,
      struct_field ''title'' book_title book_title_update dec_string,
      struct_field ''full_title'' book_full_title book_full_title_update dec_string,
      struct_field ''authors'' book_authors book_authors_update (dec_slice [] key_ref),
      struct_field ''works'' book_works book_works_update (dec_slice [] key_ref),
      struct_field ''subjects'' book_subjects book_subjects_update (dec_slice [] dec_string),
      struct_field ''publishers'' book_publishers book_publishers_update (dec_slice [] dec_string),
      struct_field ''publish_date'' book_publish_date book_publish_date_update dec_string,
      struct_field ''languages'' book_languages book_languages_update (dec_slice [] key_ref),
      struct_field ''identifiers'' book_identifiers book_identifiers_update
        (dec_map [] (dec_slice [] dec_string)),
      struct_field ''covers'' book_covers book_covers_update (dec_slice 0 dec_int)]"

definition ParseBookNode :: "(string \<Rightarrow> go_error) \<Rightarrow> string \<Rightarrow> go_error + book_node" where
  "ParseBookNode json_err body =
     (case unmarshal (dec_struct edition_fields) zero_book body of
        None \<Rightarrow> Inl (json_err body)
      | Some payload \<Rightarrow>
          (let node = payload\<lparr>book_authors := filter ((\<noteq>) []) (book_authors payload),
                 book_works := filter ((\<noteq>) []) (book_works payload),
                 book_languages := filter ((\<noteq>) []) (book_languages payload),
                 book_raw := body\<rparr>
           in Inr (if book_key node = [] then zero_book else node)))"

section \<open>Works\<close>

record work_payload =
  pw_key :: string
  pw_title :: string
  pw_authors :: "string list"
  pw_subjects :: "string list"
  pw_people :: "string list"
  pw_times :: "string list"
  pw_description :: json
  pw_covers :: "int list"

definition zero_work_payload :: work_payload where
  "zero_work_payload = \<lparr>pw_key = [], pw_title = [], pw_authors = [], pw_subjects = [], pw_people = [],
     pw_times = [], pw_description = JNull, pw_covers = []\<rparr>"

definition work_payload_fields :: "work_payload struct_field list" where
  "work_payload_fields =
     [struct_field ''key'' pw_key pw_key_update dec_string,
      struct_field ''title'' pw_title pw_title_update dec_string,
      struct_field ''authors'' pw_authors pw_authors_update (dec_slice [] author_ref),
      struct_field ''subjects'' pw_subjects pw_subjects_update (dec_slice [] dec_string),
      struct_field ''subject_people'' pw_people pw_people_update (dec_slice [] dec_string),
      struct_field ''subject_times'' pw_times pw_times_update (dec_slice [] dec_string),
      struct_field ''description'' pw_description pw_description_update dec_any,
      struct_field ''covers'' pw_covers pw_covers_update (dec_slice 0 dec_int)]"

definition ParseWorkNode :: "(string \<Rightarrow> go_error) \<Rightarrow> string \<Rightarrow> go_error + work_node" where
  "ParseWorkNode json_err body =
     (case unmarshal (dec_struct work_payload_fields) zero_work_payload body of
        None \<Rightarrow> Inl (json_err body)
      | Some p \<Rightarrow>
          (let node = \<lparr>work_key = pw_key p, work_title = pw_title p,
                 work_authors = filter ((\<noteq>) []) (pw_authors p), work_subjects = pw_subjects p,
                 work_people = pw_people p, work_times = pw_times p,
                 work_description = textValue (pw_description p), work_covers = pw_covers p,
                 work_raw = body\<rparr>
           in Inr (if work_key node = [] then zero_work else node)))"

section \<open>Authors\<close>

record author_payload =
  pa_key :: string
  pa_name :: string
  pa_personal :: string
  pa_bio :: json
  pa_alternates :: "string list"
  pa_photos :: "int list"
  pa_remote_ids :: "(string, string) fmap"
  pa_links :: "author_link list"

definition zero_author_payload :: author_payload where
  "zero_author_payload = \<lparr>pa_key = [], pa_name = [], pa_personal = [], pa_bio = JNull, pa_alternates = [],
     pa_photos = [], pa_remote_ids = fmempty, pa_links = []\<rparr>"

definition author_payload_fields :: "author_payload struct_field list" where
  "author_payload_fields =
     [struct_field ''key'' pa_key pa_key_update dec_string,
      struct_field ''name'' pa_name pa_name_update dec_string,
      struct_field ''personal_name'' pa_personal pa_personal_update dec_string,
      struct_field ''bio'' pa_bio pa_bio_update dec_any,
      struct_field ''alternate_names'' pa_alternates pa_alternates_update (dec_slice [] dec_string),
      struct_field ''photos'' pa_photos pa_photos_update (dec_slice 0 dec_int),
      struct_field ''remote_ids'' pa_remote_ids pa_remote_ids_update (dec_map [] dec_string),
      struct_field ''links'' pa_links pa_links_update (dec_slice zero_link (dec_struct link_fields))]"

definition ParseAuthorNode :: "(string \<Rightarrow> go_error) \<Rightarrow> string \<Rightarrow> go_error + author_node" where
  "ParseAuthorNode json_err body =
     (case unmarshal (dec_struct author_payload_fields) zero_author_payload body of
        None \<Rightarrow> Inl (json_err body)
      | Some p \<Rightarrow>
          (let node = \<lparr>author_key = pa_key p, author_name = pa_name p, author_personal = pa_personal p,
                 author_bio = textValue (pa_bio p), author_alternates = pa_alternates p,
                 author_photos = pa_photos p, author_remote_ids = pa_remote_ids p,
                 author_links = pa_links p, author_raw = body\<rparr>
           in Inr (if author_key node = [] then zero_author else node)))"

section \<open>Nodes and search responses\<close>

definition envelope :: "string decoder" where
  "envelope = dec_struct [struct_field ''type'' (\<lambda>s. s) (\<lambda>f. f) key_ref]"

definition ParseNode :: "(string \<Rightarrow> go_error) \<Rightarrow> string \<Rightarrow> go_error + node option" where
  "ParseNode json_err body =
     (case unmarshal envelope [] body of
        None \<Rightarrow> Inl (json_err body)
      | Some ty \<Rightarrow>
          if ty = ''/type/edition'' then map_sum id (Some \<circ> Book) (ParseBookNode json_err body)
          else if ty = ''/type/work'' then map_sum id (Some \<circ> Work) (ParseWorkNode json_err body)
          else if ty = ''/type/author'' then map_sum id (Some \<circ> Author) (ParseAuthorNode json_err body)
          else Inr None)"

definition ParseSearchResponse :: "(string \<Rightarrow> go_error) \<Rightarrow> string \<Rightarrow> go_error + search_response" where
  "ParseSearchResponse json_err body =
     (case unmarshal (dec_struct response_fields) zero_response body of
        None \<Rightarrow> Inl (json_err body)
      | Some resp \<Rightarrow> Inr resp)"

section \<open>Open Library records\<close>

text \<open>
  The records the parser is for, as documents: references to other records are objects with a
  key, those to a work's authors are wrapped once more, and long texts are objects with a value.
\<close>

definition ref_json :: "string \<Rightarrow> json" where
  "ref_json k = JObj (member ''key'' (JStr k))"

definition author_ref_json :: "string \<Rightarrow> json" where
  "author_ref_json k = JObj (member ''author'' (ref_json k))"

definition text_json :: "string \<Rightarrow> json" where
  "text_json s = JObj (member ''type'' (JStr ''/type/text'') @ member ''value'' (JStr s))"

primrec record_json :: "node \<Rightarrow> json" where
  "record_json (Book b) = JObj
     (member ''type'' (ref_json ''/type/edition'') @ member ''key'' (JStr (book_key b)) @
      member ''title'' (JStr (book_title b)) @ member ''full_title'' (JStr (book_full_title b)) @
      member ''authors'' (JArr (map ref_json (book_authors b))) @
      member ''works'' (JArr (map ref_json (book_works b))) @
      member ''subjects'' (enc_strings (book_subjects b)) @
      member ''publishers'' (enc_strings (book_publishers b)) @
      member ''publish_date'' (JStr (book_publish_date b)) @
      member ''languages'' (JArr (map ref_json (book_languages b))) @
      member ''identifiers'' (enc_map enc_strings (book_identifiers b)) @
      member ''covers'' (enc_ints (book_covers b)))"
| "record_json (Work w) = JObj
     (member ''type'' (ref_json ''/type/work'') @ member ''key'' (JStr (work_key w)) @
      member ''title'' (JStr (work_title w)) @
      member ''authors'' (JArr (map author_ref_json (work_authors w))) @
      member ''subjects'' (enc_strings (work_subjects w)) @
      member ''subject_people'' (enc_strings (work_people w)) @
      member ''subject_times'' (enc_strings (work_times w)) @
      member ''description'' (text_json (work_description w)) @
      member ''covers'' (enc_ints (work_covers w)))"
| "record_json (Author a) = JObj
     (member ''type'' (ref_json ''/type/author'') @ member ''key'' (JStr (author_key a)) @
      member ''name'' (JStr (author_name a)) @ member ''personal_name'' (JStr (author_personal a)) @
      member ''bio'' (text_json (author_bio a)) @
      member ''alternate_names'' (enc_strings (author_alternates a)) @
      member ''photos'' (enc_ints (author_photos a)) @
      member ''remote_ids'' (enc_map JStr (author_remote_ids a)) @
      member ''links'' (JArr (map enc_link (author_links a))))"

text \<open>The keys a node refers to, and the node with the document it was read from.\<close>

primrec references :: "node \<Rightarrow> string list" where
  "references (Book b) = book_authors b @ book_works b @ book_languages b"
| "references (Work w) = work_authors w"
| "references (Author a) = []"

primrec with_raw :: "string \<Rightarrow> node \<Rightarrow> node" where
  "with_raw s (Book b) = Book (b\<lparr>book_raw := s\<rparr>)"
| "with_raw s (Work w) = Work (w\<lparr>work_raw := s\<rparr>)"
| "with_raw s (Author a) = Author (a\<lparr>author_raw := s\<rparr>)"

primrec zero_node :: "node \<Rightarrow> node" where
  "zero_node (Book b) = Book zero_book"
| "zero_node (Work w) = Work zero_work"
| "zero_node (Author a) = Author zero_author"

lemma key_ref_json [simp]: "key_ref [] (ref_json k) = Some k"
  by (simp add: key_ref_def ref_json_def codec_simps)

lemma author_ref_json [simp]: "author_ref [] (author_ref_json k) = Some k"
  by (simp add: author_ref_def author_ref_json_def codec_simps)

lemma dec_refs [simp]:
  "dec_slice [] key_ref [] (JArr (map ref_json ks)) = Some ks"
  "dec_slice [] author_ref [] (JArr (map author_ref_json ks)) = Some ks"
  by (simp_all add: dec_slice_map)

lemma textValue_text [simp]: "textValue (text_json s) = s"
  by (simp add: textValue_def text_json_def member_def any_lookup_def)

lemma dec_any_text [simp]: "dec_any j (text_json s) = Some (text_json s)"
  by (simp add: dec_any_def text_json_def member_def)

lemma ref_json_wf [simp]:
  "wf_json (ref_json k) = valid_utf8 k" "wf_json (author_ref_json k) = valid_utf8 k"
  "wf_json (text_json k) = valid_utf8 k"
  "0 < n \<Longrightarrow> depth_ok n (ref_json k)" "1 < n \<Longrightarrow> depth_ok n (author_ref_json k)"
  "0 < n \<Longrightarrow> depth_ok n (text_json k)"
  by (auto simp: ref_json_def author_ref_json_def text_json_def valid_utf8_ascii is_ascii_def)

lemma wf_refs [simp]:
  "list_all wf_json (map ref_json ks) = wf_strings ks"
  "list_all wf_json (map author_ref_json ks) = wf_strings ks"
  "0 < n \<Longrightarrow> list_all (depth_ok n) (map ref_json ks)"
  "1 < n \<Longrightarrow> list_all (depth_ok n) (map author_ref_json ks)"
  by (auto simp: wf_strings_def list_all_iff)

lemma record_wf_book: "wf_book b \<Longrightarrow> wf_json (record_json (Book b))" "depth_ok 9 (record_json (Book b))"
  by (simp_all add: wf_book_def valid_utf8_ascii is_ascii_def wf_json_enc_map depth_ok_enc_map)

lemma record_wf_work: "wf_work w \<Longrightarrow> wf_json (record_json (Work w))" "depth_ok 9 (record_json (Work w))"
  by (simp_all add: wf_work_def valid_utf8_ascii is_ascii_def)

lemma record_wf_author:
  "wf_author a \<Longrightarrow> wf_json (record_json (Author a))" "depth_ok 9 (record_json (Author a))"
  by (simp_all add: wf_author_def valid_utf8_ascii is_ascii_def wf_json_enc_map depth_ok_enc_map
      enc_link_wf list.pred_map o_def list.pred_True)

lemma depth_ok_max: "depth_ok 9 j \<Longrightarrow> depth_ok max_nesting j"
  by (erule depth_ok_mono) (simp add: max_nesting_def)

lemma json_parse_record: "wf_node n \<Longrightarrow> json_parse (json_text (record_json n)) = Some (record_json n)"
proof (rule json_roundtrip)
  show "wf_node n \<Longrightarrow> wf_json (record_json n)"
    using record_wf_book(1) record_wf_work(1) record_wf_author(1) by (metis node.exhaust wf_node.simps)
  show "depth_ok max_nesting (record_json n)"
    using record_wf_book(2) record_wf_work(2) record_wf_author(2) depth_ok_max by (metis node.exhaust)
qed

lemma unmarshal_record: "wf_node n \<Longrightarrow> unmarshal d z (json_text (record_json n)) = d z (record_json n)"
  by (simp only: unmarshal_def json_parse_record bind.bind_lunit)

text \<open>The envelope sees only the type, the payload structs everything else.\<close>

lemma envelope_skips:
  "fold_name n \<noteq> ''type'' \<Longrightarrow>
   find_field [struct_field ''type'' (\<lambda>s. s) (\<lambda>f. f) key_ref] n = None"
  by (auto simp: find_field_def struct_field_def ascii_lower_def)

lemma payload_skips_type:
  "find_field edition_fields ''type'' = None"
  "find_field work_payload_fields ''type'' = None"
  "find_field author_payload_fields ''type'' = None"
  by (simp_all add: find_field_def edition_fields_def work_payload_fields_def author_payload_fields_def
      struct_field_def ascii_lower_def)

lemma edition_record:
  "list_all in_int64 (book_covers b) \<Longrightarrow>
   dec_struct edition_fields zero_book (record_json (Book b)) = Some (b\<lparr>book_raw := []\<rparr>)"
  by (simp only: record_json.simps dec_struct_JObj dec_members_unknown [OF payload_skips_type(1)])
     (simp add: edition_fields_def zero_book_def codec_simps cong: bind_first_cong)

lemma work_record:
  "list_all in_int64 (work_covers w) \<Longrightarrow>
   dec_struct work_payload_fields zero_work_payload (record_json (Work w)) =
     Some \<lparr>pw_key = work_key w, pw_title = work_title w, pw_authors = work_authors w,
       pw_subjects = work_subjects w, pw_people = work_people w, pw_times = work_times w,
       pw_description = text_json (work_description w), pw_covers = work_covers w\<rparr>"
  by (simp only: record_json.simps dec_struct_JObj dec_members_unknown [OF payload_skips_type(2)])
     (simp add: work_payload_fields_def zero_work_payload_def codec_simps cong: bind_first_cong)

lemma author_record:
  "list_all in_int64 (author_photos a) \<Longrightarrow>
   dec_struct author_payload_fields zero_author_payload (record_json (Author a)) =
     Some \<lparr>pa_key = author_key a, pa_name = author_name a, pa_personal = author_personal a,
       pa_bio = text_json (author_bio a), pa_alternates = author_alternates a,
       pa_photos = author_photos a, pa_remote_ids = author_remote_ids a,
       pa_links = author_links a\<rparr>"
  by (simp only: record_json.simps dec_struct_JObj dec_members_unknown [OF payload_skips_type(3)])
     (simp add: author_payload_fields_def zero_author_payload_def codec_simps cong: bind_first_cong)

lemma envelope_members:
  assumes "list_all (unknown_member [struct_field ''type'' (\<lambda>s. s) (\<lambda>f. f) key_ref]) kvs"
  shows "envelope [] (JObj (member ''type'' (ref_json k) @ kvs)) = Some k"
proof -
  have "dec_members [struct_field ''type'' (\<lambda>s. s) (\<lambda>f. f) key_ref] [] (member ''type'' (ref_json k)) = Some k"
    by (simp add: codec_simps)
  then show ?thesis
    using assms by (simp add: envelope_def dec_struct_JObj dec_members_append dec_members_all_unknown)
qed

lemma envelope_record: "envelope [] (record_json n) = Some (''/type/'' @ NodeType n)"
  by (cases n; simp only: record_json.simps; subst envelope_members)
     (simp_all add: unknown_member_iff envelope_skips ascii_lower_def)

section \<open>What the parser promises\<close>

lemma ParseNode_record:
  assumes "wf_node n" and "ID n \<noteq> []" and "[] \<notin> set (references n)"
  shows "ParseNode json_err (json_text (record_json n)) =
    Inr (Some (with_raw (json_text (record_json n)) n))"
proof -
  have refs: "filter ((\<noteq>) []) ks = ks" if "[] \<notin> set ks" for ks :: "string list"
    using that by (auto simp: filter_id_conv)
  note parsed = ParseNode_def unmarshal_record [OF assms(1)] envelope_record option.case
  show ?thesis
  proof (cases n)
    case (Book b)
    with assms have "dec_struct edition_fields zero_book (record_json n) = Some (b\<lparr>book_raw := []\<rparr>)"
      by (simp add: edition_record wf_book_def del: record_json.simps)
    with assms show ?thesis
      unfolding parsed ParseBookNode_def
      by (simp add: Book refs Let_def del: record_json.simps json_text.simps)
  next
    case (Work w)
    with assms work_record [of w] show ?thesis
      unfolding parsed ParseWorkNode_def
      by (simp add: wf_work_def refs Let_def del: record_json.simps json_text.simps)
  next
    case (Author a)
    with assms author_record [of a] show ?thesis
      unfolding parsed ParseAuthorNode_def
      by (simp add: wf_author_def Let_def del: record_json.simps json_text.simps)
  qed
qed

text \<open>
  Claim C27. Parsing an Open Library record gives the node it describes: for an edition, work or
  author with a key whose references are not empty, \<open>ParseNode\<close> of the record's JSON returns
  exactly that node, with the document itself in \<open>RawJSON\<close>.
\<close>

theorem parse_record:
  assumes "wf_node n" and "ID n \<noteq> []" and "[] \<notin> set (references n)"
  shows "ParseNode json_err (json_text (record_json n)) =
    Inr (Some (with_raw (json_text (record_json n)) n))"
  using assms by (rule ParseNode_record)

definition sample_author :: node where
  "sample_author = Author (zero_author\<lparr>author_key := ''/authors/OL1A'', author_name := ''Ada''\<rparr>)"

lemma sample_author_ok: "wf_node sample_author" "ID sample_author \<noteq> []" "[] \<notin> set (references sample_author)"
  by (simp_all add: sample_author_def zero_author_def wf_author_def wf_strings_def valid_utf8_ascii is_ascii_def)

theorem parse_record_witness:
  "ParseNode (\<lambda>b. b) (json_text (record_json sample_author)) =
    Inr (Some (with_raw (json_text (record_json sample_author)) sample_author))"
  by (rule parse_record [OF sample_author_ok])

text \<open>
  Claim C28. Whatever the body, a parsed node is either empty (a record without a key) or refers
  only to non-empty keys and carries the body, and its type is the one the body names.
\<close>

theorem parsed_node_sound:
  assumes "ParseNode json_err body = Inr (Some n)"
  shows "(n = zero_node n \<or> (ID n \<noteq> [] \<and> with_raw body n = n)) \<and>
    [] \<notin> set (references n) \<and> unmarshal envelope [] body = Some (''/type/'' @ NodeType n)"
  using assms
  by (auto simp: ParseNode_def ParseBookNode_def ParseWorkNode_def ParseAuthorNode_def Let_def
      zero_book_def zero_work_def zero_author_def
      split: option.splits if_splits sum.splits)

theorem parsed_node_sound_witness:
  "\<exists>n. ParseNode (\<lambda>b. b) (json_text (record_json sample_author)) = Inr (Some n) \<and>
     [] \<notin> set (references n)"
  using parsed_node_sound [OF ParseNode_record [OF sample_author_ok]]
    ParseNode_record [OF sample_author_ok] by blast

lemma parsed_node_keys:
  "ParseNode json_err body = Inr (Some n) \<Longrightarrow> [] \<notin> set (references n)"
  by (auto simp: ParseNode_def ParseBookNode_def ParseWorkNode_def ParseAuthorNode_def Let_def
      zero_book_def zero_work_def zero_author_def
      split: option.splits if_splits sum.splits)

end
