(* ===== verification/Go_Float.thy ===== *)
theory Go_Float
  imports Codec
begin

text \<open>
  Non-negative \<open>float64\<close> values as the program computes with them: a value is a pair \<open>(m, e)\<close> that
  stands for \<open>m * 2^e\<close>. Every operation rounds its exact result to 53 bits, ties to even. Also
  \<open>%.nf\<close> formatting, and the shortest decimal \<open>encoding/json\<close> writes for a \<open>float64\<close>.
\<close>

type_synonym float64 = "nat \<times> int"

section \<open>Rounding\<close>

fun bit_length :: "nat \<Rightarrow> nat" where
  "bit_length n = (if n = 0 then 0 else Suc (bit_length (n div 2)))"

declare bit_length.simps [simp del]

text \<open>\<open>num (m, e) / den (m, e)\<close> is the value of the pair as a quotient of natural numbers.\<close>

definition num :: "float64 \<Rightarrow> nat" where
  "num x = (if 0 \<le> snd x then fst x * 2 ^ nat (snd x) else fst x)"

definition den :: "float64 \<Rightarrow> nat" where
  "den x = (if 0 \<le> snd x then 1 else 2 ^ nat (- snd x))"

definition round_half_even :: "nat \<Rightarrow> nat \<Rightarrow> nat" where
  "round_half_even a b =
     (let q = a div b; r = a mod b
      in if 2 * r < b \<or> (2 * r = b \<and> even q) then q else Suc q)"

text \<open>The largest \<open>k\<close> with \<open>2^k \<le> a / b\<close>, for positive \<open>a\<close> and \<open>b\<close>.\<close>

definition log2_quotient :: "nat \<Rightarrow> nat \<Rightarrow> int" where
  "log2_quotient a b =
     (let k = int (bit_length a) - int (bit_length b)
      in if (if 0 \<le> k then b * 2 ^ nat k \<le> a else b \<le> a * 2 ^ nat (- k)) then k else k - 1)"

text \<open>The nearest \<open>float64\<close> to \<open>a / b\<close>; the values of this program stay far below the largest one.\<close>

definition to_float :: "nat \<Rightarrow> nat \<Rightarrow> float64" where
  "to_float a b =
     (if a = 0 then (0, 0)
      else let e = max (- 1074) (log2_quotient a b - 52)
           in (if 0 \<le> e then round_half_even a (b * 2 ^ nat e)
               else round_half_even (a * 2 ^ nat (- e)) b, e))"

definition float_le :: "float64 \<Rightarrow> float64 \<Rightarrow> bool" where
  "float_le x y \<longleftrightarrow> num x * den y \<le> num y * den x"

definition float_eq :: "float64 \<Rightarrow> float64 \<Rightarrow> bool" where
  "float_eq x y \<longleftrightarrow> num x * den y = num y * den x"

definition float_add :: "float64 \<Rightarrow> float64 \<Rightarrow> float64" where
  "float_add x y = to_float (num x * den y + num y * den x) (den x * den y)"

definition float_div :: "float64 \<Rightarrow> float64 \<Rightarrow> float64" where
  "float_div x y = to_float (num x * den y) (den x * num y)"

definition float_mul :: "float64 \<Rightarrow> float64 \<Rightarrow> float64" where
  "float_mul x y = to_float (num x * num y) (den x * den y)"

text \<open>\<open>uint64(x)\<close> drops the fraction.\<close>

definition float_trunc :: "float64 \<Rightarrow> nat" where
  "float_trunc x = num x div den x"

section \<open>Formatting\<close>

text \<open>\<open>fmt.Sprintf("%.nf", x)\<close>: the exact decimal expansion, rounded to \<open>n\<close> places.\<close>

definition format_fixed :: "nat \<Rightarrow> float64 \<Rightarrow> string" where
  "format_fixed n x =
     (let v = round_half_even (num x * 10 ^ n) (den x)
      in nat_digits (v div 10 ^ n) @ (if n = 0 then [] else CHR ''.'' # zero_pad n (v mod 10 ^ n)))"

text \<open>
  The shortest decimal that reads back as the same \<open>float64\<close>: digits and the exponent of the
  first one. Of two candidates of the same length the one closer to the value is taken.
\<close>

definition log10_quotient :: "nat \<Rightarrow> nat \<Rightarrow> int" where
  "log10_quotient a b =
     (if b \<le> a then int (length (nat_digits (a div b))) - 1
      else (let k = int (length (nat_digits (b div a)))
            in if b \<le> a * 10 ^ nat (k - 1) then 1 - k else - k))"

definition decimal_float :: "nat \<Rightarrow> int \<Rightarrow> float64" where
  "decimal_float d p = (if 0 \<le> p then to_float (d * 10 ^ nat p) 1 else to_float d (10 ^ nat (- p)))"

definition candidates :: "float64 \<Rightarrow> int \<Rightarrow> nat \<Rightarrow> (nat \<times> int) list" where
  "candidates x lead n =
     (let p = lead - int n + 1;
          a = (if 0 \<le> p then num x else num x * 10 ^ nat (- p));
          b = (if 0 \<le> p then den x * 10 ^ nat p else den x);
          lo = a div b; r = a mod b;
          ds = (if 2 * r < b \<or> (2 * r = b \<and> even lo) then [lo, Suc lo] else [Suc lo, lo])
      in map (\<lambda>d. (d, p)) (filter (\<lambda>d. float_eq (decimal_float d p) x) ds))"

definition shortest_decimal :: "float64 \<Rightarrow> nat \<times> int" where
  "shortest_decimal x =
     (let lead = log10_quotient (num x) (den x)
      in case concat (map (candidates x lead) [1..<18]) of
           [] \<Rightarrow> (0, 0)
         | dp # _ \<Rightarrow> dp)"

definition strip_zeros :: "string \<Rightarrow> string" where
  "strip_zeros s = rev (dropWhile (\<lambda>c. c = CHR ''0'') (rev s))"

text \<open>
  The \<open>float64\<close> encoder of \<open>encoding/json\<close> for a positive value: plain notation between 1e-6 and
  1e21, else an exponent of at least one digit. \<open>ds\<close> are the significant digits and \<open>k\<close> the
  exponent of the first one.
\<close>

definition write_digits :: "string \<Rightarrow> int \<Rightarrow> string" where
  "write_digits ds k =
     (if k < - 6 \<or> 21 \<le> k then
        take 1 ds @ (if length ds = 1 then [] else CHR ''.'' # drop 1 ds) @
        ''e'' @ (if k < 0 then ''-'' else ''+'') @ nat_digits (nat \<bar>k\<bar>)
      else if k < 0 then ''0.'' @ replicate (nat (- k - 1)) (CHR ''0'') @ ds
      else if int (length ds) \<le> k + 1 then ds @ replicate (nat (k + 1) - length ds) (CHR ''0'')
      else take (nat (k + 1)) ds @ CHR ''.'' # drop (nat (k + 1)) ds)"

definition json_float :: "float64 \<Rightarrow> string" where
  "json_float x =
     (if num x = 0 then ''0''
      else case shortest_decimal x of
        (d, p) \<Rightarrow>
          (let all = nat_digits d
           in write_digits (strip_zeros all) (p + int (length all) - 1)))"

text \<open>A number token read into an \<open>any\<close> and written again.\<close>

definition reprint_number :: "string \<Rightarrow> string" where
  "reprint_number l =
     (let (ds, k) = number_parts l;
          m = digits_val ds;
          x = (if 0 \<le> k then to_float (m * 10 ^ nat k) 1 else to_float m (10 ^ nat (- k)))
      in (if has_prefix l ''-'' then ''-'' else []) @ json_float x)"

section \<open>Integers below 2^53\<close>

lemma bit_length_bounds: "0 < n \<Longrightarrow> 2 ^ (bit_length n - 1) \<le> n \<and> n < 2 ^ bit_length n \<and> 0 < bit_length n"
proof (induction n rule: bit_length.induct)
  case (1 n)
  show ?case
  proof (cases "n div 2 = 0")
    case True
    with 1 have "n = 1" by simp
    then show ?thesis by (simp add: bit_length.simps)
  next
    case False
    with 1 have IH: "2 ^ (bit_length (n div 2) - 1) \<le> n div 2" "n div 2 < 2 ^ bit_length (n div 2)"
        "0 < bit_length (n div 2)" by auto
    have s: "bit_length n = Suc (bit_length (n div 2))"
      using 1 by (subst bit_length.simps) simp
    obtain k where k: "bit_length (n div 2) = Suc k" using IH(3) by (cases "bit_length (n div 2)") auto
    show ?thesis using IH(1,2) unfolding s k by auto
  qed
qed

lemma log2_quotient_one: "0 < n \<Longrightarrow> log2_quotient n (Suc 0) = int (bit_length n) - 1"
proof -
  assume n: "0 < n"
  have "bit_length (Suc 0) = Suc 0" by (simp add: bit_length.simps)
  moreover obtain k where "bit_length n = Suc k"
    using bit_length_bounds [OF n] by (cases "bit_length n") auto
  ultimately show ?thesis
    using bit_length_bounds [OF n] by (simp add: log2_quotient_def)
qed

lemma round_half_even_one [simp]: "round_half_even a (Suc 0) = a"
  by (simp add: round_half_even_def)

lemma round_half_even_ge: "a div b \<le> round_half_even a b"
  by (simp add: round_half_even_def Let_def)

text \<open>Natural numbers below \<open>2^53\<close> are exact.\<close>

lemma to_float_exact:
  assumes "n < 2 ^ 53"
  shows "num (to_float n 1) = n * den (to_float n 1)"
proof (cases "n = 0")
  case True
  then show ?thesis by (simp add: to_float_def num_def)
next
  case False
  then have L: "log2_quotient n 1 = int (bit_length n) - 1" by (simp add: log2_quotient_one)
  have "bit_length n \<le> 53"
  proof (rule ccontr)
    assume "\<not> ?thesis"
    then have "(2::nat) ^ 53 \<le> 2 ^ (bit_length n - 1)" by (intro power_increasing) auto
    with bit_length_bounds [of n] False assms show False by simp
  qed
  then have "log2_quotient n 1 - 52 \<le> 0" "- 1074 \<le> log2_quotient n 1 - 52" using L by auto
  then show ?thesis
    using False by (auto simp: to_float_def Let_def num_def den_def max_def)
qed

lemma to_float_large:
  assumes "2 ^ 53 \<le> n"
  shows "2 ^ 53 * den (to_float n 1) \<le> num (to_float n 1)"
proof -
  from assms have n: "0 < n" by (rule less_le_trans [rotated]) simp
  note B = bit_length_bounds [OF n]
  have "53 < bit_length n"
  proof (rule ccontr)
    assume "\<not> ?thesis"
    then have "(2::nat) ^ bit_length n \<le> 2 ^ 53" by (intro power_increasing) auto
    with B assms show False by simp
  qed
  then obtain k where k: "bit_length n = Suc k + 53" using less_iff_Suc_add by (metis add.commute add_Suc)
  have e: "log2_quotient n 1 - 52 = int (Suc k)" using k n by (simp add: log2_quotient_one)
  have "2 ^ (k + 53) \<le> n" using B k by (simp add: add.commute)
  moreover have p: "(2::nat) ^ 52 * 2 ^ Suc k = 2 ^ (k + 53)" by (simp add: power_add)
  ultimately have "(2::nat) ^ 52 \<le> n div 2 ^ Suc k"
    by (metis less_eq_div_iff_mult_less_eq zero_less_power zero_less_numeral)
  also have "\<dots> \<le> round_half_even n (2 ^ Suc k)" by (rule round_half_even_ge)
  finally have "2 ^ 52 * 2 ^ Suc k \<le> round_half_even n (2 ^ Suc k) * 2 ^ Suc k"
    by (rule mult_right_mono) simp
  moreover have "(2::nat) ^ 53 \<le> 2 ^ 52 * 2 ^ Suc k" by simp
  ultimately have "2 ^ 53 \<le> round_half_even n (2 ^ Suc k) * 2 ^ Suc k" by (rule order_trans [rotated])
  then show ?thesis
    using n unfolding to_float_def Let_def e by (simp add: num_def den_def del: power_Suc of_nat_Suc)
qed

lemma nat_digits_times_10: "0 < d \<Longrightarrow> nat_digits (d * 10 ^ p) = nat_digits d @ replicate p (CHR ''0'')"
proof (induction p)
  case (Suc p)
  have "nat_digits (d * 10 ^ p * 10) = nat_digits (d * 10 ^ p) @ ''0''"
    using Suc.prems by (subst nat_digits.simps) (simp add: digit_char_def)
  moreover have "d * 10 ^ Suc p = d * 10 ^ p * 10" by simp
  moreover have "replicate (Suc p) (CHR ''0'') = replicate p (CHR ''0'') @ ''0''"
    by (simp add: replicate_append_same)
  ultimately show ?case using Suc.IH [OF Suc.prems] by (metis append_assoc)
qed simp

lemma log10_quotient_one: "0 < n \<Longrightarrow> b dvd a \<Longrightarrow> a = n * b \<Longrightarrow> 0 < b \<Longrightarrow>
    log10_quotient a b = int (length (nat_digits n)) - 1"
  by (simp add: log10_quotient_def)

text \<open>A candidate for an integer below \<open>2^53\<close> is that integer.\<close>

lemma candidate_exact:
  assumes "0 < n" and "n < 2 ^ 53" and x: "num x = n * den x" "0 < den x"
    and "(d, p) \<in> set (candidates x lead k)" and "0 \<le> p"
  shows "d * 10 ^ nat p = n"
proof -
  let ?y = "d * 10 ^ nat p"
  have "float_eq (decimal_float d p) x" using assms(5) by (auto simp: candidates_def Let_def)
  then have eq: "num (to_float ?y 1) = n * den (to_float ?y 1)"
    using assms(6) x by (simp add: float_eq_def decimal_float_def mult.assoc mult.commute mult.left_commute)
  show ?thesis
  proof (cases "?y < 2 ^ 53")
    case True
    from to_float_exact [OF this] eq have "?y * den (to_float ?y 1) = n * den (to_float ?y 1)" by simp
    then show ?thesis by (simp add: den_def split: if_splits)
  next
    case False
    then have "2 ^ 53 * den (to_float ?y 1) \<le> n * den (to_float ?y 1)"
      using to_float_large [of ?y] eq by simp
    with assms(2) show ?thesis by (simp add: den_def split: if_splits)
  qed
qed


lemma candidates_full:
  assumes "0 < n" and "n < 2 ^ 53" and x: "num x = n * den x" "0 < den x"
  shows "(n, 0) \<in> set (candidates x (int k - 1) k)"
proof -
  have "float_eq (decimal_float n 0) x"
    using to_float_exact [OF assms(2)] x by (simp add: float_eq_def decimal_float_def)
  then show ?thesis using x by (simp add: candidates_def Let_def)
qed

lemma shortest_exact:
  assumes "0 < n" and "n < 2 ^ 53" and x: "num x = n * den x" "0 < den x"
  shows "\<exists>d p. shortest_decimal x = (d, p) \<and> 0 \<le> p \<and> d * 10 ^ nat p = n"
proof -
  define k where "k = length (nat_digits n)"
  have "k \<le> 16" unfolding k_def using assms(2) by (intro length_nat_digits_le) auto
  have "1 \<le> k" unfolding k_def by (cases "nat_digits n") auto
  have lead: "log10_quotient (num x) (den x) = int k - 1"
    using x assms(1) by (simp add: log10_quotient_def k_def)
  let ?c = "candidates x (int k - 1)"
  have "[1..<18] = [1..<Suc k] @ [Suc k..<18]"
    using \<open>k \<le> 16\<close> upt_add_eq_append [of 1 "Suc k" "17 - k"] by simp
  then have split: "concat (map ?c [1..<18]) = concat (map ?c [1..<Suc k]) @ concat (map ?c [Suc k..<18])"
    by (metis concat_append map_append)
  have "(n, 0) \<in> set (concat (map ?c [1..<Suc k]))"
    using candidates_full [OF assms, of k] \<open>1 \<le> k\<close> by auto
  then obtain dp rest where "concat (map ?c [1..<Suc k]) = dp # rest"
    by (cases "concat (map ?c [1..<Suc k])") auto
  with split have hd: "shortest_decimal x = dp" "dp \<in> set (concat (map ?c [1..<Suc k]))"
    unfolding shortest_decimal_def lead by (simp_all add: Let_def)
  obtain d p where dp: "dp = (d, p)" by (cases dp)
  from hd(2) have "\<exists>i. i \<le> k \<and> (d, p) \<in> set (?c i)" by (auto simp: dp intro: less_imp_le)
  then obtain i where i: "i \<le> k" "(d, p) \<in> set (?c i)" by blast
  then have "0 \<le> p" by (auto simp: candidates_def Let_def)
  with candidate_exact [OF assms i(2)] hd(1) dp show ?thesis by auto
qed

lemma strip_zeros_split: "\<exists>j. s = strip_zeros s @ replicate j (CHR ''0'')"
  using trim_right_char_suffix [of s "CHR ''0''"] by (simp add: trim_right_char_def strip_zeros_def)

lemma json_float_exact:
  assumes "0 < n" and "n < 2 ^ 53" and x: "num x = n * den x" "0 < den x"
  shows "json_float x = nat_digits n"
proof -
  from shortest_exact [OF assms] obtain d p
    where dp: "shortest_decimal x = (d, p)" "0 \<le> p" "d * 10 ^ nat p = n" by blast
  then have d: "0 < d" using assms(1) by (cases d) auto
  let ?all = "nat_digits d" and ?ds = "strip_zeros (nat_digits d)"
  have n: "nat_digits n = ?all @ replicate (nat p) (CHR ''0'')"
    using nat_digits_times_10 [OF d, of "nat p"] dp(3) by simp
  obtain j where j: "?all = ?ds @ replicate j (CHR ''0'')" using strip_zeros_split by blast
  then have len: "length ?all = length ?ds + j" by (metis length_append length_replicate)
  have "length (nat_digits n) \<le> 16" using assms(2) by (intro length_nat_digits_le) auto
  then have "length ?all + nat p \<le> 16" by (simp add: n)
  moreover have "1 \<le> length ?all" by (cases ?all) auto
  ultimately have "write_digits ?ds (p + int (length ?all) - 1) = ?ds @ replicate (nat p + j) (CHR ''0'')"
    using dp(2) len by (auto simp: write_digits_def nat_add_distrib intro!: arg_cong [where f = "\<lambda>k. replicate k _"])
  also have "\<dots> = nat_digits n"
    unfolding n by (subst (2) j) (simp add: replicate_add add.commute)
  finally show ?thesis
    using assms(1) x by (simp add: json_float_def dp(1))
qed

lemma reprint_itoa: "\<bar>n\<bar> < 2 ^ 53 \<Longrightarrow> reprint_number (itoa n) = itoa n"
proof -
  assume n: "\<bar>n\<bar> < 2 ^ 53"
  let ?m = "nat \<bar>n\<bar>" let ?x = "to_float ?m 1"
  have m: "?m < 2 ^ 53" using n by auto
  have "json_float ?x = nat_digits ?m"
  proof (cases "?m = 0")
    case True
    then show ?thesis by (simp add: json_float_def to_float_def num_def nat_digits_zero)
  next
    case False
    then show ?thesis
      using m to_float_exact [OF m] by (intro json_float_exact) (auto simp: den_def)
  qed
  moreover have "has_prefix (itoa n) ''-'' = (n < 0)"
    using nat_digits_hd [of "nat n"] by (auto simp: itoa_def)
  ultimately have "reprint_number (itoa n) = (if n < 0 then ''-'' else []) @ nat_digits ?m"
    unfolding reprint_number_def number_parts_itoa by (simp add: digits_val_nat_digits)
  then show ?thesis by (simp add: itoa_def)
qed

end
