(* ===== verification/Go_Http.thy ===== *)
theory Go_Http
  imports Go_Strings
begin

text \<open>
  A response as the handlers write it through \<open>http.ResponseWriter\<close>: status, content type, body.
\<close>

record http_response =
  resp_status :: int
  resp_type :: string
  resp_body :: string

text \<open>\<open>http.Error\<close>.\<close>

definition http_error :: "string \<Rightarrow> int \<Rightarrow> http_response" where
  "http_error msg code =
     \<lparr>resp_status = code, resp_type = ''text/plain; charset=utf-8'', resp_body = msg @ [CHR 0x0A]\<rparr>"

text \<open>The \<open>%d\<close> verb on an unsigned and a signed 64-bit counter.\<close>

definition show_u64 :: "64 word \<Rightarrow> string" where
  "show_u64 n = nat_digits (unat n)"

definition show_i64 :: "64 word \<Rightarrow> string" where
  "show_i64 n = itoa (sint n)"

text \<open>\<open>%q\<close>; a rune outside ASCII is taken to be printable.\<close>

definition quote_char :: "char \<Rightarrow> string" where
  "quote_char c =
     (let b = byte c in
      if c = CHR 0x22 \<or> c = CHR 0x5C then [CHR 0x5C, c]
      else if b = 7 then [CHR 0x5C, CHR ''a'']
      else if b = 8 then [CHR 0x5C, CHR ''b'']
      else if b = 9 then [CHR 0x5C, CHR ''t'']
      else if b = 10 then [CHR 0x5C, CHR ''n'']
      else if b = 11 then [CHR 0x5C, CHR ''v'']
      else if b = 12 then [CHR 0x5C, CHR ''f'']
      else if b = 13 then [CHR 0x5C, CHR ''r'']
      else if b < 32 \<or> b = 127 then
        [CHR 0x5C, CHR ''x'', (if b div 16 < 10 then chr (48 + b div 16) else chr (87 + b div 16)),
         (if b mod 16 < 10 then chr (48 + b mod 16) else chr (87 + b mod 16))]
      else [c])"

definition go_quote :: "string \<Rightarrow> string" where
  "go_quote s = CHR 0x22 # concat (map quote_char s) @ [CHR 0x22]"

definition text_lines :: "string list \<Rightarrow> string" where
  "text_lines ls = concat (map (\<lambda>l. l @ [CHR 0x0A]) ls)"

end
