(* ===== verification/Worker_Metrics.thy ===== *)
theory Worker_Metrics
  imports Go_Float Go_Http OL_Client
begin

text \<open>
  \<open>cmd/worker/worker_metrics.go\<close>: the counters and the two histograms of the worker, kept in one
  record, and the text of /metrics. Counters are 64-bit words, bucket bounds and durations in
  seconds are \<open>float64\<close>.
\<close>

section \<open>Histograms\<close>

record histogram =
  h_counts :: "64 word list"
  h_sum :: "64 word"
  h_count :: "64 word"

definition second :: nat where
  "second = 1000000000"

definition fetchLatencyBuckets :: "float64 list" where
  "fetchLatencyBuckets =
     [to_float 5 100, to_float 1 10, to_float 25 100, to_float 5 10, to_float 1 1, to_float 2 1, to_float 5 1]"

definition commitLatencyBuckets :: "float64 list" where
  "commitLatencyBuckets =
     [to_float 1 1000, to_float 5 1000, to_float 1 100, to_float 25 1000, to_float 5 100, to_float 1 10,
      to_float 25 100, to_float 5 10, to_float 1 1]"

definition new_histogram :: "float64 list \<Rightarrow> histogram" where
  "new_histogram buckets = \<lparr>h_counts = replicate (length buckets + 1) 0, h_sum = 0, h_count = 0\<rparr>"

text \<open>\<open>Duration.Seconds\<close> of a positive duration in nanoseconds.\<close>

definition duration_seconds :: "nat \<Rightarrow> float64" where
  "duration_seconds d =
     float_add (to_float (d div second) 1) (float_div (to_float (d mod second) 1) (to_float second 1))"

text \<open>The first bucket whose bound is not exceeded, else the one after the last.\<close>

fun bucket_index :: "float64 list \<Rightarrow> float64 \<Rightarrow> nat" where
  "bucket_index [] seconds = 0"
| "bucket_index (bound # bounds) seconds =
     (if float_le seconds bound then 0 else Suc (bucket_index bounds seconds))"

definition observe :: "float64 list \<Rightarrow> int \<Rightarrow> histogram \<Rightarrow> histogram" where
  "observe buckets duration h =
     (if duration \<le> 0 then h
      else let i = bucket_index buckets (duration_seconds (nat duration))
           in h\<lparr>h_counts := (h_counts h)[i := h_counts h ! i + 1],
                h_sum := h_sum h + of_int duration, h_count := h_count h + 1\<rparr>)"

text \<open>The bucket lines from a bucket on, and the value of the +Inf line.\<close>

fun bucket_lines :: "string \<Rightarrow> nat \<Rightarrow> 64 word \<Rightarrow> float64 list \<Rightarrow> 64 word list \<Rightarrow> string list \<times> 64 word" where
  "bucket_lines name places cumulative [] counts =
     ([], cumulative + (case counts of [] \<Rightarrow> 0 | c # _ \<Rightarrow> c))"
| "bucket_lines name places cumulative (bound # bounds) counts =
     (let cumulative' = cumulative + (case counts of [] \<Rightarrow> 0 | c # _ \<Rightarrow> c);
          (ls, total) = bucket_lines name places cumulative' bounds (tl counts)
      in ((name @ ''_bucket{le='' @ CHR 0x22 # format_fixed places bound @ CHR 0x22 # ''} '' @
           show_u64 cumulative') # ls, total))"

definition appendHistogram :: "string \<Rightarrow> float64 list \<Rightarrow> nat \<Rightarrow> histogram \<Rightarrow> string" where
  "appendHistogram name buckets places h =
     (let (ls, total) = bucket_lines name places 0 buckets (h_counts h)
      in text_lines (ls @
        [name @ ''_bucket{le='' @ CHR 0x22 # ''+Inf'' @ CHR 0x22 # ''} '' @ show_u64 total,
         name @ ''_sum '' @
           format_fixed 6 (float_div (to_float (unat (h_sum h)) 1) (to_float second 1)),
         name @ ''_count '' @ show_u64 (h_count h)]))"

section \<open>The worker's metrics\<close>

record worker_metrics =
  jobsReceived :: "64 word"
  jobsSkipped :: "64 word"
  jobsSuccess :: "64 word"
  jobsFailed :: "64 word"
  fetchLatency :: histogram
  rateLimitHits :: "64 word"
  commitErrorsTotal :: "64 word"
  commitPendingTotal :: "64 word"
  inFlight :: "64 word"
  commitLatency :: histogram

definition new_metrics :: worker_metrics where
  "new_metrics = \<lparr>jobsReceived = 0, jobsSkipped = 0, jobsSuccess = 0, jobsFailed = 0,
     fetchLatency = new_histogram fetchLatencyBuckets, rateLimitHits = 0, commitErrorsTotal = 0,
     commitPendingTotal = 0, inFlight = 0, commitLatency = new_histogram commitLatencyBuckets\<rparr>"

definition observeFetchLatency :: "int \<Rightarrow> worker_metrics \<Rightarrow> worker_metrics" where
  "observeFetchLatency duration m =
     m\<lparr>fetchLatency := observe fetchLatencyBuckets duration (fetchLatency m)\<rparr>"

definition observeCommitLatency :: "int \<Rightarrow> worker_metrics \<Rightarrow> worker_metrics" where
  "observeCommitLatency duration m =
     m\<lparr>commitLatency := observe commitLatencyBuckets duration (commitLatency m)\<rparr>"

text \<open>\<open>fetchJSONWithMetrics\<close>: \<open>duration\<close> is what \<open>time.Since\<close> measures.\<close>

definition fetchJSONWithMetrics ::
  "(string \<Rightarrow> go_error) \<Rightarrow> (http_request \<Rightarrow> http_reply) \<Rightarrow> int \<Rightarrow> string \<Rightarrow> worker_metrics \<Rightarrow>
   (go_error + string) \<times> worker_metrics" where
  "fetchJSONWithMetrics bad_url do_request duration url m =
     (let res = FetchJSONWithClient bad_url do_request url;
          m1 = observeFetchLatency duration m
      in (res, case res of
            Inl err \<Rightarrow> if contains err ''unexpected status 429''
              then m1\<lparr>rateLimitHits := rateLimitHits m1 + 1\<rparr> else m1
          | Inr body \<Rightarrow> m1))"

definition escapeMetricLabel :: "string \<Rightarrow> string" where
  "escapeMetricLabel s =
     replace_char (CHR 0x22) [CHR 0x5C, CHR 0x22] (replace_char (CHR 0x5C) [CHR 0x5C, CHR 0x5C] s)"

definition handleMetrics :: "string \<Rightarrow> worker_metrics \<Rightarrow> string \<Rightarrow> http_response" where
  "handleMetrics metricsProxyURL m meth =
     (if meth \<noteq> ''GET'' then http_error ''method not allowed'' 405
      else \<lparr>resp_status = 200, resp_type = ''text/plain; version=0.0.4'',
        resp_body =
          text_lines
            [''relentless_worker_up 1'',
             ''relentless_worker_jobs_received_total '' @ show_u64 (jobsReceived m),
             ''relentless_worker_jobs_skipped_total '' @ show_u64 (jobsSkipped m),
             ''relentless_worker_jobs_success_total '' @ show_u64 (jobsSuccess m),
             ''relentless_worker_jobs_failed_total '' @ show_u64 (jobsFailed m)] @
          (if metricsProxyURL = [] then []
           else text_lines
            [''# HELP relentless_worker_proxy_info Proxy URL this worker uses (1 when set).'',
             ''# TYPE relentless_worker_proxy_info gauge'',
             ''relentless_worker_proxy_info{proxy='' @ go_quote (escapeMetricLabel metricsProxyURL) @ ''} 1'']) @
          text_lines
            [''# HELP relentless_worker_rate_limit_hits_total Open Library HTTP 429 (rate limit) responses.'',
             ''# TYPE relentless_worker_rate_limit_hits_total counter'',
             ''relentless_worker_rate_limit_hits_total '' @ show_u64 (rateLimitHits m),
             ''relentless_worker_commit_errors_total '' @ show_u64 (commitErrorsTotal m),
             ''relentless_worker_commit_pending_total '' @ show_i64 (commitPendingTotal m),
             ''relentless_worker_in_flight '' @ show_i64 (inFlight m)] @
          text_lines
            [''# HELP relentless_worker_fetch_latency_seconds Open Library fetch latency.'',
             ''# TYPE relentless_worker_fetch_latency_seconds histogram''] @
          appendHistogram ''relentless_worker_fetch_latency_seconds'' fetchLatencyBuckets 2 (fetchLatency m) @
          text_lines
            [''# HELP relentless_worker_commit_latency_seconds Kafka commit latency.'',
             ''# TYPE relentless_worker_commit_latency_seconds histogram''] @
          appendHistogram ''relentless_worker_commit_latency_seconds'' commitLatencyBuckets 3 (commitLatency m)\<rparr>)"

section \<open>Lemmas\<close>

lemma bucket_index_le: "bucket_index bs x \<le> length bs"
  by (induction bs) auto

lemma sum_list_incr:
  "i < length xs \<Longrightarrow> sum_list (xs[i := xs ! i + (1 :: 'a::comm_ring_1)]) = sum_list xs + 1"
  by (induction xs arbitrary: i) (auto split: nat.splits simp: algebra_simps)

text \<open>The counts of a histogram add up to its count, and there is one count per bucket.\<close>

definition wf_histogram :: "float64 list \<Rightarrow> histogram \<Rightarrow> bool" where
  "wf_histogram buckets h \<longleftrightarrow>
     length (h_counts h) = Suc (length buckets) \<and> sum_list (h_counts h) = h_count h"

lemma wf_new_histogram: "wf_histogram bs (new_histogram bs)"
  by (simp add: wf_histogram_def new_histogram_def sum_list_replicate)

lemma wf_observe: "wf_histogram bs h \<Longrightarrow> wf_histogram bs (observe bs d h)"
  using bucket_index_le [of bs "duration_seconds (nat d)"]
  by (auto simp: wf_histogram_def observe_def Let_def sum_list_incr less_Suc_eq_le)

definition observe_all :: "float64 list \<Rightarrow> int list \<Rightarrow> histogram" where
  "observe_all bs ds = fold (observe bs) ds (new_histogram bs)"

lemma wf_observe_all: "wf_histogram bs (observe_all bs ds)"
  unfolding observe_all_def
  by (induction ds rule: rev_induct) (simp_all add: wf_new_histogram wf_observe)

lemma observe_all_totals:
  "h_count (observe_all bs ds) = of_nat (length (filter ((<) 0) ds))"
  "h_sum (observe_all bs ds) = of_int (sum_list (filter ((<) 0) ds))"
  unfolding observe_all_def
  by (induction ds rule: rev_induct) (auto simp: new_histogram_def observe_def Let_def add.commute)

text \<open>
  After any sequence of durations a histogram has one count per bucket and one for
  +Inf; they add up to the count, which is the number of positive durations, and the sum is the
  sum of those (all modulo 64 bits).
\<close>

lemma histogram_conserved:
  "length (h_counts (observe_all bs ds)) = Suc (length bs) \<and>
   sum_list (h_counts (observe_all bs ds)) = h_count (observe_all bs ds) \<and>
   h_count (observe_all bs ds) = of_nat (length (filter ((<) 0) ds)) \<and>
   h_sum (observe_all bs ds) = of_int (sum_list (filter ((<) 0) ds))"
  using wf_observe_all [of bs ds] observe_all_totals [of bs ds] by (simp add: wf_histogram_def)

lemma bucket_lines_total:
  "length counts = Suc (length bounds) \<Longrightarrow>
   snd (bucket_lines name places c bounds counts) = c + sum_list counts \<and>
   length (fst (bucket_lines name places c bounds counts)) = length bounds"
proof (induction bounds arbitrary: c counts)
  case Nil
  then show ?case by (cases counts) auto
next
  case (Cons b bs)
  then obtain x xs where "counts = x # xs" "length xs = Suc (length bs)" by (cases counts) auto
  with Cons.IH [of xs "c + x"] show ?case by (simp add: Let_def case_prod_beta add.assoc)
qed

text \<open>
  The exported histogram is consistent: its +Inf bucket and its count line show the
  same number, for every histogram that only \<open>observe\<close> has updated.
\<close>

lemma exported_histogram_consistent:
  "appendHistogram name bs places (observe_all bs ds) =
     text_lines (fst (bucket_lines name places 0 bs (h_counts (observe_all bs ds))) @
       [name @ ''_bucket{le='' @ CHR 0x22 # ''+Inf'' @ CHR 0x22 # ''} '' @
          show_u64 (of_nat (length (filter ((<) 0) ds))),
        name @ ''_sum '' @ format_fixed 6
          (float_div (to_float (unat (h_sum (observe_all bs ds))) 1) (to_float second 1)),
        name @ ''_count '' @ show_u64 (of_nat (length (filter ((<) 0) ds)))])"
  using wf_observe_all [of bs ds] observe_all_totals [of bs ds]
    bucket_lines_total [of "h_counts (observe_all bs ds)" bs name places 0]
  by (simp add: appendHistogram_def wf_histogram_def case_prod_beta)

end
