(* ===== verification/Worker.thy ===== *)
theory Worker
  imports Kafka Models OL_Robots OL_Parser Worker_Metrics
begin

text \<open>
  \<open>cmd/worker/main.go\<close>: the configuration of a worker, the handling of one job with its retries, what
  it publishes, and the loop that dispatches messages. The functions run in one state, the
  \<open>world\<close>, which logs every request, write, wait, commit and spawned goroutine in order. What
  the environment answers is the record \<open>env\<close>: each answer depends on the number of answers given
  before, so it may differ from one call to the next. Log output is left out.
\<close>

section \<open>Proxy selection\<close>

text \<open>FNV-1a over 32 bits.\<close>

definition fnv32a :: "string \<Rightarrow> 32 word" where
  "fnv32a s = foldl (\<lambda>h c. xor h (of_nat (byte c)) * 16777619) 2166136261 s"

definition selectProxyFromPool :: "string \<Rightarrow> string \<Rightarrow> string" where
  "selectProxyFromPool pool hostname =
     (let parts = map trim_space (split_char (CHR '','') (trim_space pool));
          valid = filter ((\<noteq>) []) parts;
          host = (if hostname = [] then ''0'' else hostname)
      in if valid = [] then [] else valid ! (unat (fnv32a host) mod length valid))"

section \<open>Configuration\<close>

record worker =
  resultsWriter :: bool
  edgesWriter :: bool
  frontierWriter :: bool
  dlqWriter :: bool
  ttl :: int
  maxDepth :: int
  retryMax :: int
  retryBase :: int
  retryMaxDelay :: int
  concurrentJobs :: int
  jobTimeout :: int
  publishTimeout :: int
  robots :: "robots_rules option"

abbreviation seconds :: "int \<Rightarrow> int" where
  "seconds n \<equiv> n * 1000000000"

abbreviation minutes :: "int \<Rightarrow> int" where
  "minutes n \<equiv> n * 60000000000"

text \<open>A writer is present or nil; durations are nanoseconds.\<close>

definition newWorker ::
  "bool \<Rightarrow> bool \<Rightarrow> bool \<Rightarrow> bool \<Rightarrow> int \<Rightarrow> int \<Rightarrow> int \<Rightarrow> int \<Rightarrow> int \<Rightarrow> int \<Rightarrow> int \<Rightarrow> int \<Rightarrow>
   robots_rules option \<Rightarrow> worker" where
  "newWorker results edges frontier dlq dedupe depth retries base maxDelay concurrent jobTime publishTime rules =
     (let concurrent' = (if concurrent < 1 then 1 else concurrent);
          jobTime' = (if jobTime \<le> 0 then minutes 5 else jobTime);
          publishTime1 = (if publishTime \<le> 0 then seconds 90 else publishTime);
          publishTime2 =
            (if publishTime1 \<ge> jobTime' then
               (let capped = jobTime' - minutes 1 in if capped < seconds 30 then seconds 30 else capped)
             else publishTime1)
      in \<lparr>resultsWriter = results, edgesWriter = edges, frontierWriter = frontier, dlqWriter = dlq,
          ttl = dedupe, maxDepth = depth, retryMax = retries, retryBase = base, retryMaxDelay = maxDelay,
          concurrentJobs = concurrent', jobTimeout = jobTime', publishTimeout = publishTime2,
          robots = rules\<rparr>)"

section \<open>Environment and state\<close>

record env =
  http :: "nat \<Rightarrow> http_request \<Rightarrow> http_reply"
  latency :: "nat \<Rightarrow> int"
  broker :: "nat \<Rightarrow> go_error option"
  now :: "nat \<Rightarrow> go_time"
  ctx_err :: "nat \<Rightarrow> go_error option"
  bad_url :: "string \<Rightarrow> go_error"
  json_err :: "string \<Rightarrow> go_error"
  time_err :: "go_time \<Rightarrow> go_error"

datatype topic = Results | Edges | Frontier | DLQ

record world =
  clock :: nat
  requests :: "http_request list"
  writes :: "(topic \<times> kafka_message \<times> go_error option) list"
  waits :: "int list"
  commit_ch :: "kafka_message list"
  spawned :: "(kafka_message \<times> crawl_job) list"
  metrics :: worker_metrics

definition new_world :: world where
  "new_world = \<lparr>clock = 0, requests = [], writes = [], waits = [], commit_ch = [], spawned = [],
     metrics = new_metrics\<rparr>"

definition tick :: "world \<Rightarrow> world" where
  "tick w = w\<lparr>clock := Suc (clock w)\<rparr>"

definition count :: "(worker_metrics \<Rightarrow> worker_metrics) \<Rightarrow> world \<Rightarrow> world" where
  "count f w = w\<lparr>metrics := f (metrics w)\<rparr>"

definition fetch :: "env \<Rightarrow> string \<Rightarrow> world \<Rightarrow> (go_error + string) \<times> world" where
  "fetch env url w =
     (case fetchJSONWithMetrics (bad_url env) (http env (clock w)) (latency env (clock w)) url (metrics w) of
        (res, m) \<Rightarrow>
          (res, tick (w\<lparr>metrics := m,
             requests := requests w @ (case new_request (bad_url env) url of Inl e \<Rightarrow> [] | Inr req \<Rightarrow> [req])\<rparr>)))"

text \<open>\<open>WriteMessages\<close> of one message, and the sequence the publishing functions share: marshal,
  take the time, write.\<close>

definition write_message :: "env \<Rightarrow> topic \<Rightarrow> kafka_message \<Rightarrow> world act" where
  "write_message env tp msg w =
     (let err = broker env (clock w)
      in (err, tick (w\<lparr>writes := writes w @ [(tp, msg, err)]\<rparr>)))"

definition publish :: "env \<Rightarrow> topic \<Rightarrow> string \<Rightarrow> go_error \<Rightarrow> string option \<Rightarrow> world act" where
  "publish env tp key err payload w =
     (case payload of
        None \<Rightarrow> (Some err, w)
      | Some p \<Rightarrow> write_message env tp (new_message key p (now env (clock w))) (tick w))"

section \<open>Handling a job\<close>

definition isSearchURL :: "string \<Rightarrow> bool" where
  "isSearchURL url = contains url ''/search.json''"

definition dedupeKeyForJob :: "crawl_job \<Rightarrow> string" where
  "dedupeKeyForJob job =
     (if contains (job_url job) ''/authors/'' then ''visited:author:'' @ job_url job
      else if contains (job_url job) ''/books/'' then ''visited:book:'' @ job_url job
      else ''visited:work:'' @ job_url job)"

definition crawlWork :: "env \<Rightarrow> crawl_job \<Rightarrow> world \<Rightarrow> (go_error + node option) \<times> world" where
  "crawlWork env job w =
     (case fetch env (EnsureJSONURL (job_url job)) w of
        (Inl err, w') \<Rightarrow> (Inl err, w')
      | (Inr body, w') \<Rightarrow> (ParseNode (json_err env) body, w'))"

definition crawlAuthor :: "env \<Rightarrow> crawl_job \<Rightarrow> world \<Rightarrow> (go_error + node option) \<times> world" where
  "crawlAuthor env job w =
     (case fetch env (EnsureJSONURL (job_url job)) w of
        (Inl err, w') \<Rightarrow> (Inl err, w')
      | (Inr body, w') \<Rightarrow> (ParseNode (json_err env) body, w'))"

definition handleSearch :: "env \<Rightarrow> crawl_job \<Rightarrow> world \<Rightarrow> (go_error + node option) \<times> world" where
  "handleSearch env job w =
     (case fetch env (job_url job) w of
        (Inl err, w') \<Rightarrow> (Inl err, w')
      | (Inr body, w') \<Rightarrow>
          (case ParseSearchResponse (json_err env) body of
             Inl err \<Rightarrow> (Inl err, w')
           | Inr resp \<Rightarrow> (Inr None, w')))"

definition handleJob ::
  "env \<Rightarrow> crawl_job \<Rightarrow> robots_rules option \<Rightarrow> world \<Rightarrow> (go_error + node option) \<times> world" where
  "handleJob env job rules w =
     (let fetchURL = (if contains (job_url job) ''/search.json'' then job_url job
                      else EnsureJSONURL (job_url job));
          path = PathFromURL fetchURL
      in if rules \<noteq> None \<and> \<not> Allowed rules path then (Inl (''robots.txt disallows path '' @ path), w)
         else if contains (job_url job) ''/search.json'' then handleSearch env job w
         else if contains (job_url job) ''/authors/'' then crawlAuthor env job w
         else crawlWork env job w)"

text \<open>The loop of \<open>handleJobWithRetry\<close>; a wait is logged with its length and may be cut short by the
  context. The counter \<open>attempts\<close> is not wrapped: it ends at \<open>retryMax + 1\<close>, which is no \<open>int\<close> of Go
  only for \<open>RETRY_MAX\<close> = 2^63 - 1, where the loop of the code does not end.\<close>

function retry_loop ::
  "env \<Rightarrow> worker \<Rightarrow> crawl_job \<Rightarrow> int \<Rightarrow> int \<Rightarrow> world \<Rightarrow> (go_error + node option) \<times> world" where
  "retry_loop env c job delay attempts w =
     (case handleJob env job (robots c) w of
        (Inr node, w1) \<Rightarrow> (Inr node, w1)
      | (Inl err, w1) \<Rightarrow>
          (let attempts' = attempts + 1
           in if attempts' > retryMax c then (Inl err, w1)
              else if delay > 0 then
                (let d = (if retryMaxDelay c > 0 \<and> delay > retryMaxDelay c then retryMaxDelay c else delay);
                     w2 = tick (w1\<lparr>waits := waits w1 @ [d]\<rparr>)
                 in case ctx_err env (clock w1) of
                      Some e \<Rightarrow> (Inl e, w2)
                    | None \<Rightarrow> retry_loop env c job (wrap64 (d * 2)) attempts' w2)
              else retry_loop env c job delay attempts' w1))"
  by pat_completeness auto
termination
  by (relation "measure (\<lambda>(env, c, job, delay, attempts, w). nat (retryMax c - attempts))") auto

declare retry_loop.simps [simp del]

definition handleJobWithRetry ::
  "env \<Rightarrow> worker \<Rightarrow> crawl_job \<Rightarrow> world \<Rightarrow> (go_error + node option) \<times> world" where
  "handleJobWithRetry env c job w =
     (if retryMax c \<le> 0 then handleJob env job (robots c) w
      else retry_loop env c job (retryBase c) 0 w)"

section \<open>Publishing\<close>

definition publishResult :: "env \<Rightarrow> worker \<Rightarrow> crawl_job \<Rightarrow> node option \<Rightarrow> world act" where
  "publishResult env c job n =
     (case n of
        None \<Rightarrow> skip
      | Some nd \<Rightarrow>
          if \<not> resultsWriter c then skip
          else publish env Results (job_session job) [] (NewCrawlResult job nd))"

definition publishDLQ :: "env \<Rightarrow> worker \<Rightarrow> crawl_job \<Rightarrow> go_error \<Rightarrow> world act" where
  "publishDLQ env c job err w =
     (if \<not> dlqWriter c then (None, w)
      else let t = now env (clock w)
           in publish env DLQ (job_session job) (time_err env t)
                (marshal enc_failure
                  \<lparr>fail_session = job_session job, fail_seed = job_seed job, fail_url = job_url job,
                   fail_depth = job_depth job, fail_error = err, fail_at = t\<rparr>) (tick w))"

definition next_job :: "crawl_job \<Rightarrow> string \<Rightarrow> go_time \<Rightarrow> crawl_job" where
  "next_job job url t =
     \<lparr>job_session = job_session job, job_seed = job_seed job, job_url = url,
      job_depth = succ64 (job_depth job), job_created = t\<rparr>"

definition enqueueURLToFronter :: "env \<Rightarrow> worker \<Rightarrow> crawl_job \<Rightarrow> string \<Rightarrow> world act" where
  "enqueueURLToFronter env c job url w =
     (if \<not> frontierWriter c then (None, w)
      else if maxDepth c > 0 \<and> job_depth job \<ge> maxDepth c then (None, w)
      else let t = now env (clock w)
           in publish env Frontier (job_session job) (time_err env t)
                (marshal enc_job (next_job job url t)) (tick w))"

definition publishEdge :: "env \<Rightarrow> worker \<Rightarrow> crawl_job \<Rightarrow> string \<Rightarrow> string \<Rightarrow> string \<Rightarrow> world act" where
  "publishEdge env c job frm to relation w =
     (if \<not> edgesWriter c then (None, w)
      else publish env Edges (job_session job) []
        (marshal enc_edge
          \<lparr>edge_session = job_session job, edge_from = frm, edge_to = to, edge_relation = relation\<rparr>) w)"

definition site :: string where
  "site = ''https://openlibrary.org''"

definition expandSearch :: "env \<Rightarrow> worker \<Rightarrow> crawl_job \<Rightarrow> world act" where
  "expandSearch env c job w =
     (case fetch env (job_url job) w of
        (Inl err, w') \<Rightarrow> (Some err, w')
      | (Inr body, w') \<Rightarrow>
          (case ParseSearchResponse (json_err env) body of
             Inl err \<Rightarrow> (Some err, w')
           | Inr resp \<Rightarrow>
               for_each (\<lambda>doc.
                   if doc_key doc = [] then skip
                   else and_then (enqueueURLToFronter env c job (EnsureJSONURL (site @ doc_key doc)))
                     (publishEdge env c job (job_url job) (doc_key doc) ''search_work''))
                 (search_docs resp) w'))"

definition expandBook :: "env \<Rightarrow> worker \<Rightarrow> crawl_job \<Rightarrow> book_node \<Rightarrow> world act" where
  "expandBook env c job b =
     and_then
       (for_each (\<lambda>authorKey.
           and_then (publishEdge env c job (book_key b) authorKey ''book_author'')
             (enqueueURLToFronter env c job (EnsureJSONURL (site @ authorKey)))) (book_authors b))
       (and_then
         (for_each (\<lambda>workKey.
             and_then (publishEdge env c job (book_key b) workKey ''book_work'')
               (enqueueURLToFronter env c job (EnsureJSONURL (site @ workKey)))) (book_works b))
         (for_each (\<lambda>subject.
             and_then (enqueueURLToFronter env c job (SearchSubjectURL subject))
               (publishEdge env c job (book_key b) (''subject:'' @ subject) ''book_subject''))
           (book_subjects b)))"

definition expandAuthor :: "env \<Rightarrow> worker \<Rightarrow> crawl_job \<Rightarrow> author_node \<Rightarrow> world act" where
  "expandAuthor env c job a =
     (if author_name a = [] then skip
      else enqueueURLToFronter env c job (SearchAuthorURL (author_name a)))"

definition expandWork :: "env \<Rightarrow> worker \<Rightarrow> crawl_job \<Rightarrow> work_node \<Rightarrow> world act" where
  "expandWork env c job nd =
     and_then
       (for_each (\<lambda>authorKey.
           and_then (publishEdge env c job (work_key nd) authorKey ''work_author'')
             (enqueueURLToFronter env c job (EnsureJSONURL (site @ authorKey)))) (work_authors nd))
       (for_each (\<lambda>subject.
           and_then (enqueueURLToFronter env c job (SearchSubjectURL subject))
             (publishEdge env c job (work_key nd) (''subject:'' @ subject) ''work_subject''))
         (work_subjects nd))"

definition publishEdgesAndFrontier :: "env \<Rightarrow> worker \<Rightarrow> crawl_job \<Rightarrow> node option \<Rightarrow> world act" where
  "publishEdgesAndFrontier env c job n =
     (if isSearchURL (job_url job) then expandSearch env c job
      else (case n of
          None \<Rightarrow> skip
        | Some (Book b) \<Rightarrow> expandBook env c job b
        | Some (Work nd) \<Rightarrow> expandWork env c job nd
        | Some (Author a) \<Rightarrow> expandAuthor env c job a))"

section \<open>Processing and dispatching\<close>

text \<open>\<open>processJobAsync\<close> up to its deferred function, then with it. A context check is an answer of
  the environment.\<close>

definition process_body :: "env \<Rightarrow> worker \<Rightarrow> crawl_job \<Rightarrow> world \<Rightarrow> world" where
  "process_body env c job w =
     (let (res, w1) = handleJobWithRetry env c job w;
          (n, w2) = (case res of
              Inl err \<Rightarrow>
                (None, snd (publishDLQ env c job err (count (\<lambda>m. m\<lparr>jobsFailed := jobsFailed m + 1\<rparr>) w1)))
            | Inr n \<Rightarrow> (n, count (\<lambda>m. m\<lparr>jobsSuccess := jobsSuccess m + 1\<rparr>) w1))
      in if ctx_err env (clock w2) \<noteq> None then tick w2
         else let w3 = snd (publishResult env c job n (tick w2))
              in if ctx_err env (clock w3) \<noteq> None then tick w3
                 else snd (publishEdgesAndFrontier env c job n (tick w3)))"

definition processJobAsync :: "env \<Rightarrow> worker \<Rightarrow> kafka_message \<Rightarrow> crawl_job \<Rightarrow> world \<Rightarrow> world" where
  "processJobAsync env c msg job w =
     (let w1 = process_body env c job w;
          w2 = count (\<lambda>m. m\<lparr>inFlight := inFlight m - 1\<rparr>) w1
      in w2\<lparr>commit_ch := commit_ch w2 @ [msg]\<rparr>)"

text \<open>\<open>dispatchMessage\<close>; \<open>setnx\<close> is the dedupe store's \<open>SetNX\<close> on its own state, called with a key, a
  value and an expiration. The first half, \<open>claimMessage\<close>, ends with the answer of \<open>SetNX\<close>; it gives
  the job when the message is to be started. Waiting for a slot of the semaphore comes next and may
  take any time; it ends with the slot or with the error of the cancelled context (\<open>startJob\<close>). The
  slots themselves are in \<open>Worker_Shutdown\<close>, the time between the halves in \<open>Worker_Cluster\<close>.\<close>

type_synonym 'k setnx_call = "'k \<Rightarrow> string \<Rightarrow> string \<Rightarrow> int \<Rightarrow> (go_error + bool) \<times> 'k"

definition claimMessage ::
  "worker \<Rightarrow> 'k setnx_call \<Rightarrow> kafka_message \<Rightarrow> 'k \<times> world \<Rightarrow> (go_error + crawl_job option) \<times> 'k \<times> world" where
  "claimMessage c setnx msg s =
     (let (k, w) = s in
      case unmarshal (dec_struct job_fields) zero_job (msg_value msg) of
        None \<Rightarrow> (Inr None, k, w\<lparr>commit_ch := commit_ch w @ [msg]\<rparr>)
      | Some job \<Rightarrow>
          (let w1 = count (\<lambda>m. m\<lparr>jobsReceived := jobsReceived m + 1\<rparr>) w
           in case setnx k (dedupeKeyForJob job) ''1'' (ttl c) of
                (Inl err, k') \<Rightarrow> (Inl err, k', w1)
              | (Inr ok, k') \<Rightarrow>
                  if \<not> ok then
                    (Inr None, k', (count (\<lambda>m. m\<lparr>jobsSkipped := jobsSkipped m + 1\<rparr>) w1)
                       \<lparr>commit_ch := commit_ch w1 @ [msg]\<rparr>)
                  else (Inr (Some job), k', w1)))"

definition startJob :: "env \<Rightarrow> kafka_message \<Rightarrow> crawl_job \<Rightarrow> world \<Rightarrow> go_error option \<times> world" where
  "startJob env msg job w =
     (case ctx_err env (clock w) of
        Some e \<Rightarrow> (Some e, tick w)
      | None \<Rightarrow>
          (None, (count (\<lambda>m. m\<lparr>inFlight := inFlight m + 1\<rparr>) (tick w))\<lparr>spawned := spawned w @ [(msg, job)]\<rparr>))"

definition dispatchMessage ::
  "env \<Rightarrow> worker \<Rightarrow> 'k setnx_call \<Rightarrow> kafka_message \<Rightarrow> 'k \<times> world \<Rightarrow> go_error option \<times> 'k \<times> world" where
  "dispatchMessage env c setnx msg s =
     (case claimMessage c setnx msg s of
        (Inl err, k, w) \<Rightarrow> (Some err, k, w)
      | (Inr None, k, w) \<Rightarrow> (None, k, w)
      | (Inr (Some job), k, w) \<Rightarrow> (case startJob env msg job w of (r, w') \<Rightarrow> (r, k, w')))"

lemmas dispatch_defs = dispatchMessage_def claimMessage_def startJob_def

text \<open>The main loop, on what \<open>FetchMessage\<close> returns; an error without a cancelled context only
  pauses it.\<close>

datatype fetch_event = Fetched kafka_message | Fetch_Error | Fetch_Cancelled

fun run ::
  "env \<Rightarrow> worker \<Rightarrow> 'k setnx_call \<Rightarrow> fetch_event list \<Rightarrow> 'k \<times> world \<Rightarrow> 'k \<times> world" where
  "run env c setnx [] s = s"
| "run env c setnx (Fetched msg # es) s = run env c setnx es (snd (dispatchMessage env c setnx msg s))"
| "run env c setnx (Fetch_Error # es) s = run env c setnx es s"
| "run env c setnx (Fetch_Cancelled # es) s = s"

end
