(* ===== verification/Worker_Retry.thy ===== *)
theory Worker_Retry
  imports Worker
begin

text \<open>
  \<open>handleJob\<close> and \<open>handleJobWithRetry\<close>: what they leave unchanged, how often they fetch and how long
  they wait between attempts, and that a path robots.txt disallows is not fetched by them.
\<close>


section \<open>What the parts change\<close>

lemma tick_sel [simp, frame_simps]:
  "clock (tick w) = Suc (clock w)" "requests (tick w) = requests w" "writes (tick w) = writes w"
  "waits (tick w) = waits w" "commit_ch (tick w) = commit_ch w" "spawned (tick w) = spawned w"
  "metrics (tick w) = metrics w"
  by (simp_all add: tick_def)

lemma count_sel [simp, frame_simps]:
  "clock (count f w) = clock w" "requests (count f w) = requests w" "writes (count f w) = writes w"
  "waits (count f w) = waits w" "commit_ch (count f w) = commit_ch w" "spawned (count f w) = spawned w"
  "metrics (count f w) = f (metrics w)"
  by (simp_all add: count_def)

text \<open>Some functions write nothing; others leave everything but the writes and the clock alone.\<close>

definition job_counters :: "worker_metrics \<Rightarrow> (64 word \<times> 64 word) \<times> (64 word \<times> 64 word) \<times> 64 word" where
  "job_counters m = ((jobsReceived m, jobsSkipped m), (jobsSuccess m, jobsFailed m), inFlight m)"

definition silent :: "world \<Rightarrow> world \<Rightarrow> bool" where
  "silent w w' \<longleftrightarrow> writes w' = writes w \<and> commit_ch w' = commit_ch w \<and> spawned w' = spawned w \<and>
     job_counters (metrics w') = job_counters (metrics w)"

definition only_writes :: "world \<Rightarrow> world \<Rightarrow> bool" where
  "only_writes w w' \<longleftrightarrow> requests w' = requests w \<and> waits w' = waits w \<and> commit_ch w' = commit_ch w \<and>
     spawned w' = spawned w \<and> metrics w' = metrics w"

lemma silent_refl [simp]: "silent w w" and silent_trans: "silent a b \<Longrightarrow> silent b d \<Longrightarrow> silent a d"
  by (auto simp: silent_def)

lemma fetch_counters:
  "fetchJSONWithMetrics b h d url m = (r, m') \<Longrightarrow> job_counters m' = job_counters m"
  by (auto simp: fetchJSONWithMetrics_def observeFetchLatency_def job_counters_def Let_def
      split: sum.splits if_splits)

lemma fetch_silent: "fetch env url w = (r, w') \<Longrightarrow> silent w w' \<and> waits w' = waits w"
  by (auto simp: fetch_def silent_def split: prod.splits dest: fetch_counters)

lemma fetch_requests:
  "fetch env url w = (r, w') \<Longrightarrow> requests w' = requests w \<or>
     (url_parse url \<noteq> None \<and> requests w' = requests w @ [\<lparr>req_url = url, req_agent = DefaultUserAgent\<rparr>])"
  by (cases "url_parse url") (auto simp: fetch_def new_request_def split: prod.splits)

lemma handleJob_frame:
  assumes "handleJob env job rules w = (r, w')"
  shows "silent w w'" and "waits w' = waits w" and "length (requests w') \<le> Suc (length (requests w))"
proof -
  have one: "silent w w' \<and> waits w' = waits w \<and> length (requests w') \<le> Suc (length (requests w))"
    if "fetch env url w = (x, w')" for url x
    using fetch_silent [OF that] fetch_requests [OF that] by auto
  have "silent w w' \<and> waits w' = waits w \<and> length (requests w') \<le> Suc (length (requests w))"
    using assms
    by (auto simp: handleJob_def handleSearch_def crawlAuthor_def crawlWork_def Let_def
        split: if_splits prod.splits sum.splits dest: one)
  then show "silent w w'" "waits w' = waits w" "length (requests w') \<le> Suc (length (requests w))"
    by auto
qed

section \<open>Retries\<close>

text \<open>The waits the loop may take: it doubles a positive delay and caps it.\<close>

definition cap_delay :: "worker \<Rightarrow> int \<Rightarrow> int" where
  "cap_delay c d = (if retryMaxDelay c > 0 \<and> d > retryMaxDelay c then retryMaxDelay c else d)"

fun delays :: "worker \<Rightarrow> nat \<Rightarrow> int \<Rightarrow> int list" where
  "delays c 0 d = []"
| "delays c (Suc n) d =
     (if d > 0 then cap_delay c d # delays c n (wrap64 (cap_delay c d * 2)) else [])"

text \<open>The branches of one round.\<close>

lemma retry_loop_branches:
  assumes "handleJob env job (robots c) w = (r1, w1)"
  shows "r1 = Inr n \<Longrightarrow> retry_loop env c job delay attempts w = (Inr n, w1)"
    and "r1 = Inl err \<Longrightarrow> attempts + 1 > retryMax c \<Longrightarrow>
      retry_loop env c job delay attempts w = (Inl err, w1)"
    and "r1 = Inl err \<Longrightarrow> attempts + 1 \<le> retryMax c \<Longrightarrow> delay \<le> 0 \<Longrightarrow>
      retry_loop env c job delay attempts w = retry_loop env c job delay (attempts + 1) w1"
    and "r1 = Inl err \<Longrightarrow> attempts + 1 \<le> retryMax c \<Longrightarrow> delay > 0 \<Longrightarrow>
      retry_loop env c job delay attempts w =
        (case ctx_err env (clock w1) of
           Some e \<Rightarrow> (Inl e, tick (w1\<lparr>waits := waits w1 @ [cap_delay c delay]\<rparr>))
         | None \<Rightarrow> retry_loop env c job (wrap64 (cap_delay c delay * 2)) (attempts + 1)
             (tick (w1\<lparr>waits := waits w1 @ [cap_delay c delay]\<rparr>)))"
  by (simp_all add: retry_loop.simps [of env c job delay attempts w] assms Let_def)
     (auto simp: cap_delay_def split: option.splits)

lemma retry_loop_bound:
  assumes "retry_loop env c job delay attempts w = (r, w')" and "attempts \<le> retryMax c"
  shows "silent w w' \<and>
    length (requests w') \<le> length (requests w) + Suc (nat (retryMax c - attempts)) \<and>
    (\<exists>ds. waits w' = waits w @ ds \<and> prefix ds (delays c (nat (retryMax c - attempts)) delay))"
  using assms
proof (induction "nat (retryMax c - attempts)" arbitrary: delay attempts w)
  case 0
  then have "attempts = retryMax c" by simp
  obtain r1 w1 where h: "handleJob env job (robots c) w = (r1, w1)" by (cases "handleJob env job (robots c) w")
  note F = handleJob_frame [OF h] and B = retry_loop_branches [OF h]
  have "w' = w1"
    using 0 \<open>attempts = retryMax c\<close> B(1) B(2) [of _ attempts] by (cases r1) auto
  with F show ?case by simp
next
  case (Suc n)
  obtain r1 w1 where h: "handleJob env job (robots c) w = (r1, w1)" by (cases "handleJob env job (robots c) w")
  note F = handleJob_frame [OF h] and B = retry_loop_branches [OF h]
  have m: "attempts + 1 \<le> retryMax c" "n = nat (retryMax c - (attempts + 1))" using Suc.hyps(2) by simp_all
  note sn = Suc.hyps(2) [symmetric]
  show ?case
  proof (cases r1)
    case (Inr nd)
    with B(1) Suc.prems F show ?thesis by simp
  next
    case (Inl err)
    show ?thesis
    proof (cases "delay > 0")
      case nowait: False
      with B(3) [OF Inl m(1)] Suc.prems(1)
      have "retry_loop env c job delay (attempts + 1) w1 = (r, w')" by simp
      from Suc.hyps(1) [OF m(2) this m(1)] F nowait show ?thesis
        by (cases n) (auto simp: sn m(2) [symmetric] intro: silent_trans)
    next
      case wait: True
      let ?d = "cap_delay c delay"
      let ?w2 = "tick (w1\<lparr>waits := waits w1 @ [?d]\<rparr>)"
      have s2: "silent w ?w2" using F(1) by (simp add: silent_def)
      show ?thesis
      proof (cases "ctx_err env (clock w1)")
        case (Some e)
        with B(4) [OF Inl m(1) wait] Suc.prems(1) have "w' = ?w2" by simp
        with s2 F wait show ?thesis by (simp add: sn)
      next
        case None
        with B(4) [OF Inl m(1) wait] Suc.prems(1)
        have "retry_loop env c job (wrap64 (?d * 2)) (attempts + 1) ?w2 = (r, w')" by simp
        from Suc.hyps(1) [OF m(2) this m(1)] F s2 wait show ?thesis
          by (auto simp: sn m(2) [symmetric] intro: silent_trans)
      qed
    qed
  qed
qed


lemma handleJobWithRetry_bound:
  assumes "handleJobWithRetry env c job w = (r, w')"
  shows "silent w w'"
    and "length (requests w') \<le> length (requests w) + Suc (nat (retryMax c))"
    and "\<exists>ds. waits w' = waits w @ ds \<and> prefix ds (delays c (nat (retryMax c)) (retryBase c))"
proof -
  have "silent w w' \<and> length (requests w') \<le> length (requests w) + Suc (nat (retryMax c)) \<and>
    (\<exists>ds. waits w' = waits w @ ds \<and> prefix ds (delays c (nat (retryMax c)) (retryBase c)))"
  proof (cases "retryMax c \<le> 0")
    case True
    then have "handleJob env job (robots c) w = (r, w')"
      using assms by (simp add: handleJobWithRetry_def)
    from handleJob_frame [OF this] True show ?thesis by simp
  next
    case False
    then have "retry_loop env c job (retryBase c) 0 w = (r, w')"
      using assms by (simp add: handleJobWithRetry_def)
    from retry_loop_bound [OF this] False show ?thesis by simp
  qed
  then show "silent w w'" "length (requests w') \<le> length (requests w) + Suc (nat (retryMax c))"
    "\<exists>ds. waits w' = waits w @ ds \<and> prefix ds (delays c (nat (retryMax c)) (retryBase c))"
    by auto
qed

text \<open>With a cap the k-th wait is the k-th power of two times the base, capped.\<close>

lemma delays_doubling:
  assumes "0 < d" and "0 < retryMaxDelay c" and "retryMaxDelay c \<le> 4611686018427387903"
  shows "delays c n d = map (\<lambda>k. min (d * 2 ^ k) (retryMaxDelay c)) [0..<n]"
  using assms(1)
proof (induction n arbitrary: d)
  case (Suc n)
  let ?d = "cap_delay c d"
  have d: "0 < ?d" "?d = min d (retryMaxDelay c)" using Suc.prems assms by (auto simp: cap_delay_def)
  have w: "wrap64 (?d * 2) = ?d * 2" using d assms by (intro wrap64_small) auto
  have eq: "min (?d * 2 * 2 ^ k) (retryMaxDelay c) = min (d * 2 ^ Suc k) (retryMaxDelay c)" for k
  proof (cases "d \<le> retryMaxDelay c")
    case True
    then show ?thesis by (simp add: d(2) mult.assoc)
  next
    case False
    have cap: "?d = retryMaxDelay c" using False d(2) by simp
    have A: "retryMaxDelay c \<le> retryMaxDelay c * (2 * 2 ^ k)"
      using mult_left_mono [OF one_le_power [of "2::int" "Suc k"], of "retryMaxDelay c"] assms(2) by simp
    have B: "retryMaxDelay c * (2 * 2 ^ k) \<le> d * (2 * 2 ^ k)"
      by (rule mult_right_mono) (use False in auto)
    have "retryMaxDelay c \<le> retryMaxDelay c * 2 * 2 ^ k" "retryMaxDelay c \<le> d * 2 ^ Suc k"
      using A order_trans [OF A B] by (simp_all only: mult.assoc power_Suc)
    then show ?thesis unfolding cap by (simp only: min_absorb2)
  qed
  have "delays c (Suc n) d = ?d # map (\<lambda>k. min (?d * 2 * 2 ^ k) (retryMaxDelay c)) [0..<n]"
    using Suc.prems d(1) by (simp add: w Suc.IH)
  also have "\<dots> = map (\<lambda>k. min (d * 2 ^ k) (retryMaxDelay c)) (0 # map Suc [0..<n])"
    unfolding list.map map_map o_def eq by (simp add: d(2))
  also have "0 # map Suc [0..<n] = [0..<Suc n]" by (simp add: map_Suc_upt upt_conv_Cons del: upt_Suc)
  finally show ?case .
qed simp


section \<open>Disallowed paths\<close>

definition fetch_path :: "crawl_job \<Rightarrow> string" where
  "fetch_path job =
     PathFromURL (if isSearchURL (job_url job) then job_url job else EnsureJSONURL (job_url job))"

lemma handleJob_disallowed:
  "\<not> Allowed rules (fetch_path job) \<Longrightarrow>
   handleJob env job rules w = (Inl (''robots.txt disallows path '' @ fetch_path job), w)"
  by (cases rules) (auto simp: handleJob_def fetch_path_def isSearchURL_def Let_def)

lemma retry_loop_disallowed:
  assumes "\<not> Allowed (robots c) (fetch_path job)"
  shows "requests (snd (retry_loop env c job delay attempts w)) = requests w \<and>
    (\<exists>e. fst (retry_loop env c job delay attempts w) = Inl e)"
proof (induction "nat (retryMax c - attempts)" arbitrary: attempts delay w rule: less_induct)
  case less
  note B = retry_loop_branches [OF handleJob_disallowed [OF assms]]
  show ?case
  proof (cases "attempts + 1 > retryMax c")
    case True
    with B(2) [OF refl True] show ?thesis by simp
  next
    case False
    then have smaller: "nat (retryMax c - (attempts + 1)) < nat (retryMax c - attempts)" by auto
    note IH = less [OF smaller]
    from False have more: "attempts + 1 \<le> retryMax c" by simp
    show ?thesis
    proof (cases "delay > 0")
      case True
      with B(4) [OF refl more True] IH show ?thesis by (auto split: option.splits)
    next
      case False
      with B(3) [OF refl more] IH show ?thesis by simp
    qed
  qed
qed

lemma handleJobWithRetry_disallowed:
  assumes "\<not> Allowed (robots c) (fetch_path job)"
  shows "requests (snd (handleJobWithRetry env c job w)) = requests w"
    and "\<exists>e. fst (handleJobWithRetry env c job w) = Inl e"
  using retry_loop_disallowed [OF assms] handleJob_disallowed [OF assms]
  by (simp_all add: handleJobWithRetry_def)

section \<open>Properties\<close>


text \<open>
  Exponential backoff: with a positive base delay and a positive cap (below 146 years)
  the k-th wait is the base times two to the k, but never more than the cap.
\<close>

lemma retry_backoff:
  assumes "0 < retryBase c" and "0 < retryMaxDelay c" and "retryMaxDelay c \<le> 4611686018427387903"
  shows "\<exists>n. n \<le> nat (retryMax c) \<and> waits (snd (handleJobWithRetry env c job w)) =
    waits w @ map (\<lambda>k. min (retryBase c * 2 ^ k) (retryMaxDelay c)) [0..<n]"
proof -
  obtain ds where ds: "waits (snd (handleJobWithRetry env c job w)) = waits w @ ds"
    "prefix ds (map (\<lambda>k. min (retryBase c * 2 ^ k) (retryMaxDelay c)) [0..<nat (retryMax c)])"
    using handleJobWithRetry_bound(3) [of env c job w] delays_doubling [OF assms]
    by (metis surjective_pairing)
  then have "ds = map (\<lambda>k. min (retryBase c * 2 ^ k) (retryMaxDelay c))
      (take (length ds) [0..<nat (retryMax c)])" "length ds \<le> nat (retryMax c)"
    by (auto simp: prefix_def take_map [symmetric])
       (metis append_eq_conv_conj length_map length_upt minus_nat.diff_0 append_assoc length_append le_add1)+
  with ds(1) show ?thesis by (metis take_upt add_0)
qed

definition default_worker :: worker where
  "default_worker = newWorker True True True True (seconds 86400) 3 3 200000000 (seconds 2) 5 (minutes 5) (seconds 90) None"

definition dead_env :: env where
  "dead_env = \<lparr>http = \<lambda>n r. No_Response ''down'', latency = \<lambda>n. 1, broker = \<lambda>n. None, now = \<lambda>n. zero_time,
     ctx_err = \<lambda>n. None, bad_url = \<lambda>u. u, json_err = \<lambda>b. b, time_err = \<lambda>t. []\<rparr>"

lemma default_worker_sel [simp]:
  "retryBase default_worker = 200000000" "retryMaxDelay default_worker = 2000000000"
  "retryMax default_worker = 3" "maxDepth default_worker = 3" "robots default_worker = None"
  "frontierWriter default_worker" "edgesWriter default_worker" "resultsWriter default_worker"
  "dlqWriter default_worker" "concurrentJobs default_worker = 5"
  by (simp_all add: default_worker_def newWorker_def Let_def)

lemma retry_backoff_witness:
  "\<exists>n. n \<le> 3 \<and> waits (snd (handleJobWithRetry dead_env default_worker zero_job new_world)) =
    waits new_world @ map (\<lambda>k. min (200000000 * 2 ^ k) 2000000000) [0..<n]"
  using retry_backoff [of default_worker dead_env zero_job new_world] by simp

definition robots_worker :: worker where
  "robots_worker = default_worker\<lparr>robots := Some [''/search'']\<rparr>"

definition search_job :: crawl_job where
  "search_job = zero_job\<lparr>job_session := ''s'', job_url := ''https://openlibrary.org/search.json''\<rparr>"

lemma search_job_url: "isSearchURL (job_url search_job)"
  "url_parse (job_url search_job) = Some \<lparr>u_scheme = ''https'', u_opaque = [],
     u_authority = ''openlibrary.org'', u_path = ''/search.json'', u_query = []\<rparr>"
proof -
  show "isSearchURL (job_url search_job)"
    by (simp add: isSearchURL_def search_job_def)
  show "url_parse (job_url search_job) = Some \<lparr>u_scheme = ''https'', u_opaque = [],
     u_authority = ''openlibrary.org'', u_path = ''/search.json'', u_query = []\<rparr>"
    using url_parse_site [of "''search.json''"]
    by (simp add: search_job_def is_unreserved_def is_alnum_def byte_in_def)
qed

lemma search_job_disallowed: "\<not> Allowed (robots robots_worker) (fetch_path search_job)"
proof -
  have "trim_space ''/search.json'' = ''/search.json''" by (rule trim_space_plain) simp_all
  then have "PathFromURL (job_url search_job) = ''/search.json''"
    by (simp add: PathFromURL_def search_job_url normalizePath_def)
  moreover have "normalizePath ''/search.json'' = ''/search.json''"
    using \<open>trim_space ''/search.json'' = ''/search.json''\<close> by (simp add: normalizePath_def)
  ultimately show ?thesis
    by (simp add: fetch_path_def search_job_url(1) robots_worker_def Allowed_Some)
qed

end
