(* ===== verification/Worker_Publish.thy ===== *)
theory Worker_Publish
  imports Worker_Retry
begin

text \<open>
  What the worker publishes. The expansion of a node has a plan, the edges and URLs it is to
  publish in order; the locale \<open>publisher\<close> is the contract of an action with such a plan, and every
  publishing function of the worker interprets it.
\<close>

section \<open>Plans\<close>

datatype publication = Pub_Edge edge | Pub_Job string

text \<open>Whether the frontier takes the job's successors: a writer, and depth left.\<close>

definition jobs_on :: "worker \<Rightarrow> crawl_job \<Rightarrow> bool" where
  "jobs_on c job \<longleftrightarrow> frontierWriter c \<and> \<not> (maxDepth c > 0 \<and> job_depth job \<ge> maxDepth c)"

primrec enabled :: "worker \<Rightarrow> crawl_job \<Rightarrow> publication \<Rightarrow> bool" where
  "enabled c job (Pub_Edge e) = edgesWriter c"
| "enabled c job (Pub_Job url) = jobs_on c job"

definition edge_of :: "crawl_job \<Rightarrow> string \<Rightarrow> string \<Rightarrow> string \<Rightarrow> publication" where
  "edge_of job frm to relation =
     Pub_Edge \<lparr>edge_session = job_session job, edge_from = frm, edge_to = to, edge_relation = relation\<rparr>"

definition record_url :: "string \<Rightarrow> string" where
  "record_url key = EnsureJSONURL (site @ key)"

primrec node_plan :: "crawl_job \<Rightarrow> node \<Rightarrow> publication list" where
  "node_plan job (Book b) =
     concat (map (\<lambda>k. [edge_of job (book_key b) k ''book_author'', Pub_Job (record_url k)]) (book_authors b)) @
     concat (map (\<lambda>k. [edge_of job (book_key b) k ''book_work'', Pub_Job (record_url k)]) (book_works b)) @
     concat (map (\<lambda>s. [Pub_Job (SearchSubjectURL s), edge_of job (book_key b) (''subject:'' @ s) ''book_subject''])
       (book_subjects b))"
| "node_plan job (Work nd) =
     concat (map (\<lambda>k. [edge_of job (work_key nd) k ''work_author'', Pub_Job (record_url k)]) (work_authors nd)) @
     concat (map (\<lambda>s. [Pub_Job (SearchSubjectURL s), edge_of job (work_key nd) (''subject:'' @ s) ''work_subject''])
       (work_subjects nd))"
| "node_plan job (Author a) = (if author_name a = [] then [] else [Pub_Job (SearchAuthorURL (author_name a))])"

definition search_plan :: "crawl_job \<Rightarrow> search_doc list \<Rightarrow> publication list" where
  "search_plan job docs =
     concat (map (\<lambda>d. if doc_key d = [] then []
       else [Pub_Job (record_url (doc_key d)), edge_of job (job_url job) (doc_key d) ''search_work'']) docs)"

text \<open>A write that carries out a publication: topic, key and payload.\<close>

fun carries :: "crawl_job \<Rightarrow> publication \<Rightarrow> topic \<times> kafka_message \<times> go_error option \<Rightarrow> bool" where
  "carries job (Pub_Edge e) (tp, msg, err) =
     (tp = Edges \<and> msg_key msg = job_session job \<and> marshal enc_edge e = Some (msg_value msg))"
| "carries job (Pub_Job url) (tp, msg, err) =
     (tp = Frontier \<and> msg_key msg = job_session job \<and>
      (\<exists>t. marshal enc_job (next_job job url t) = Some (msg_value msg)))"

definition delivered :: "(topic \<times> kafka_message \<times> go_error option) list \<Rightarrow> bool" where
  "delivered ws \<longleftrightarrow> list_all (\<lambda>(tp, msg, err). err = None) ws"

lemma delivered_simps [simp]:
  "delivered []" "delivered (x # ws) \<longleftrightarrow> snd (snd x) = None \<and> delivered ws"
  "delivered (ws @ vs) \<longleftrightarrow> delivered ws \<and> delivered vs"
  by (auto simp: delivered_def case_prod_beta)

section \<open>The contract of a publishing action\<close>

text \<open>
  \<open>publisher job ps act\<close>: without an error the action carries out the whole plan and every write
  succeeds; with an error it stops after a part of the plan of which at most the last write
  failed. Nothing else of the world changes but the clock.
\<close>

locale publisher =
  fixes job :: crawl_job and ps :: "publication list" and act :: "world act"
  assumes frame: "only_writes w (snd (act w))"
    and complete: "fst (act w) = None \<Longrightarrow>
      \<exists>ws. writes (snd (act w)) = writes w @ ws \<and> list_all2 (carries job) ps ws \<and> delivered ws"
    and partial: "fst (act w) = Some e \<Longrightarrow>
      \<exists>ws. writes (snd (act w)) = writes w @ ws \<and> length ws \<le> length ps \<and>
        list_all2 (carries job) (take (length ws) ps) ws \<and> delivered (butlast ws)"
begin

lemma writes_follow_plan:
  "\<exists>ws. writes (snd (act w)) = writes w @ ws \<and> length ws \<le> length ps \<and>
    list_all2 (carries job) (take (length ws) ps) ws \<and> delivered (butlast ws) \<and>
    (fst (act w) = None \<longrightarrow> length ws = length ps \<and> delivered ws)"
proof (cases "fst (act w)")
  case None
  from complete [OF this] obtain ws where ws: "writes (snd (act w)) = writes w @ ws"
    "list_all2 (carries job) ps ws" "delivered ws" by blast
  have "delivered (butlast ws)"
    using ws(3) by (cases ws rule: rev_cases) auto
  with ws list_all2_lengthD [OF ws(2)] show ?thesis by auto
next
  case (Some e)
  with partial [OF Some] show ?thesis by auto
qed

lemma empty_plan: "ps = [] \<Longrightarrow> writes (snd (act w)) = writes w"
  using writes_follow_plan [of w] by auto

end

lemma only_writes_refl [simp]: "only_writes w w"
  by (simp add: only_writes_def)

lemma only_writes_trans: "only_writes a b \<Longrightarrow> only_writes b d \<Longrightarrow> only_writes a d"
  by (simp add: only_writes_def)

lemma publisher_skip: "publisher job [] skip"
  by unfold_locales (simp_all add: skip_apply)

lemma publisher_and_then:
  assumes a: "publisher job ps a" and b: "publisher job qs b"
  shows "publisher job (ps @ qs) (and_then a b)"
proof
  fix w e
  obtain ea wa where aw: "a w = (ea, wa)" by (cases "a w")
  obtain eb wb where bw: "b wa = (eb, wb)" by (cases "b wa")
  note A = publisher.frame [OF a, of w] publisher.complete [OF a, of w] publisher.partial [OF a, of w]
  note B = publisher.frame [OF b, of wa] publisher.complete [OF b, of wa] publisher.partial [OF b, of wa]
  show "only_writes w (snd (and_then a b w))"
    using A(1) B(1) by (auto simp: and_then_def aw bw split: option.splits intro: only_writes_trans)
  show "\<exists>ws. writes (snd (and_then a b w)) = writes w @ ws \<and> list_all2 (carries job) (ps @ qs) ws \<and> delivered ws"
    if "fst (and_then a b w) = None"
  proof -
    from that have n: "ea = None" "eb = None" by (auto simp: and_then_def aw bw split: option.splits)
    with A(2) aw obtain ws where "writes wa = writes w @ ws" "list_all2 (carries job) ps ws" "delivered ws" by auto
    moreover from n B(2) bw obtain vs where "writes wb = writes wa @ vs" "list_all2 (carries job) qs vs" "delivered vs"
      by auto
    ultimately show ?thesis
      using n by (intro exI [of _ "ws @ vs"]) (simp add: and_then_def aw bw list_all2_appendI)
  qed
  show "\<exists>ws. writes (snd (and_then a b w)) = writes w @ ws \<and> length ws \<le> length (ps @ qs) \<and>
      list_all2 (carries job) (take (length ws) (ps @ qs)) ws \<and> delivered (butlast ws)"
    if e: "fst (and_then a b w) = Some e"
  proof (cases ea)
    case (Some e1)
    with A(3) aw obtain ws where "writes wa = writes w @ ws" "length ws \<le> length ps"
      "list_all2 (carries job) (take (length ws) ps) ws" "delivered (butlast ws)" by auto
    then show ?thesis using Some by (auto simp: and_then_def aw)
  next
    case None
    with e have eb: "eb = Some e" by (simp add: and_then_def aw bw)
    from None A(2) aw obtain ws where ws: "writes wa = writes w @ ws" "list_all2 (carries job) ps ws" "delivered ws"
      by auto
    from eb B(3) bw obtain vs where vs: "writes wb = writes wa @ vs" "length vs \<le> length qs"
      "list_all2 (carries job) (take (length vs) qs) vs" "delivered (butlast vs)" by auto
    have "delivered (butlast (ws @ vs))"
      using ws(3) vs(4) by (cases vs rule: rev_cases; cases ws rule: rev_cases) (auto simp: butlast_append)
    moreover have "length ws = length ps" using list_all2_lengthD [OF ws(2)] by simp
    ultimately show ?thesis
      using None ws vs by (intro exI [of _ "ws @ vs"]) (simp add: and_then_def aw bw list_all2_appendI)
  qed
qed

lemma publisher_for_each:
  "(\<And>x. x \<in> set xs \<Longrightarrow> publisher job (f x) (act x)) \<Longrightarrow>
   publisher job (concat (map f xs)) (for_each act xs)"
  by (induction xs) (simp_all add: publisher_skip publisher_and_then)

section \<open>The publishing functions\<close>

lemma write_message_sel:
  "write_message env tp msg w =
     (broker env (clock w), tick (w\<lparr>writes := writes w @ [(tp, msg, broker env (clock w))]\<rparr>))"
  by (simp add: write_message_def Let_def)

lemma new_message_sel [simp]: "msg_key (new_message k v t) = k" "msg_value (new_message k v t) = v"
  by (simp_all add: new_message_def)

lemma marshal_edge [simp]: "\<exists>v. marshal enc_edge e = Some v"
  by (simp add: marshal_def enc_edge_def)

abbreviation planned :: "worker \<Rightarrow> crawl_job \<Rightarrow> publication list \<Rightarrow> publication list" where
  "planned c job ps \<equiv> filter (enabled c job) ps"

interpretation edge_pub: publisher job "planned c job [edge_of job frm to rel]" "publishEdge env c job frm to rel"
  for env c job frm to rel
proof
  fix w :: world and e
  let ?e = "\<lparr>edge_session = job_session job, edge_from = frm, edge_to = to, edge_relation = rel\<rparr>"
  obtain v where v: "marshal enc_edge ?e = Some v" using marshal_edge by blast
  show "only_writes w (snd (publishEdge env c job frm to rel w))"
    by (simp add: publishEdge_def publish_def v write_message_sel only_writes_def)
  show "\<exists>ws. writes (snd (publishEdge env c job frm to rel w)) = writes w @ ws \<and>
      list_all2 (carries job) (planned c job [edge_of job frm to rel]) ws \<and> delivered ws"
    if "fst (publishEdge env c job frm to rel w) = None"
    using that by (auto simp: publishEdge_def publish_def v write_message_sel edge_of_def split: if_splits)
  show "\<exists>ws. writes (snd (publishEdge env c job frm to rel w)) = writes w @ ws \<and>
      length ws \<le> length (planned c job [edge_of job frm to rel]) \<and>
      list_all2 (carries job) (take (length ws) (planned c job [edge_of job frm to rel])) ws \<and> delivered (butlast ws)"
    if "fst (publishEdge env c job frm to rel w) = Some e"
    using that by (auto simp: publishEdge_def publish_def v write_message_sel edge_of_def split: if_splits)
qed

lemma enqueue_cases:
  "enqueueURLToFronter env c job url w =
     (if jobs_on c job then
        publish env Frontier (job_session job) (time_err env (now env (clock w)))
          (marshal enc_job (next_job job url (now env (clock w)))) (tick w)
      else (None, w))"
  by (auto simp: enqueueURLToFronter_def jobs_on_def Let_def)

interpretation frontier_pub: publisher job "planned c job [Pub_Job url]" "enqueueURLToFronter env c job url"
  for env c job url
proof
  fix w :: world and e
  let ?t = "now env (clock w)"
  let ?m = "marshal enc_job (next_job job url ?t)"
  show "only_writes w (snd (enqueueURLToFronter env c job url w))"
    by (cases ?m) (simp_all add: enqueue_cases publish_def write_message_sel only_writes_def)
  show "\<exists>ws. writes (snd (enqueueURLToFronter env c job url w)) = writes w @ ws \<and>
      list_all2 (carries job) (planned c job [Pub_Job url]) ws \<and> delivered ws"
    if "fst (enqueueURLToFronter env c job url w) = None"
    using that by (cases ?m) (auto simp: enqueue_cases publish_def write_message_sel split: if_splits)
  show "\<exists>ws. writes (snd (enqueueURLToFronter env c job url w)) = writes w @ ws \<and>
      length ws \<le> length (planned c job [Pub_Job url]) \<and>
      list_all2 (carries job) (take (length ws) (planned c job [Pub_Job url])) ws \<and> delivered (butlast ws)"
    if "fst (enqueueURLToFronter env c job url w) = Some e"
    using that by (cases ?m) (auto simp: enqueue_cases publish_def write_message_sel split: if_splits)
qed

lemma planned_pair: "planned c job [x, y] = planned c job [x] @ planned c job [y]"
  by simp

lemma publisher_edge_job:
  "publisher job (planned c job [edge_of job frm to rel, Pub_Job url])
     (and_then (publishEdge env c job frm to rel) (enqueueURLToFronter env c job url))"
  unfolding planned_pair by (intro publisher_and_then edge_pub.publisher_axioms frontier_pub.publisher_axioms)

lemma publisher_job_edge:
  "publisher job (planned c job [Pub_Job url, edge_of job frm to rel])
     (and_then (enqueueURLToFronter env c job url) (publishEdge env c job frm to rel))"
  unfolding planned_pair by (intro publisher_and_then edge_pub.publisher_axioms frontier_pub.publisher_axioms)

lemma planned_concat_map:
  "planned c job (concat (map f xs)) = concat (map (\<lambda>x. planned c job (f x)) xs)"
  by (simp add: filter_concat o_def)

interpretation node_pub: publisher job "planned c job (node_plan job n)"
    "case n of Book b \<Rightarrow> expandBook env c job b | Work nd \<Rightarrow> expandWork env c job nd
     | Author a \<Rightarrow> expandAuthor env c job a"
  for env c job n
proof (cases n)
  case (Book b)
  then show "publisher job (planned c job (node_plan job n))
      (case n of Book b \<Rightarrow> expandBook env c job b | Work nd \<Rightarrow> expandWork env c job nd
       | Author a \<Rightarrow> expandAuthor env c job a)"
    by (simp only: node.case node_plan.simps expandBook_def filter_append planned_concat_map record_url_def)
       (intro publisher_and_then publisher_for_each publisher_edge_job publisher_job_edge)
next
  case (Work nd)
  then show "publisher job (planned c job (node_plan job n))
      (case n of Book b \<Rightarrow> expandBook env c job b | Work nd \<Rightarrow> expandWork env c job nd
       | Author a \<Rightarrow> expandAuthor env c job a)"
    by (simp only: node.case node_plan.simps expandWork_def filter_append planned_concat_map record_url_def)
       (intro publisher_and_then publisher_for_each publisher_edge_job publisher_job_edge)
next
  case (Author a)
  then show "publisher job (planned c job (node_plan job n))
      (case n of Book b \<Rightarrow> expandBook env c job b | Work nd \<Rightarrow> expandWork env c job nd
       | Author a \<Rightarrow> expandAuthor env c job a)"
    by (simp add: expandAuthor_def publisher_skip frontier_pub.publisher_axioms [simplified])
qed

lemma search_pub:
  "publisher job (planned c job (search_plan job docs))
     (for_each (\<lambda>doc. if doc_key doc = [] then skip
        else and_then (enqueueURLToFronter env c job (EnsureJSONURL (site @ doc_key doc)))
          (publishEdge env c job (job_url job) (doc_key doc) ''search_work'')) docs)"
  unfolding search_plan_def planned_concat_map record_url_def
  by (rule publisher_for_each) (simp add: publisher_skip publisher_job_edge [simplified])

section \<open>Every message of a job\<close>

text \<open>What a job may write to each topic.\<close>

fun legit :: "worker \<Rightarrow> crawl_job \<Rightarrow> topic \<times> kafka_message \<times> go_error option \<Rightarrow> bool" where
  "legit c job (Frontier, msg, err) =
     (msg_key msg = job_session job \<and> jobs_on c job \<and>
      (\<exists>u t. marshal enc_job (next_job job u t) = Some (msg_value msg)))"
| "legit c job (Edges, msg, err) =
     (msg_key msg = job_session job \<and> edgesWriter c \<and>
      (\<exists>e. edge_session e = job_session job \<and> marshal enc_edge e = Some (msg_value msg)))"
| "legit c job (Results, msg, err) =
     (msg_key msg = job_session job \<and> resultsWriter c \<and>
      (\<exists>n. NewCrawlResult job n = Some (msg_value msg)))"
| "legit c job (DLQ, msg, err) =
     (msg_key msg = job_session job \<and> dlqWriter c \<and>
      (\<exists>e t. marshal enc_failure
         \<lparr>fail_session = job_session job, fail_seed = job_seed job, fail_url = job_url job,
          fail_depth = job_depth job, fail_error = e, fail_at = t\<rparr> = Some (msg_value msg)))"

definition graph_write :: "worker \<Rightarrow> crawl_job \<Rightarrow> topic \<times> kafka_message \<times> go_error option \<Rightarrow> bool" where
  "graph_write c job x \<longleftrightarrow> legit c job x \<and> fst x \<in> {Edges, Frontier}"

definition emits ::
  "(topic \<times> kafka_message \<times> go_error option \<Rightarrow> bool) \<Rightarrow> world \<Rightarrow> world \<Rightarrow> bool" where
  "emits P w w' \<longleftrightarrow> (\<exists>ws. writes w' = writes w @ ws \<and> list_all P ws) \<and>
     commit_ch w' = commit_ch w \<and> spawned w' = spawned w \<and>
     job_counters (metrics w') = job_counters (metrics w)"

lemma emits_refl [simp]: "emits P w w"
  by (auto simp: emits_def)

lemma emits_trans: "emits P a b \<Longrightarrow> emits P b d \<Longrightarrow> emits P a d"
  by (fastforce simp: emits_def)

lemma emits_mono: "emits P a b \<Longrightarrow> (\<And>x. P x \<Longrightarrow> Q x) \<Longrightarrow> emits Q a b"
  by (fastforce simp: emits_def list_all_iff)

lemma silent_emits: "silent a b \<Longrightarrow> emits P a b"
  by (auto simp: silent_def emits_def)

lemma tick_emits [simp]: "emits P w (tick w') = emits P w w'" "emits P (tick w) w' = emits P w w'"
  by (simp_all add: emits_def)

lemma edge_emits: "emits (graph_write c job) w (snd (publishEdge env c job frm to rel w))"
proof -
  obtain v where "marshal enc_edge
      \<lparr>edge_session = job_session job, edge_from = frm, edge_to = to, edge_relation = rel\<rparr> = Some v"
    using marshal_edge by blast
  then show ?thesis
    by (auto simp: publishEdge_def publish_def write_message_sel emits_def graph_write_def)
       (metis edge.select_convs(1))
qed

lemma enqueue_emits: "emits (graph_write c job) w (snd (enqueueURLToFronter env c job url w))"
  by (cases "marshal enc_job (next_job job url (now env (clock w)))")
     (auto simp: enqueue_cases publish_def write_message_sel emits_def graph_write_def)

lemma and_then_emits:
  "(\<And>w. emits P w (snd (a w))) \<Longrightarrow> (\<And>w. emits P w (snd (b w))) \<Longrightarrow> emits P w (snd (and_then a b w))"
  by (rule and_then_rel [of a "emits P" b w "fst (and_then a b w)"])
     (auto intro: emits_trans, metis snd_conv, metis snd_conv)

lemma for_each_emits:
  assumes "\<And>x w. x \<in> set xs \<Longrightarrow> emits P w (snd (f x w))"
  shows "emits P w (snd (for_each f xs w))"
  by (rule for_each_rel [of xs f "emits P" w "fst (for_each f xs w)"])
     (use assms in \<open>auto intro: emits_trans, metis snd_conv\<close>)

lemmas graph_emits = edge_emits enqueue_emits and_then_emits for_each_emits

lemma expand_emits:
  "emits (graph_write c job) w (snd (publishEdgesAndFrontier env c job n w))"
proof (cases "isSearchURL (job_url job)")
  case True
  obtain r w1 where f: "fetch env (job_url job) w = (r, w1)" by (cases "fetch env (job_url job) w")
  then have w1: "emits P w w1" for P using fetch_silent [OF f] by (simp add: silent_emits)
  show ?thesis
  proof (cases r)
    case (Inl e)
    with True f w1 show ?thesis by (simp add: publishEdgesAndFrontier_def expandSearch_def)
  next
    case (Inr body)
    show ?thesis
    proof (cases "ParseSearchResponse (json_err env) body")
      case (Inl e)
      with True f w1 Inr show ?thesis by (simp add: publishEdgesAndFrontier_def expandSearch_def)
    next
      case resp: (Inr resp)
      let ?loop = "for_each (\<lambda>doc. if doc_key doc = [] then skip
        else and_then (enqueueURLToFronter env c job (EnsureJSONURL (site @ doc_key doc)))
          (publishEdge env c job (job_url job) (doc_key doc) ''search_work'')) (search_docs resp)"
      have "emits (graph_write c job) w1 (snd (?loop w1))"
        by (rule for_each_emits) (auto simp: skip_apply intro: graph_emits)
      from emits_trans [OF w1 this] True f Inr resp show ?thesis
        by (simp add: publishEdgesAndFrontier_def expandSearch_def)
    qed
  qed
next
  case False
  show ?thesis
  proof (cases n)
    case None
    with False show ?thesis by (simp add: publishEdgesAndFrontier_def skip_apply)
  next
    case (Some nd)
    with False show ?thesis
      by (cases nd)
         (auto simp: publishEdgesAndFrontier_def expandBook_def expandWork_def expandAuthor_def skip_apply
           intro!: graph_emits)
  qed
qed

text \<open>The first part of a job: its handler, and the failure message if that failed.\<close>

definition failure_write :: "worker \<Rightarrow> crawl_job \<Rightarrow> topic \<times> kafka_message \<times> go_error option \<Rightarrow> bool" where
  "failure_write c job x \<longleftrightarrow> legit c job x \<and> fst x = DLQ"

definition result_write :: "worker \<Rightarrow> crawl_job \<Rightarrow> topic \<times> kafka_message \<times> go_error option \<Rightarrow> bool" where
  "result_write c job x \<longleftrightarrow> legit c job x \<and> fst x = Results"

lemma publishDLQ_writes:
  "\<exists>ws. writes (snd (publishDLQ env c job e w)) = writes w @ ws \<and> length ws \<le> 1 \<and>
     list_all (failure_write c job) ws \<and> commit_ch (snd (publishDLQ env c job e w)) = commit_ch w \<and>
     spawned (snd (publishDLQ env c job e w)) = spawned w \<and>
     requests (snd (publishDLQ env c job e w)) = requests w \<and>
     metrics (snd (publishDLQ env c job e w)) = metrics w"
  by (auto simp: publishDLQ_def publish_def write_message_sel failure_write_def Let_def split: option.splits)

lemma publishResult_writes:
  "\<exists>ws. writes (snd (publishResult env c job n w)) = writes w @ ws \<and>
     length ws \<le> (if n = None then 0 else 1) \<and> list_all (result_write c job) ws \<and>
     commit_ch (snd (publishResult env c job n w)) = commit_ch w \<and>
     spawned (snd (publishResult env c job n w)) = spawned w \<and>
     requests (snd (publishResult env c job n w)) = requests w \<and>
     metrics (snd (publishResult env c job n w)) = metrics w"
  by (auto simp: publishResult_def publish_def write_message_sel result_write_def skip_apply
      split: option.splits)

text \<open>
  \<open>outcome_shape c job res ws\<close>: the writes of a job with outcome \<open>res\<close>, first the message about the
  outcome, if any, then what the expansion writes.
\<close>

definition outcome_shape ::
  "worker \<Rightarrow> crawl_job \<Rightarrow> go_error + node option \<Rightarrow> (topic \<times> kafka_message \<times> go_error option) list \<Rightarrow> bool" where
  "outcome_shape c job res ws \<longleftrightarrow>
     (\<exists>first rest. ws = first @ rest \<and> list_all (graph_write c job) rest \<and>
        (case res of
           Inl e \<Rightarrow> length first \<le> 1 \<and> list_all (failure_write c job) first
         | Inr None \<Rightarrow> first = []
         | Inr (Some n) \<Rightarrow> length first \<le> 1 \<and> list_all (result_write c job) first))"

text \<open>The counters after a job: one more success or one more failure.\<close>

definition counted :: "go_error + node option \<Rightarrow> worker_metrics \<Rightarrow> worker_metrics \<Rightarrow> bool" where
  "counted res m m' \<longleftrightarrow>
     job_counters m' = ((jobsReceived m, jobsSkipped m),
       (case res of Inl e \<Rightarrow> (jobsSuccess m, jobsFailed m + 1) | Inr n \<Rightarrow> (jobsSuccess m + 1, jobsFailed m)),
       inFlight m)"

lemma process_body_writes:
  "\<exists>ws. writes (process_body env c job w) = writes w @ ws \<and>
     outcome_shape c job (fst (handleJobWithRetry env c job w)) ws \<and>
     commit_ch (process_body env c job w) = commit_ch w \<and> spawned (process_body env c job w) = spawned w \<and>
     counted (fst (handleJobWithRetry env c job w)) (metrics w) (metrics (process_body env c job w))"
proof -
  obtain res w1 where h: "handleJobWithRetry env c job w = (res, w1)" by (cases "handleJobWithRetry env c job w")
  have s1: "silent w w1" by (rule handleJobWithRetry_bound(1) [OF h])
  show ?thesis
  proof (cases res)
    case (Inl e)
    let ?w2 = "snd (publishDLQ env c job e (count (\<lambda>m. m\<lparr>jobsFailed := jobsFailed m + 1\<rparr>) w1))"
    obtain ws where ws: "writes ?w2 = writes w @ ws" "length ws \<le> 1" "list_all (failure_write c job) ws"
      "commit_ch ?w2 = commit_ch w" "spawned ?w2 = spawned w" "counted (Inl e) (metrics w) (metrics ?w2)"
      using publishDLQ_writes [of env c job e "count (\<lambda>m. m\<lparr>jobsFailed := jobsFailed m + 1\<rparr>) w1"] s1
      by (auto simp: silent_def counted_def job_counters_def)
    have "emits (graph_write c job) ?w2 (process_body env c job w)"
      using expand_emits [of c job "tick (tick ?w2)" env None]
      by (simp add: process_body_def h Inl publishResult_def skip_apply Let_def)
    then obtain vs where "writes (process_body env c job w) = writes ?w2 @ vs" "list_all (graph_write c job) vs"
      "commit_ch (process_body env c job w) = commit_ch ?w2" "spawned (process_body env c job w) = spawned ?w2"
      "job_counters (metrics (process_body env c job w)) = job_counters (metrics ?w2)"
      by (auto simp: emits_def)
    with ws show ?thesis
      by (intro exI [of _ "ws @ vs"]) (auto simp: outcome_shape_def counted_def h Inl)
  next
    case (Inr n)
    let ?w2 = "count (\<lambda>m. m\<lparr>jobsSuccess := jobsSuccess m + 1\<rparr>) w1"
    let ?w3 = "snd (publishResult env c job n (tick ?w2))"
    obtain ws where ws: "writes ?w3 = writes w @ ws" "length ws \<le> (if n = None then 0 else 1)"
      "list_all (result_write c job) ws" "commit_ch ?w3 = commit_ch w" "spawned ?w3 = spawned w"
      "counted (Inr n) (metrics w) (metrics ?w3)"
      using publishResult_writes [of env c job n "tick ?w2"] s1
      by (auto simp: silent_def counted_def job_counters_def)
    show ?thesis
    proof (cases "ctx_err env (clock ?w2)")
      case (Some x)
      with s1 show ?thesis
        by (intro exI [of _ "[]"])
           (auto simp: process_body_def h Inr silent_def outcome_shape_def counted_def job_counters_def Let_def
             split: option.splits)
    next
      case None
      have "emits (graph_write c job) ?w3 (process_body env c job w)"
        using expand_emits [of c job "tick ?w3" env n] None
        by (simp add: process_body_def h Inr Let_def)
      then obtain vs where "writes (process_body env c job w) = writes ?w3 @ vs" "list_all (graph_write c job) vs"
        "commit_ch (process_body env c job w) = commit_ch ?w3" "spawned (process_body env c job w) = spawned ?w3"
        "job_counters (metrics (process_body env c job w)) = job_counters (metrics ?w3)"
        by (auto simp: emits_def)
      moreover have "outcome_shape c job (Inr n) (ws @ vs)"
        unfolding outcome_shape_def using ws(2,3) calculation(2)
        by (intro exI [of _ ws] exI [of _ vs]) (cases n; simp)
      ultimately show ?thesis
        using ws by (intro exI [of _ "ws @ vs"]) (simp add: h Inr counted_def)
    qed
  qed
qed

section \<open>Properties\<close>

text \<open>
  Claim C7. Expanding a node carries out its plan: the edges and successor jobs are written in
  the order of the plan, only those the configuration and the depth allow, each with the
  session as key; a failed write ends the expansion, and without an error the plan is complete.
  Nothing else changes.
\<close>

theorem expansion_follows_plan:
  assumes "\<not> isSearchURL (job_url job)"
  shows "(\<exists>ws. writes (snd (publishEdgesAndFrontier env c job (Some n) w)) = writes w @ ws \<and>
      length ws \<le> length (planned c job (node_plan job n)) \<and>
      list_all2 (carries job) (take (length ws) (planned c job (node_plan job n))) ws \<and>
      delivered (butlast ws) \<and>
      (fst (publishEdgesAndFrontier env c job (Some n) w) = None \<longrightarrow>
        length ws = length (planned c job (node_plan job n)) \<and> delivered ws)) \<and>
    only_writes w (snd (publishEdgesAndFrontier env c job (Some n) w))"
proof -
  have eq: "publishEdgesAndFrontier env c job (Some n) =
      (case n of Book b \<Rightarrow> expandBook env c job b | Work nd \<Rightarrow> expandWork env c job nd
       | Author a \<Rightarrow> expandAuthor env c job a)"
    using assms by (simp add: publishEdgesAndFrontier_def)
  show ?thesis
    unfolding eq by (intro conjI node_pub.writes_follow_plan node_pub.frame)
qed

theorem expansion_follows_plan_witness:
  "only_writes new_world
     (snd (publishEdgesAndFrontier dead_env default_worker zero_job (Some sample_author) new_world)) \<and>
   planned default_worker zero_job (node_plan zero_job sample_author) = [Pub_Job (SearchAuthorURL ''Ada'')]"
  using expansion_follows_plan [of zero_job dead_env default_worker sample_author new_world]
  by (simp add: isSearchURL_def zero_job_def sample_author_def zero_author_def jobs_on_def)

text \<open>
  Claim C6. Every job ends the same way, whatever fails on the way: its message is sent to the
  commit coordinator exactly once, one of the two outcome counters goes up by one, the in-flight
  gauge goes down by one, and the messages it wrote are first at most one about the outcome (to
  the dead-letter topic for a failure, to the results for a node) and then only edges and
  successor jobs of its own session, with one more level of depth.
\<close>

theorem job_outcome:
  "\<exists>ws. writes (processJobAsync env c msg job w) = writes w @ ws \<and>
     outcome_shape c job (fst (handleJobWithRetry env c job w)) ws \<and>
     commit_ch (processJobAsync env c msg job w) = commit_ch w @ [msg] \<and>
     spawned (processJobAsync env c msg job w) = spawned w \<and>
     job_counters (metrics (processJobAsync env c msg job w)) =
       ((jobsReceived (metrics w), jobsSkipped (metrics w)),
        (case fst (handleJobWithRetry env c job w) of
           Inl e \<Rightarrow> (jobsSuccess (metrics w), jobsFailed (metrics w) + 1)
         | Inr n \<Rightarrow> (jobsSuccess (metrics w) + 1, jobsFailed (metrics w))),
        inFlight (metrics w) - 1)"
proof -
  obtain ws where "writes (process_body env c job w) = writes w @ ws"
    "outcome_shape c job (fst (handleJobWithRetry env c job w)) ws"
    "commit_ch (process_body env c job w) = commit_ch w" "spawned (process_body env c job w) = spawned w"
    "counted (fst (handleJobWithRetry env c job w)) (metrics w) (metrics (process_body env c job w))"
    using process_body_writes by blast
  then show ?thesis
    by (intro exI [of _ ws]) (simp add: processJobAsync_def counted_def job_counters_def Let_def)
qed

text \<open>The jobs a crawl can reach from a seed: those read from the frontier messages of a job.\<close>

inductive crawled :: "worker \<Rightarrow> crawl_job \<Rightarrow> crawl_job \<Rightarrow> bool" for c :: worker and seed :: crawl_job where
  crawled_seed: "crawled c seed seed"
| crawled_next: "crawled c seed job \<Longrightarrow> writes (processJobAsync env c msg job w) = writes w @ ws \<Longrightarrow>
    (Frontier, m, err) \<in> set ws \<Longrightarrow> unmarshal (dec_struct job_fields) zero_job (msg_value m) = Some job' \<Longrightarrow>
    crawled c seed job'"

inductive_cases crawled_nextE: "crawled c seed job"

lemma outcome_legit: "outcome_shape c job res ws \<Longrightarrow> list_all (legit c job) ws"
proof -
  assume "outcome_shape c job res ws"
  then obtain first rest where ws: "ws = first @ rest" "list_all (graph_write c job) rest"
    and o1: "case res of
           Inl e \<Rightarrow> length first \<le> 1 \<and> list_all (failure_write c job) first
         | Inr None \<Rightarrow> first = []
         | Inr (Some n) \<Rightarrow> length first \<le> 1 \<and> list_all (result_write c job) first"
    unfolding outcome_shape_def by blast
  from o1 have "list_all (legit c job) first"
    by (auto simp: list_all_iff failure_write_def result_write_def split: sum.splits option.splits)
  with ws show ?thesis by (auto simp: list_all_iff graph_write_def)
qed

lemma frontier_message_job:
  assumes "writes (processJobAsync env c msg job w) = writes w @ ws" and "(Frontier, m, err) \<in> set ws"
    and "unmarshal (dec_struct job_fields) zero_job (msg_value m) = Some job'"
  shows "jobs_on c job" and "job_depth job' = succ64 (job_depth job)"
proof -
  obtain vs where "writes (process_body env c job w) = writes w @ vs"
    "outcome_shape c job (fst (handleJobWithRetry env c job w)) vs"
    using process_body_writes by blast
  with assms(1) have "list_all (legit c job) ws"
    by (auto simp: processJobAsync_def Let_def intro: outcome_legit)
  with assms(2) have l: "legit c job (Frontier, m, err)" by (auto simp: list_all_iff)
  then show "jobs_on c job" by simp
  from l obtain u t where "marshal enc_job (next_job job u t) = Some (msg_value m)" by auto
  from job_reread [OF _ this assms(3)] show "job_depth job' = succ64 (job_depth job)"
    by (simp add: next_job_def succ64_in)
qed

text \<open>
  Claim C15. The crawl is bounded in depth: with a positive \<open>MAX_DEPTH\<close> every job reachable from a
  seed of depth 0, through any number of workers' frontier messages, has a depth between 0 and
  \<open>MAX_DEPTH\<close>.
\<close>

theorem crawl_depth_bounded:
  assumes "crawled c seed job" and "job_depth seed = 0" and "0 < maxDepth c" and "in_int64 (maxDepth c)"
  shows "0 \<le> job_depth job \<and> job_depth job \<le> maxDepth c"
  using assms(1)
proof (induction rule: crawled.induct)
  case crawled_seed
  with assms(2,3) show ?case by simp
next
  case (crawled_next job env msg w ws m err job')
  from frontier_message_job [OF crawled_next.hyps(2-4)] crawled_next.IH assms(3,4) show ?case
    by (auto simp: jobs_on_def succ64_def in_int64_iff)
qed

definition author_env :: env where
  "author_env = dead_env\<lparr>http := \<lambda>n r. Response 200 (Inr (json_text (record_json sample_author)))\<rparr>"

definition author_job :: crawl_job where
  "author_job = zero_job\<lparr>job_url := ''https://openlibrary.org/authors/OL1A.json''\<rparr>"

lemma author_url:
  "EnsureJSONURL (job_url author_job) = job_url author_job" "\<not> contains (job_url author_job) ''/search.json''"
  "contains (job_url author_job) ''/authors/''" "url_parse (job_url author_job) \<noteq> None"
proof -
  show "url_parse (job_url author_job) \<noteq> None"
    using url_parse_site [of "''authors/OL1A.json''"]
    by (simp add: author_job_def is_unreserved_def is_alnum_def byte_in_def is_digit_def)
qed (simp_all add: author_job_def EnsureJSONURL_def has_suffix_def)

lemma author_job_depth: "job_depth author_job = 0" "job_session author_job = []"
  by (simp_all add: author_job_def zero_job_def)

text \<open>An author page that is fetched: the crawl goes on to the search for the author's works.\<close>

lemma author_handled:
  "\<exists>a w. handleJobWithRetry author_env default_worker author_job new_world =
     (Inr (Some (Author a)), w) \<and> author_name a = ''Ada'' \<and> writes w = []"
proof -
  obtain a where a: "with_raw (json_text (record_json sample_author)) sample_author = Author a" "author_name a = ''Ada''"
    by (simp add: sample_author_def)
  have "handleJob author_env author_job None new_world =
      (Inr (Some (Author a)), snd (fetch author_env (job_url author_job) new_world))"
    using author_url ParseNode_record [OF sample_author_ok] a(1)
    by (simp add: handleJob_def crawlAuthor_def fetch_def fetchJSONWithMetrics_def FetchJSONWithClient_def new_request_def
        author_env_def Let_def)
  with a(2) show ?thesis
    by (simp add: handleJobWithRetry_def retry_loop.simps [of author_env default_worker author_job 200000000 0])
      (simp add: fetch_def tick_def new_world_def split: prod.split)
qed

lemma author_crawled:
  "crawled default_worker author_job (next_job author_job (SearchAuthorURL ''Ada'') zero_time)"
proof -
  let ?j = "next_job author_job (SearchAuthorURL ''Ada'') zero_time"
  let ?m = "new_message [] [] zero_time"
  have "valid_utf8 (SearchAuthorURL ''Ada'')"
    by (rule valid_utf8_ascii)
      (simp add: SearchAuthorURL_def query_escape_def escape_char_def is_unreserved_def is_alnum_def byte_in_def is_ascii_def)
  then have "wf_job ?j"
    by (simp add: next_job_def author_job_def zero_job_def wf_job_def succ64_def in_int64_iff zero_time_def wf_time_def days_in_def)
  from job.marshal_ok [OF this] obtain p where p: "marshal enc_job ?j = Some p"
    "unmarshal (dec_struct job_fields) zero_job p = Some ?j" by blast
  obtain a w1 where h: "handleJobWithRetry author_env default_worker author_job new_world = (Inr (Some (Author a)), w1)"
    and a: "author_name a = ''Ada''"
    using author_handled by blast
  obtain e w2 where r: "publishResult author_env default_worker author_job (Some (Author a))
      (tick (count (\<lambda>m. m\<lparr>jobsSuccess := jobsSuccess m + 1\<rparr>) w1)) = (e, w2)" by fastforce
  have env: "ctx_err author_env k = None" "now author_env k = zero_time" "broker author_env k = None" for k
    by (simp_all add: author_env_def dead_env_def)
  have step: "writes (processJobAsync author_env default_worker ?m author_job new_world) =
      writes new_world @ (writes w2 @ [(Frontier, new_message [] p zero_time, None)])"
    using author_url p(1) a
    by (simp add: author_job_depth processJobAsync_def process_body_def h r [unfolded count_def tick_def, simplified] env Let_def publishEdgesAndFrontier_def isSearchURL_def
        expandAuthor_def enqueueURLToFronter_def publish_def write_message_def count_def tick_def new_world_def [THEN arg_cong [of _ _ writes]])
  show ?thesis
    by (rule crawled_next [OF crawled_seed step, of "new_message [] p zero_time" None])
      (simp_all add: new_message_def p(2))
qed

theorem crawl_depth_bounded_witness:
  "\<exists>job. crawled default_worker author_job job \<and> job_url job = SearchAuthorURL ''Ada'' \<and> job_depth job = 1 \<and>
    job_depth job \<le> maxDepth default_worker"
  using crawl_depth_bounded [OF author_crawled] author_crawled
  by (intro exI [of _ "next_job author_job (SearchAuthorURL ''Ada'') zero_time"])
    (simp add: next_job_def author_job_def zero_job_def succ64_def in_int64_iff)

text \<open>
  Claim C18. A job whose path robots.txt disallows fails in its handler without a single request,
  whatever the retry settings. If it is no search job, nothing else is fetched for it either: all its
  goroutine publishes is at most the failure, on the dead letter topic. A search job is fetched by its
  expansion all the same, as the last property here says.
\<close>

theorem disallowed_job_not_fetched:
  assumes "\<not> Allowed (robots c) (fetch_path job)"
  shows "requests (snd (handleJobWithRetry env c job w)) = requests w \<and>
    (\<exists>e. fst (handleJobWithRetry env c job w) = Inl e) \<and>
    (isSearchURL (job_url job) \<or>
      (requests (processJobAsync env c msg job w) = requests w \<and>
       (\<exists>ws. writes (processJobAsync env c msg job w) = writes w @ ws \<and> length ws \<le> 1 \<and>
         list_all (failure_write c job) ws)))"
proof -
  obtain e w1 where h: "handleJobWithRetry env c job w = (Inl e, w1)"
    using handleJobWithRetry_disallowed(2) [OF assms] by (metis prod.collapse)
  have r1: "requests w1 = requests w"
    using handleJobWithRetry_disallowed(1) [OF assms, of env w] h by simp
  have s1: "writes w1 = writes w"
    using handleJobWithRetry_bound(1) [OF h] by (simp add: silent_def)
  let ?w = "count (\<lambda>m. m\<lparr>jobsFailed := jobsFailed m + 1\<rparr>) w1"
  let ?w2 = "snd (publishDLQ env c job e ?w)"
  have "requests (process_body env c job w) = requests ?w2 \<and> writes (process_body env c job w) = writes ?w2"
    if "\<not> isSearchURL (job_url job)"
    using that by (simp add: process_body_def h publishResult_def skip_apply publishEdgesAndFrontier_def Let_def)
  with publishDLQ_writes [of env c job e ?w] h r1 s1 show ?thesis
    by (auto simp: processJobAsync_def Let_def)
qed

definition authors_barred :: worker where
  "authors_barred = default_worker\<lparr>robots := Some [''/authors'']\<rparr>"

lemma author_job_disallowed: "\<not> Allowed (robots authors_barred) (fetch_path author_job)"
proof -
  have n: "normalizePath ''/authors/OL1A.json'' = ''/authors/OL1A.json''"
    using trim_space_plain [of "''/authors/OL1A.json''"] by (simp add: normalizePath_def)
  then have "PathFromURL (job_url author_job) = ''/authors/OL1A.json''"
    using url_parse_site [of "''authors/OL1A.json''"]
    by (simp add: PathFromURL_def author_job_def is_unreserved_def is_alnum_def byte_in_def is_digit_def)
  then show ?thesis
    using author_url(1,2) n by (simp add: fetch_path_def isSearchURL_def authors_barred_def Allowed_Some has_prefix_def)
qed

theorem disallowed_job_not_fetched_witness:
  "requests (processJobAsync author_env authors_barred (new_message [] [] zero_time) author_job new_world) = []"
  using disallowed_job_not_fetched [OF author_job_disallowed, of author_env new_world "new_message [] [] zero_time"] author_url(2)
  by (simp add: isSearchURL_def) (simp add: new_world_def)

text \<open>
  Claim C37. A search job that robots.txt disallows is fetched all the same: its handler fails
  without a request, but the expansion that follows fetches the search URL.
\<close>

theorem disallowed_search_is_fetched:
  assumes "isSearchURL (job_url job)" and "\<not> Allowed (robots c) (PathFromURL (job_url job))"
    and "url_parse (job_url job) \<noteq> None" and "ctx_err env = (\<lambda>n. None)"
  shows "requests (processJobAsync env c msg job w) =
    requests w @ [\<lparr>req_url = job_url job, req_agent = DefaultUserAgent\<rparr>]"
proof -
  have na: "\<not> Allowed (robots c) (fetch_path job)" using assms(1,2) by (simp add: fetch_path_def)
  obtain e w1 where h: "handleJobWithRetry env c job w = (Inl e, w1)"
    using handleJobWithRetry_disallowed(2) [OF na] by (metis prod.collapse)
  have r1: "requests w1 = requests w"
    using handleJobWithRetry_disallowed(1) [OF na, of env w] h by simp
  let ?w2 = "snd (publishDLQ env c job e (count (\<lambda>m. m\<lparr>jobsFailed := jobsFailed m + 1\<rparr>) w1))"
  have r2: "requests (tick (tick ?w2)) = requests w"
    using publishDLQ_writes [of env c job e "count (\<lambda>m. m\<lparr>jobsFailed := jobsFailed m + 1\<rparr>) w1"] r1 by auto
  have body: "process_body env c job w = snd (expandSearch env c job (tick (tick ?w2)))"
    using assms(1,4) by (simp add: process_body_def h publishResult_def skip_apply publishEdgesAndFrontier_def)
  obtain r w3 where f: "fetch env (job_url job) (tick (tick ?w2)) = (r, w3)"
    by (cases "fetch env (job_url job) (tick (tick ?w2))")
  have r3: "requests w3 = requests w @ [\<lparr>req_url = job_url job, req_agent = DefaultUserAgent\<rparr>]"
    using f assms(3) r2 by (auto simp: fetch_def new_request_def split: prod.splits)
  have "requests (snd (expandSearch env c job (tick (tick ?w2)))) = requests w3"
    using publisher.frame [OF search_pub, of w3]
    by (auto simp: expandSearch_def f only_writes_def split: sum.splits)
  with body r3 show ?thesis by (simp add: processJobAsync_def Let_def)
qed


theorem disallowed_search_is_fetched_witness:
  "requests (processJobAsync dead_env robots_worker (new_message [] [] zero_time) search_job new_world) =
    [\<lparr>req_url = ''https://openlibrary.org/search.json'', req_agent = DefaultUserAgent\<rparr>]"
proof -
  have "fetch_path search_job = PathFromURL (job_url search_job)"
    by (simp add: fetch_path_def search_job_url(1))
  with search_job_disallowed have "\<not> Allowed (robots robots_worker) (PathFromURL (job_url search_job))"
    by simp
  from disallowed_search_is_fetched [OF search_job_url(1) this, of dead_env "new_message [] [] zero_time" new_world]
  show ?thesis by (simp add: search_job_url(2) dead_env_def new_world_def) (simp add: search_job_def)
qed

end
