(* ===== verification/Redis.thy ===== *)
theory Redis
  imports Prelude
begin

text \<open>
  The Redis commands the program calls, as their documentation describes them, to instantiate the
  parameters of the components: a map of keys that are not yet expired, and for every call
  whether it fails and, if so, whether the command still took effect. Expirations are left to
  \<open>Worker_Cluster\<close> and \<open>Status_Expiry\<close>, where the store has a clock.
\<close>

record redis =
  entries :: "(string, string) fmap"
  calls :: nat

type_synonym redis_faults = "nat \<Rightarrow> (go_error \<times> bool) option"

definition new_redis :: redis where
  "new_redis = \<lparr>entries = fmempty, calls = 0\<rparr>"

definition redis_set :: "redis_faults \<Rightarrow> string \<Rightarrow> string \<Rightarrow> int \<Rightarrow> redis \<Rightarrow> go_error option \<times> redis" where
  "redis_set faults key val expiration s =
     (let written = s\<lparr>entries := fmupd key val (entries s), calls := Suc (calls s)\<rparr>
      in case faults (calls s) of
           None \<Rightarrow> (None, written)
         | Some (e, took) \<Rightarrow> (Some e, if took then written else s\<lparr>calls := Suc (calls s)\<rparr>))"

definition redis_get :: "redis_faults \<Rightarrow> string \<Rightarrow> redis \<Rightarrow> (go_error + string option) \<times> redis" where
  "redis_get faults key s =
     ((case faults (calls s) of None \<Rightarrow> Inr (fmlookup (entries s) key) | Some (e, took) \<Rightarrow> Inl e),
      s\<lparr>calls := Suc (calls s)\<rparr>)"

definition redis_setnx :: "redis_faults \<Rightarrow> redis \<Rightarrow> string \<Rightarrow> string \<Rightarrow> int \<Rightarrow> (go_error + bool) \<times> redis" where
  "redis_setnx faults s key val expiration =
     (let fresh = (fmlookup (entries s) key = None);
          written = s\<lparr>entries := (if fresh then fmupd key val (entries s) else entries s), calls := Suc (calls s)\<rparr>
      in case faults (calls s) of
           None \<Rightarrow> (Inr fresh, written)
         | Some (e, took) \<Rightarrow> (Inl e, if took then written else s\<lparr>calls := Suc (calls s)\<rparr>))"

end
