(* ===== verification/Worker_Dispatch.thy ===== *)
theory Worker_Dispatch
  imports Worker_Publish Redis
begin

text \<open>
  \<open>dispatchMessage\<close> and \<open>run\<close>: every message is committed, handed to a goroutine or dropped with an
  error, and no URL is handed out twice while its dedupe key lives. The locale \<open>dedupe_store\<close> is
  what the worker relies on of the store behind \<open>SetNX\<close>.
\<close>

section \<open>Dedupe keys\<close>

lemma dedupe_key_url: "dedupeKeyForJob j = dedupeKeyForJob j' \<longleftrightarrow> job_url j = job_url j'"
  by (auto simp: dedupeKeyForJob_def)

section \<open>The dedupe store\<close>

locale dedupe_store =
  fixes setnx :: "'k setnx_call" and holds :: "'k \<Rightarrow> string \<Rightarrow> bool"
  assumes taken: "setnx k key v life = (Inr True, k') \<Longrightarrow> \<not> holds k key \<and> holds k' key"
    and kept: "setnx k key v life = (r, k') \<Longrightarrow> holds k x \<Longrightarrow> holds k' x"
    and refused: "setnx k key v life = (Inr False, k') \<Longrightarrow> holds k key"
begin

definition spawned_once :: "'k \<times> world \<Rightarrow> bool" where
  "spawned_once s \<longleftrightarrow>
     distinct (map (\<lambda>mj. dedupeKeyForJob (snd mj)) (spawned (snd s))) \<and>
     list_all (\<lambda>mj. holds (fst s) (dedupeKeyForJob (snd mj))) (spawned (snd s))"

lemma dispatch_once:
  assumes "spawned_once (k, w)"
  shows "spawned_once (snd (dispatchMessage env c setnx msg (k, w)))"
proof (cases "unmarshal (dec_struct job_fields) zero_job (msg_value msg)")
  case None
  with assms show ?thesis by (simp add: dispatch_defs spawned_once_def)
next
  case (Some job)
  obtain r k' where s: "setnx k (dedupeKeyForJob job) ''1'' (ttl c) = (r, k')" by (cases "setnx k (dedupeKeyForJob job) ''1'' (ttl c)")
  from kept [OF s] assms have old: "spawned_once (k', w)"
    by (auto simp: spawned_once_def list_all_iff)
  show ?thesis
  proof (cases "r = Inr True")
    case True
    with taken s have t: "\<not> holds k (dedupeKeyForJob job)" "holds k' (dedupeKeyForJob job)" by auto
    then have "dedupeKeyForJob job \<notin> (\<lambda>mj. dedupeKeyForJob (snd mj)) ` set (spawned w)"
      using assms by (auto simp: spawned_once_def list_all_iff)
    with Some s True t(2) old show ?thesis
      by (auto simp: dispatch_defs spawned_once_def Let_def split: option.splits)
  next
    case False
    with Some s old show ?thesis
      by (auto simp: dispatch_defs spawned_once_def Let_def split: sum.splits)
  qed
qed

lemma run_once: "spawned_once s \<Longrightarrow> spawned_once (run env c setnx es s)"
proof (induction es arbitrary: s)
  case (Cons ev es)
  then show ?case
    using dispatch_once [of "fst s" "snd s"] by (cases ev) auto
qed simp

lemma new_spawned_once: "spawned w = [] \<Longrightarrow> spawned_once (k, w)"
  by (simp add: spawned_once_def)

lemma spawned_urls: "spawned_once s \<Longrightarrow> distinct (map (\<lambda>mj. job_url (snd mj)) (spawned (snd s)))"
  by (auto simp: spawned_once_def distinct_map inj_on_def dedupe_key_url)

text \<open>A message whose key is taken is committed without being processed.\<close>

lemma setnx_holding: "holds k key \<Longrightarrow> setnx k key v life = (Inr ok, k') \<Longrightarrow> \<not> ok"
  using taken by (cases ok) auto

end

text \<open>The Redis store keeps the contract, whatever calls fail.\<close>

interpretation redis_dedupe: dedupe_store "redis_setnx faults" "\<lambda>s key. fmlookup (entries s) key \<noteq> None" for faults
  by unfold_locales
     (auto simp: redis_setnx_def Let_def split: option.splits prod.splits if_splits)

section \<open>Properties\<close>

text \<open>
  Claim C16. A dispatched message has exactly one fate, fixed by its payload, the answer of \<open>SetNX\<close>
  for the job's key with the configured TTL, and the context. No job, or a URL seen before: it goes to
  the commit coordinator and nothing is started. A new job under a live context: it is started and
  not committed. An error of the store, or the context's for a new job: the message is dropped,
  neither committed nor started, and the error returned. The counters follow, the store is called
  at most once, no message is written and no URL fetched.
\<close>

theorem dispatch_outcomes:
  "case dispatchMessage env c setnx msg (k, w) of (r, k', w') \<Rightarrow>
    writes w' = writes w \<and> requests w' = requests w \<and>
    (case unmarshal (dec_struct job_fields) zero_job (msg_value msg) of
       None \<Rightarrow> r = None \<and> k' = k \<and> commit_ch w' = commit_ch w @ [msg] \<and> spawned w' = spawned w \<and> metrics w' = metrics w
     | Some job \<Rightarrow>
         k' = snd (setnx k (dedupeKeyForJob job) ''1'' (ttl c)) \<and>
         jobsReceived (metrics w') = jobsReceived (metrics w) + 1 \<and>
         (case (fst (setnx k (dedupeKeyForJob job) ''1'' (ttl c)), ctx_err env (clock w)) of
            (Inl e, _) \<Rightarrow> r = Some e \<and> commit_ch w' = commit_ch w \<and> spawned w' = spawned w \<and>
              inFlight (metrics w') = inFlight (metrics w)
          | (Inr False, _) \<Rightarrow> r = None \<and> commit_ch w' = commit_ch w @ [msg] \<and> spawned w' = spawned w \<and>
              jobsSkipped (metrics w') = jobsSkipped (metrics w) + 1 \<and> inFlight (metrics w') = inFlight (metrics w)
          | (Inr True, Some e) \<Rightarrow> r = Some e \<and> commit_ch w' = commit_ch w \<and> spawned w' = spawned w \<and>
              inFlight (metrics w') = inFlight (metrics w)
          | (Inr True, None) \<Rightarrow> r = None \<and> commit_ch w' = commit_ch w \<and> spawned w' = spawned w @ [(msg, job)] \<and>
              inFlight (metrics w') = inFlight (metrics w) + 1))"
  by (auto simp: dispatch_defs Let_def split: option.splits sum.splits prod.splits bool.splits)

text \<open>
  While dedupe keys live, no URL is handed to a goroutine twice, in any sequence of
  fetched messages and with any failures of the store.
\<close>

lemma each_url_started_once:
  "distinct (map (\<lambda>mj. job_url (snd mj)) (spawned (snd (run env c (redis_setnx faults) es (new_redis, new_world)))))"
  by (rule redis_dedupe.spawned_urls, rule redis_dedupe.run_once, rule redis_dedupe.new_spawned_once)
     (simp add: new_world_def)

text \<open>
  Claim C38. The dedupe key is set before the job is done: a job whose dispatch is interrupted by
  the shutdown after the key was set is dropped, and when it is fetched again it is committed as
  a duplicate without ever being processed.
\<close>

theorem interrupted_job_is_lost:
  assumes "unmarshal (dec_struct job_fields) zero_job (msg_value msg) = Some job"
    and "fmlookup (entries k) (dedupeKeyForJob job) = None" and "faults = (\<lambda>n. None)"
    and "ctx_err env (clock w) = Some e"
    and first: "dispatchMessage env c (redis_setnx faults) msg (k, w) = (r, k', w')"
  shows "r = Some e \<and> spawned w' = spawned w \<and>
    fst (dispatchMessage env2 c (redis_setnx faults) msg (k', w2)) = None \<and>
    commit_ch (snd (snd (dispatchMessage env2 c (redis_setnx faults) msg (k', w2)))) = commit_ch w2 @ [msg] \<and>
    spawned (snd (snd (dispatchMessage env2 c (redis_setnx faults) msg (k', w2)))) = spawned w2"
  using assms by (auto simp: dispatch_defs redis_setnx_def Let_def)


definition job_message :: "crawl_job \<Rightarrow> kafka_message" where
  "job_message job = new_message (job_session job) (case marshal enc_job job of None \<Rightarrow> [] | Some s \<Rightarrow> s) zero_time"

lemma zero_job_wf: "wf_job zero_job"
  by (simp add: wf_job_def zero_job_def in_int64_iff wf_time_def zero_time_def days_in_def)

lemma job_message_reads: "wf_job job \<Longrightarrow> unmarshal (dec_struct job_fields) zero_job (msg_value (job_message job)) = Some job"
  using job.marshal_ok [of job] by (auto simp: job_message_def)

definition stopping_env :: env where
  "stopping_env = dead_env\<lparr>ctx_err := \<lambda>n. Some ''context canceled''\<rparr>"

theorem interrupted_job_is_lost_witness:
  "case dispatchMessage stopping_env default_worker (redis_setnx (\<lambda>n. None)) (job_message zero_job) (new_redis, new_world) of
     (r, k', w') \<Rightarrow> r = Some ''context canceled'' \<and>
       commit_ch (snd (snd (dispatchMessage dead_env default_worker (redis_setnx (\<lambda>n. None)) (job_message zero_job) (k', new_world)))) =
         [job_message zero_job] \<and>
       spawned (snd (snd (dispatchMessage dead_env default_worker (redis_setnx (\<lambda>n. None)) (job_message zero_job) (k', new_world)))) = []"
proof -
  obtain r k' w' where d: "dispatchMessage stopping_env default_worker (redis_setnx (\<lambda>n. None)) (job_message zero_job)
      (new_redis, new_world) = (r, k', w')"
    by (metis surjective_pairing)
  from interrupted_job_is_lost [OF job_message_reads [OF zero_job_wf] _ refl _ d, of "''context canceled''" dead_env new_world]
  show ?thesis unfolding d by (simp add: new_redis_def stopping_env_def) (simp add: new_world_def)
qed

end
