(* ===== verification/Config.thy ===== *)
theory Config
  imports Worker_Dispatch Go_Float
begin

text \<open>
  \<open>common/helper.go\<close>, the configuration \<open>main\<close> of \<open>cmd/worker/main.go\<close> reads from the environment,
  and what it makes of it: the proxy, the robots.txt rules, the commit channel and the worker.
\<close>

section \<open>time.ParseDuration\<close>

text \<open>
  The loop of \<open>time.ParseDuration\<close>: a number, its fraction, a unit, and again. All intermediate
  values are \<open>uint64\<close>; a fraction is scaled in \<open>float64\<close>.
\<close>

definition two63 :: nat where
  "two63 = 9223372036854775808"

definition leading_int :: "string \<Rightarrow> (nat \<times> string) option" where
  "leading_int s =
     (let ds = takeWhile is_digit s
      in if digits_val ds > two63 then None else Some (digits_val ds, dropWhile is_digit s))"

fun fraction_digits :: "nat \<Rightarrow> nat \<Rightarrow> string \<Rightarrow> nat \<times> nat" where
  "fraction_digits x k [] = (x, k)"
| "fraction_digits x k (c # cs) =
     (if x > (two63 - 1) div 10 \<or> x * 10 + digit_val c > two63 then (x, k)
      else fraction_digits (x * 10 + digit_val c) (Suc k) cs)"

definition unit_map :: "(string \<times> nat) list" where
  "unit_map =
     [(''ns'', 1), (''us'', 1000), ([CHR 0xC2, CHR 0xB5, CHR ''s''], 1000),
      ([CHR 0xCE, CHR 0xBC, CHR ''s''], 1000), (''ms'', 1000000), (''s'', 1000000000),
      (''m'', 60000000000), (''h'', 3600000000000)]"

definition unit_of :: "string \<Rightarrow> nat option" where
  "unit_of u = map_of unit_map u"

definition is_unit_char :: "char \<Rightarrow> bool" where
  "is_unit_char c \<longleftrightarrow> c \<noteq> CHR ''.'' \<and> \<not> is_digit c"

text \<open>One number with its unit; the fraction \<open>f\<close> has \<open>k\<close> digits, and \<open>scale\<close> is a product of
  \<open>float64\<close> tens.\<close>

definition float_scale :: "nat \<Rightarrow> float64" where
  "float_scale k = ((\<lambda>x. float_mul x (to_float 10 1)) ^^ k) (to_float 1 1)"

definition duration_item :: "string \<Rightarrow> (nat \<times> string) option" where
  "duration_item s =
     (case leading_int s of
        None \<Rightarrow> None
      | Some (v, s1) \<Rightarrow>
          (let pre = (length s1 \<noteq> length s);
               dot = has_prefix s1 ''.'';
               frac = (if dot then takeWhile is_digit (tl s1) else []);
               s2 = (if dot then dropWhile is_digit (tl s1) else s1);
               u = takeWhile is_unit_char s2;
               rest = dropWhile is_unit_char s2;
               (f, k) = fraction_digits 0 0 frac
           in if \<not> pre \<and> frac = [] then None
              else if u = [] then None
              else (case unit_of u of
                  None \<Rightarrow> None
                | Some unit \<Rightarrow>
                    if v > two63 div unit then None
                    else (let v1 = v * unit;
                              v2 = (if f > 0
                                    then v1 + float_trunc (float_mul (to_float f 1) (float_div (to_float unit 1) (float_scale k)))
                                    else v1)
                          in if v2 > two63 then None else Some (v2, rest)))))"

lemma dropWhile_shorter: "length (dropWhile P s) \<le> length s"
  by (rule length_dropWhile_le)

lemma dropWhile_strict: "takeWhile P s \<noteq> [] \<Longrightarrow> length (dropWhile P s) < length s"
proof -
  assume "takeWhile P s \<noteq> []"
  moreover have "length (takeWhile P s) + length (dropWhile P s) = length s"
    by (metis takeWhile_dropWhile_id length_append)
  ultimately show ?thesis by (cases "takeWhile P s") auto
qed

lemma duration_item_shrinks: "duration_item s = Some (v, r) \<Longrightarrow> length r < length s"
proof -
  assume d: "duration_item s = Some (v, r)"
  let ?s1 = "dropWhile is_digit s"
  let ?s2 = "if has_prefix ?s1 ''.'' then dropWhile is_digit (tl ?s1) else ?s1"
  from d have r: "r = dropWhile is_unit_char ?s2" and u: "takeWhile is_unit_char ?s2 \<noteq> []"
    by (auto simp: duration_item_def leading_int_def Let_def split: if_splits option.splits prod.splits)
  have "length r < length ?s2" unfolding r by (rule dropWhile_strict [OF u])
  also have "length ?s2 \<le> length ?s1"
    using dropWhile_shorter [of is_digit "tl ?s1"] by auto
  also have "length ?s1 \<le> length s" by (rule dropWhile_shorter)
  finally show ?thesis .
qed

function duration_items :: "nat \<Rightarrow> string \<Rightarrow> nat option" where
  "duration_items d s =
     (if s = [] then Some d
      else case duration_item s of
        None \<Rightarrow> None
      | Some (v, r) \<Rightarrow>
          (let d' = (d + v) mod 2 ^ 64 in if d' > two63 then None else duration_items d' r))"
  by pat_completeness auto
termination
  by (relation "measure (\<lambda>(d, s). length s)") (auto dest: duration_item_shrinks)

declare duration_items.simps [simp del]

definition parse_duration :: "string \<Rightarrow> int option" where
  "parse_duration s =
     (let neg = has_prefix s ''-'';
          u = (if has_prefix s ''-'' \<or> has_prefix s ''+'' then tl s else s)
      in if u = ''0'' then Some 0
         else if u = [] then None
         else (case duration_items 0 u of
             None \<Rightarrow> None
           | Some d \<Rightarrow>
               if neg then Some (- int d)
               else if d > two63 - 1 then None
               else Some (int d)))"

section \<open>common/helper.go\<close>

text \<open>The environment maps every name to its value, the empty string when it is unset.\<close>

type_synonym environment = "string \<Rightarrow> string"

definition GetEnv :: "environment \<Rightarrow> string \<Rightarrow> string \<Rightarrow> string" where
  "GetEnv vars key fallback = (if vars key = [] then fallback else vars key)"

definition ParseDuration :: "string \<Rightarrow> int \<Rightarrow> int" where
  "ParseDuration val fallback = (case parse_duration val of None \<Rightarrow> fallback | Some d \<Rightarrow> d)"

definition ParseInt :: "string \<Rightarrow> int \<Rightarrow> int" where
  "ParseInt val fallback = (case atoi val of None \<Rightarrow> fallback | Some n \<Rightarrow> n)"

section \<open>Configuration of a worker\<close>

record worker_config =
  cfg_broker :: string
  cfg_group :: string
  cfg_redis :: string
  cfg_results_topic :: string
  cfg_edges_topic :: string
  cfg_frontier_topic :: string
  cfg_dlq_topic :: string
  cfg_metrics :: string
  cfg_dedupe_ttl :: int
  cfg_max_depth :: int
  cfg_retry_max :: int
  cfg_retry_base :: int
  cfg_retry_max_delay :: int
  cfg_concurrent :: int
  cfg_job_timeout :: int
  cfg_publish_timeout :: int

definition read_config :: "environment \<Rightarrow> worker_config" where
  "read_config vars =
     \<lparr>cfg_broker = GetEnv vars ''KAFKA_BROKER'' ''localhost:9092'',
      cfg_group = GetEnv vars ''KAFKA_GROUP_ID'' ''relentless-worker'',
      cfg_redis = GetEnv vars ''REDIS_ADDR'' ''localhost:6379'',
      cfg_results_topic = GetEnv vars ''KAFKA_RESULTS_TOPIC'' ''relentless.crawl.results'',
      cfg_edges_topic = GetEnv vars ''KAFKA_EDGES_TOPIC'' ''relentless.graph.edges'',
      cfg_frontier_topic = GetEnv vars ''KAFKA_FRONTIER_TOPIC''
        (GetEnv vars ''KAFKA_TOPIC'' ''relentless.crawl.frontier''),
      cfg_dlq_topic = GetEnv vars ''KAFKA_DLQ_TOPIC'' ''relentless.crawl.dlq'',
      cfg_metrics = GetEnv vars ''METRICS_ADDR'' '':9090'',
      cfg_dedupe_ttl = ParseDuration (GetEnv vars ''DEDUPE_TTL'' ''24h'') (24 * minutes 60),
      cfg_max_depth = ParseInt (GetEnv vars ''MAX_DEPTH'' ''3'') 3,
      cfg_retry_max = ParseInt (GetEnv vars ''RETRY_MAX'' ''3'') 3,
      cfg_retry_base = ParseDuration (GetEnv vars ''RETRY_BASE_DELAY'' ''200ms'') 200000000,
      cfg_retry_max_delay = ParseDuration (GetEnv vars ''RETRY_MAX_DELAY'' ''2s'') (seconds 2),
      cfg_concurrent = ParseInt (GetEnv vars ''CONCURRENT_JOBS'' ''5'') 5,
      cfg_job_timeout = ParseDuration (GetEnv vars ''JOB_TIMEOUT'' ''5m'') (minutes 5),
      cfg_publish_timeout = ParseDuration (GetEnv vars ''PUBLISH_TIMEOUT'' ''90s'') (seconds 90)\<rparr>"

text \<open>The proxy of \<open>buildHTTPClient\<close>: the URL the transport is given, and the one the metrics show.\<close>

definition proxy_choice :: "environment \<Rightarrow> string" where
  "proxy_choice vars =
     (let proxyURL = GetEnv vars ''PROXY_URL'' []; pool = GetEnv vars ''PROXY_POOL'' []
      in if proxyURL = [] \<and> pool \<noteq> [] then selectProxyFromPool pool (vars ''HOSTNAME'') else proxyURL)"

definition buildHTTPClient :: "environment \<Rightarrow> url option" where
  "buildHTTPClient vars =
     (if proxy_choice vars \<noteq> [] then url_parse (proxy_choice vars) else None)"

definition load_robots :: "environment \<Rightarrow> go_error + string \<Rightarrow> robots_rules option" where
  "load_robots vars fetched =
     (if GetEnv vars ''RESPECT_ROBOTS_TXT'' [] = ''true'' \<or> GetEnv vars ''RESPECT_ROBOTS_TXT'' [] = ''1''
      then (case fetched of Inl e \<Rightarrow> None | Inr body \<Rightarrow> Some (ParseRobots body DefaultUserAgent))
      else None)"

text \<open>
  \<open>make(chan T, n)\<close> panics for a negative size and for one above what the runtime allows, here
  \<open>limit\<close>. \<open>start_worker\<close> is \<open>main\<close> up to \<open>w.run\<close>: \<open>None\<close> when it panics, else the capacity of the
  commit channel and the worker.
\<close>

definition make_chan :: "int \<Rightarrow> int \<Rightarrow> nat option" where
  "make_chan limit n = (if n < 0 \<or> limit < n then None else Some (nat n))"

definition start_worker :: "int \<Rightarrow> environment \<Rightarrow> go_error + string \<Rightarrow> (nat \<times> worker) option" where
  "start_worker limit vars fetched =
     (let cfg = read_config vars
      in case make_chan limit (wrap64 (cfg_concurrent cfg * 2)) of
           None \<Rightarrow> None
         | Some capacity \<Rightarrow>
             Some (capacity,
               newWorker True True True True (cfg_dedupe_ttl cfg) (cfg_max_depth cfg) (cfg_retry_max cfg)
                 (cfg_retry_base cfg) (cfg_retry_max_delay cfg) (cfg_concurrent cfg) (cfg_job_timeout cfg)
                 (cfg_publish_timeout cfg) (load_robots vars fetched)))"

section \<open>Lemmas\<close>

text \<open>A duration written as whole numbers with their units, as \<open>90s\<close> or \<open>1h30m\<close>.\<close>

definition duration_text :: "(nat \<times> string) list \<Rightarrow> string" where
  "duration_text parts = concat (map (\<lambda>(n, u). nat_digits n @ u) parts)"

definition duration_value :: "(nat \<times> string) list \<Rightarrow> nat" where
  "duration_value parts = sum_list (map (\<lambda>(n, u). n * (case unit_of u of None \<Rightarrow> 0 | Some x \<Rightarrow> x)) parts)"

definition units_ok :: "(nat \<times> string) list \<Rightarrow> bool" where
  "units_ok parts \<longleftrightarrow> list_all (\<lambda>(n, u). unit_of u \<noteq> None) parts"

lemma unit_map_chars: "list_all (\<lambda>(u, x). u \<noteq> [] \<and> list_all is_unit_char u \<and> 0 < x) unit_map"
  by (simp add: unit_map_def is_unit_char_def is_digit_def byte_in_def)

lemma unit_of_chars: "unit_of u = Some x \<Longrightarrow> u \<noteq> [] \<and> list_all is_unit_char u \<and> 0 < x"
  using unit_map_chars by (auto simp: unit_of_def list_all_iff dest!: map_of_SomeD)

lemma takeWhile_digits: "s = [] \<or> \<not> is_digit (hd s) \<Longrightarrow> takeWhile is_digit (nat_digits n @ s) = nat_digits n"
  using nat_digits_digits [of n]
  by (subst takeWhile_append2) (auto simp: list_all_iff takeWhile_eq_Nil_iff)

lemma dropWhile_digits: "s = [] \<or> \<not> is_digit (hd s) \<Longrightarrow> dropWhile is_digit (nat_digits n @ s) = s"
  using nat_digits_digits [of n]
  by (subst dropWhile_append2) (auto simp: list_all_iff dropWhile_eq_self_iff)

lemma unit_then: "list_all P u \<Longrightarrow> s = [] \<or> \<not> P (hd s) \<Longrightarrow> takeWhile P (u @ s) = u \<and> dropWhile P (u @ s) = s"
  by (auto simp: list_all_iff takeWhile_append2 dropWhile_append2 takeWhile_eq_Nil_iff dropWhile_eq_self_iff)

lemma duration_item_whole:
  assumes u: "unit_of u = Some x" and r: "r = [] \<or> is_digit (hd r)"
  shows "duration_item (nat_digits n @ u @ r) = (if n * x > two63 then None else Some (n * x, r))"
proof -
  from unit_of_chars [OF u] obtain c cs where cs: "u = c # cs" "is_unit_char c" "list_all is_unit_char u" "0 < x"
    by (cases u) auto
  have uc: "\<not> is_digit c" "c \<noteq> CHR ''.''" using cs(2) by (auto simp: is_unit_char_def)
  have t: "takeWhile is_unit_char (u @ r) = u" "dropWhile is_unit_char (u @ r) = r"
    using unit_then [OF cs(3), of r] r by (auto simp: is_unit_char_def)
  have l: "leading_int (nat_digits n @ u @ r) = (if n > two63 then None else Some (n, u @ r))"
    using uc cs(1) by (simp add: leading_int_def takeWhile_digits dropWhile_digits digits_val_nat_digits)
  have "n > two63 div x \<longleftrightarrow> n * x > two63"
    using cs(4) by (simp add: div_less_iff_less_mult)
  moreover have "n > two63 \<Longrightarrow> n * x > two63" using cs(4) by (metis One_nat_def Suc_leI less_le_trans mult.right_neutral mult_le_mono2)
  moreover have "\<not> has_prefix (u @ r) ''.''" using cs(1) uc by simp
  moreover have "length (u @ r) \<noteq> length (nat_digits n @ u @ r)" "u \<noteq> []" using cs(1) by simp_all
  moreover have "(fraction_digits 0 0 []) = (0, 0)" by simp
  ultimately show ?thesis
    unfolding duration_item_def l Let_def
    by (cases "n > two63") (simp_all add: t u)
qed

lemma duration_text_Cons: "duration_text ((n, u) # ps) = nat_digits n @ u @ duration_text ps"
  by (simp add: duration_text_def)

lemma duration_value_Cons: "unit_of u = Some x \<Longrightarrow> duration_value ((n, u) # ps) = n * x + duration_value ps"
  by (simp add: duration_value_def)

lemma duration_text_hd: "duration_text ps = [] \<or> is_digit (hd (duration_text ps))"
proof (cases ps)
  case (Cons p qs)
  obtain n u where p: "p = (n, u)" by (cases p)
  from nat_digits_hd [of n] show ?thesis by (auto simp: Cons p duration_text_Cons)
qed (simp add: duration_text_def)

lemma duration_items_text:
  assumes "units_ok parts" and "d + duration_value parts \<le> two63"
  shows "duration_items d (duration_text parts) = Some (d + duration_value parts)"
  using assms
proof (induction parts arbitrary: d)
  case Nil
  then show ?case by (simp add: duration_items.simps duration_text_def duration_value_def)
next
  case (Cons p ps)
  obtain n u where p: "p = (n, u)" by (cases p)
  from Cons.prems(1) p obtain x where x: "unit_of u = Some x" by (auto simp: units_ok_def)
  have le: "d + n * x + duration_value ps \<le> two63"
    using Cons.prems(2) by (simp add: p duration_value_Cons [OF x])
  then have m: "(d + n * x) mod 18446744073709551616 = d + n * x" by (simp add: two63_def)
  have "duration_text (p # ps) \<noteq> []" by (simp add: p duration_text_Cons)
  then show ?case
    using duration_item_whole [OF x duration_text_hd [of ps], of n] le m Cons.prems(1)
      Cons.IH [of "d + n * x"]
    by (subst duration_items.simps)
       (simp add: p duration_text_Cons duration_value_Cons [OF x] units_ok_def)
qed

lemma parse_duration_text:
  assumes "units_ok parts" and "parts \<noteq> []" and "duration_value parts < two63"
  shows "parse_duration (duration_text parts) = Some (int (duration_value parts))"
proof -
  obtain n u ps where p: "parts = (n, u) # ps" using assms(2) by (cases parts) auto
  with assms(1) obtain x where x: "unit_of u = Some x" by (auto simp: units_ok_def)
  from unit_of_chars [OF x] obtain c cs where c: "u = c # cs" "is_unit_char c" by (cases u) auto
  obtain e es where e: "nat_digits n = e # es" "e \<noteq> CHR ''-''" "e \<noteq> CHR ''+''"
    using nat_digits_hd [of n] by blast
  have ne: "duration_text parts \<noteq> ''0''"
    using c by (auto simp: p duration_text_Cons e Cons_eq_append_conv is_unit_char_def)
  have h: "\<not> has_prefix (duration_text parts) ''-''" "\<not> has_prefix (duration_text parts) ''+''"
      "duration_text parts \<noteq> []"
    using e by (simp_all add: p duration_text_Cons)
  show ?thesis
    using duration_items_text [OF assms(1), of 0] assms(3) ne h by (simp add: parse_duration_def Let_def)
qed

lemma newWorker_limits:
  fixes jobTime publishTime :: int and r e f d dedupe depth retries base maxDelay concurrent rules
  defines "c \<equiv> newWorker r e f d dedupe depth retries base maxDelay concurrent jobTime publishTime rules"
  shows "1 \<le> concurrentJobs c" "0 < jobTimeout c" "0 < publishTimeout c"
    "publishTimeout c < jobTimeout c \<or> publishTimeout c = seconds 30 \<and> jobTimeout c \<le> seconds 30"
  by (simp_all add: c_def newWorker_def Let_def) arith

lemma newWorker_keeps:
  "1 \<le> concurrent \<Longrightarrow> 0 < publishTime \<Longrightarrow> publishTime < jobTime \<Longrightarrow>
   newWorker r e f d dedupe depth retries base maxDelay concurrent jobTime publishTime rules =
     \<lparr>resultsWriter = r, edgesWriter = e, frontierWriter = f, dlqWriter = d, ttl = dedupe, maxDepth = depth,
      retryMax = retries, retryBase = base, retryMaxDelay = maxDelay, concurrentJobs = concurrent,
      jobTimeout = jobTime, publishTimeout = publishTime, robots = rules\<rparr>"
  by (simp add: newWorker_def)

lemma start_worker_new:
  "start_worker limit vars fetched = Some (capacity, c) \<Longrightarrow>
   \<exists>r e f d dedupe depth retries base maxDelay concurrent jobTime publishTime rules.
     c = newWorker r e f d dedupe depth retries base maxDelay concurrent jobTime publishTime rules \<and>
     capacity = nat (wrap64 (concurrent * 2)) \<and> 0 \<le> wrap64 (concurrent * 2)"
  by (fastforce simp: start_worker_def make_chan_def Let_def split: if_splits)

lemma short_duration:
  "unit_of u = Some x \<Longrightarrow> n * x < two63 \<Longrightarrow> ParseDuration (nat_digits n @ u) fallback = int (n * x)"
  using parse_duration_text [of "[(n, u)]"]
  by (simp add: ParseDuration_def units_ok_def duration_text_def duration_value_def)

lemma default_durations:
  "ParseDuration ''24h'' fb = 24 * minutes 60" "ParseDuration ''200ms'' fb = 200000000"
  "ParseDuration ''2s'' fb = seconds 2" "ParseDuration ''5m'' fb = minutes 5"
  "ParseDuration ''90s'' fb = seconds 90"
  using short_duration [of "''h''" _ 24 fb] short_duration [of "''ms''" _ 200 fb]
    short_duration [of "''s''" _ 2 fb] short_duration [of "''m''" _ 5 fb] short_duration [of "''s''" _ 90 fb]
  by (simp_all add: unit_of_def unit_map_def two63_def nat_digits.simps digit_char_def)

lemma default_config:
  "read_config (\<lambda>k. []) =
     \<lparr>cfg_broker = ''localhost:9092'', cfg_group = ''relentless-worker'', cfg_redis = ''localhost:6379'',
      cfg_results_topic = ''relentless.crawl.results'', cfg_edges_topic = ''relentless.graph.edges'',
      cfg_frontier_topic = ''relentless.crawl.frontier'', cfg_dlq_topic = ''relentless.crawl.dlq'',
      cfg_metrics = '':9090'', cfg_dedupe_ttl = 24 * minutes 60, cfg_max_depth = 3, cfg_retry_max = 3,
      cfg_retry_base = 200000000, cfg_retry_max_delay = seconds 2, cfg_concurrent = 5,
      cfg_job_timeout = minutes 5, cfg_publish_timeout = seconds 90\<rparr>"
  by (simp add: read_config_def GetEnv_def default_durations ParseInt_def atoi_def parse_digits_def
      digits_val_def digit_val_def is_digit_def byte_in_def check_int64_def in_int64_iff)

section \<open>Properties\<close>

text \<open>
  Claim C34. Whatever the environment says, a worker that starts runs at least one job at a time,
  its timeouts are positive, and a publish phase ends before its job's timeout, unless the job's
  timeout is at most 30 seconds: then the publish timeout may be the full 30 seconds.
\<close>

theorem started_worker_limits:
  assumes "start_worker limit vars fetched = Some (capacity, c)"
  shows "1 \<le> concurrentJobs c \<and> 0 < jobTimeout c \<and> 0 < publishTimeout c \<and>
    (publishTimeout c < jobTimeout c \<or> publishTimeout c = seconds 30 \<and> jobTimeout c \<le> seconds 30)"
proof -
  from start_worker_new [OF assms] obtain r e f d dedupe depth retries base maxDelay concurrent jobTime publishTime rules
    where c: "c = newWorker r e f d dedupe depth retries base maxDelay concurrent jobTime publishTime rules"
    by blast
  show ?thesis unfolding c by (intro conjI newWorker_limits)
qed

lemma default_start:
  "start_worker 1000 (\<lambda>k. []) fetched =
     Some (10, \<lparr>resultsWriter = True, edgesWriter = True, frontierWriter = True, dlqWriter = True,
       ttl = 24 * minutes 60, maxDepth = 3, retryMax = 3, retryBase = 200000000,
       retryMaxDelay = seconds 2, concurrentJobs = 5, jobTimeout = minutes 5,
       publishTimeout = seconds 90, robots = None\<rparr>)"
  by (simp add: start_worker_def default_config Let_def make_chan_def newWorker_keeps load_robots_def GetEnv_def)

theorem started_worker_limits_witness:
  "\<exists>capacity c. start_worker 1000 (\<lambda>k. []) (Inl []) = Some (capacity, c) \<and> publishTimeout c < jobTimeout c"
  using started_worker_limits [OF default_start] default_start [of "Inl []"] by simp

text \<open>
  A worker starts or panics by the size of its commit channel alone. With a negative
  \<open>CONCURRENT_JOBS\<close> it panics before \<open>newWorker\<close>, which would have run it with one job at a time.
\<close>

lemma negative_concurrency_panics:
  assumes "atoi (vars ''CONCURRENT_JOBS'') = Some n" and "vars ''CONCURRENT_JOBS'' \<noteq> []"
    and "- 4611686018427387904 \<le> n" and "n < 0"
  shows "start_worker limit vars fetched = None \<and>
    concurrentJobs (newWorker r e f d dedupe depth retries base maxDelay
      (cfg_concurrent (read_config vars)) jobTime publishTime rules) = 1"
proof -
  have n: "cfg_concurrent (read_config vars) = n"
    using assms(1,2) by (simp add: read_config_def GetEnv_def ParseInt_def)
  have "wrap64 (n * 2) = n * 2" using assms(3,4) by (intro wrap64_id) (simp add: in_int64_iff)
  with n assms(4) show ?thesis
    by (simp add: start_worker_def make_chan_def Let_def newWorker_def)
qed

lemma negative_concurrency_panics_witness:
  "start_worker 1000 (\<lambda>k. if k = ''CONCURRENT_JOBS'' then ''-1'' else []) (Inl []) = None"
proof -
  have "atoi ''-1'' = Some (- 1)" by code_simp
  then show ?thesis
    using negative_concurrency_panics [of "\<lambda>k. if k = ''CONCURRENT_JOBS'' then ''-1'' else []" "- 1" 1000 "Inl []"]
    by simp
qed

text \<open>
  A duration written in Go's notation as whole numbers with units is read as their sum,
  in nanoseconds, while it is below 2^63; the fallback is not used.
\<close>

lemma duration_read_as_written:
  assumes "units_ok parts" and "parts \<noteq> []" and "duration_value parts < two63"
  shows "ParseDuration (duration_text parts) fallback = int (duration_value parts)"
  using parse_duration_text [OF assms] by (simp add: ParseDuration_def)

lemma duration_read_as_written_witness: "ParseDuration ''1h30m'' 0 = minutes 90"
proof -
  have "duration_text [(1, ''h''), (30, ''m'')] = ''1h30m''"
    by (simp add: duration_text_def nat_digits.simps digit_char_def)
  moreover have "duration_value [(1, ''h''), (30, ''m'')] = 5400000000000"
    by (simp add: duration_value_def unit_of_def unit_map_def)
  moreover have "units_ok [(1, ''h''), (30, ''m'')]"
    by (simp add: units_ok_def unit_of_def unit_map_def)
  ultimately show ?thesis
    using duration_read_as_written [of "[(1, ''h''), (30, ''m'')]" 0] by (simp add: two63_def)
qed

text \<open>
  The proxy taken from a pool is one of its entries, without blanks around it; there is
  none exactly when the pool has no entry.
\<close>

lemma proxy_from_pool:
  "(let entries = filter ((\<noteq>) []) (map trim_space (split_char (CHR '','') (trim_space pool)))
    in if entries = [] then selectProxyFromPool pool host = []
       else selectProxyFromPool pool host \<in> set entries \<and> selectProxyFromPool pool host \<noteq> [])"
proof -
  define entries where "entries = filter ((\<noteq>) []) (map trim_space (split_char (CHR '','') (trim_space pool)))"
  have e: "selectProxyFromPool pool host =
      (if entries = [] then []
       else entries ! (unat (fnv32a (if host = [] then ''0'' else host)) mod length entries))"
    unfolding selectProxyFromPool_def entries_def Let_def by (rule refl)
  have "x \<noteq> []" if "x \<in> set entries" for x
    using that by (auto simp: entries_def)
  moreover have "entries \<noteq> [] \<Longrightarrow> n mod length entries < length entries" for n
    by simp
  ultimately show ?thesis
    unfolding e entries_def [symmetric] Let_def by (cases "entries = []") (simp_all del: mod_less)
qed

end
