(* ===== verification/Worker_Shutdown.thy ===== *)
theory Worker_Shutdown
  imports Kafka "HOL-Library.Multiset"
begin

text \<open>
  The goroutines of a worker process and what they share: the semaphore, the wait group, the
  commit channel, the cancellation. One step is one goroutine moving; a job's body, modelled in
  \<open>Worker\<close>, is the time between its start and its deferred function here. \<open>n\<close> is
  \<open>concurrentJobs\<close>, \<open>cap\<close> the capacity of the commit channel.
\<close>

section \<open>State\<close>

text \<open>Where a job's goroutine is: in its body, after \<open><-w.sem\<close>, after \<open>w.wg.Done()\<close>, after its send.\<close>

datatype phase = Running | Slot_Freed | Wg_Done | Sent

text \<open>A goroutine goes through its phases in this order.\<close>

instantiation phase :: linorder
begin

primrec phase_rank :: "phase \<Rightarrow> nat" where
  "phase_rank Running = 0"
| "phase_rank Slot_Freed = 1"
| "phase_rank Wg_Done = 2"
| "phase_rank Sent = 3"

definition less_eq_phase :: "phase \<Rightarrow> phase \<Rightarrow> bool" where
  "p \<le> q \<longleftrightarrow> phase_rank p \<le> phase_rank q"

definition less_phase :: "phase \<Rightarrow> phase \<Rightarrow> bool" where
  "p < q \<longleftrightarrow> phase_rank p < phase_rank q"

instance
proof
  fix p q :: phase
  show "p \<le> q \<Longrightarrow> q \<le> p \<Longrightarrow> p = q"
    by (cases p; cases q) (simp_all add: less_eq_phase_def)
qed (auto simp: less_eq_phase_def less_phase_def)

end

text \<open>The main goroutine: fetching, blocked in a send of \<open>dispatchMessage\<close>, in \<open>wg.Wait\<close>, in
  \<open>coordWg.Wait\<close>, returned.\<close>

datatype main_pc = Fetching | Sending kafka_message | Waiting | Joining | Exited

record process =
  main_at :: main_pc
  jobs :: "(kafka_message \<times> phase) list"
  slots :: nat
  wg :: nat
  chan :: "kafka_message list"
  closed :: bool
  cancelled :: bool
  listening :: bool
  taken :: "kafka_message list"
  handed :: "kafka_message list"
  panicked :: bool

text \<open>\<open>taken\<close> is what the coordinator has received, in order; \<open>handed\<close> is a ghost: the messages the
  dispatcher has taken responsibility for.\<close>

definition fresh :: process where
  "fresh = \<lparr>main_at = Fetching, jobs = [], slots = 0, wg = 0, chan = [], closed = False, cancelled = False,
     listening = True, taken = [], handed = [], panicked = False\<rparr>"

definition live :: "process \<Rightarrow> bool" where
  "live s \<longleftrightarrow> main_at s \<noteq> Exited \<and> \<not> panicked s"

section \<open>Steps\<close>

text \<open>The end of \<open>dispatchMessage\<close>: a message that is no new job is sent to the coordinator, a new
  job gets a slot and a goroutine.\<close>

inductive dispatch_step :: "nat \<Rightarrow> nat \<Rightarrow> process \<Rightarrow> process \<Rightarrow> bool" for n cap :: nat where
  skip_job: "main_at s = Fetching \<Longrightarrow>
    dispatch_step n cap s (s\<lparr>main_at := Sending m, handed := handed s @ [m]\<rparr>)"
| skip_sent: "main_at s = Sending m \<Longrightarrow> \<not> closed s \<Longrightarrow> length (chan s) < cap \<Longrightarrow>
    dispatch_step n cap s (s\<lparr>main_at := Fetching, chan := chan s @ [m]\<rparr>)"
| skip_given: "main_at s = Sending m \<Longrightarrow> \<not> closed s \<Longrightarrow> chan s = [] \<Longrightarrow> listening s \<Longrightarrow>
    dispatch_step n cap s (s\<lparr>main_at := Fetching, taken := taken s @ [m]\<rparr>)"
| start_job: "main_at s = Fetching \<Longrightarrow> slots s < n \<Longrightarrow>
    dispatch_step n cap s (s\<lparr>jobs := jobs s @ [(m, Running)], slots := slots s + 1, wg := wg s + 1,
      handed := handed s @ [m]\<rparr>)"

text \<open>The deferred function of \<open>processJobAsync\<close>.\<close>

inductive job_step :: "nat \<Rightarrow> process \<Rightarrow> process \<Rightarrow> bool" for cap :: nat where
  free_slot: "jobs s = us @ (m, Running) # vs \<Longrightarrow>
    job_step cap s (s\<lparr>jobs := us @ (m, Slot_Freed) # vs, slots := slots s - 1\<rparr>)"
| wg_done: "jobs s = us @ (m, Slot_Freed) # vs \<Longrightarrow>
    job_step cap s (s\<lparr>jobs := us @ (m, Wg_Done) # vs, wg := wg s - 1\<rparr>)"
| send_job: "jobs s = us @ (m, Wg_Done) # vs \<Longrightarrow> \<not> closed s \<Longrightarrow> length (chan s) < cap \<Longrightarrow>
    job_step cap s (s\<lparr>jobs := us @ (m, Sent) # vs, chan := chan s @ [m]\<rparr>)"
| give_job: "jobs s = us @ (m, Wg_Done) # vs \<Longrightarrow> \<not> closed s \<Longrightarrow> chan s = [] \<Longrightarrow> listening s \<Longrightarrow>
    job_step cap s (s\<lparr>jobs := us @ (m, Sent) # vs, taken := taken s @ [m]\<rparr>)"
| send_closed: "jobs s = us @ (m, Wg_Done) # vs \<Longrightarrow> closed s \<Longrightarrow>
    job_step cap s (s\<lparr>panicked := True\<rparr>)"

text \<open>The main loop of the coordinator.\<close>

inductive coordinator_step :: "process \<Rightarrow> process \<Rightarrow> bool" where
  receive: "listening s \<Longrightarrow> chan s = m # ms \<Longrightarrow>
    coordinator_step s (s\<lparr>chan := ms, taken := taken s @ [m]\<rparr>)"
| stop_cancelled: "listening s \<Longrightarrow> cancelled s \<Longrightarrow> coordinator_step s (s\<lparr>listening := False\<rparr>)"
| stop_closed: "listening s \<Longrightarrow> closed s \<Longrightarrow> chan s = [] \<Longrightarrow> coordinator_step s (s\<lparr>listening := False\<rparr>)"

text \<open>The cancellation by a signal, and the end of \<open>main\<close>.\<close>

inductive main_step :: "process \<Rightarrow> process \<Rightarrow> bool" where
  cancel: "\<not> cancelled s \<Longrightarrow> main_step s (s\<lparr>cancelled := True\<rparr>)"
| leave_run: "main_at s = Fetching \<Longrightarrow> cancelled s \<Longrightarrow> main_step s (s\<lparr>main_at := Waiting\<rparr>)"
| close_channel: "main_at s = Waiting \<Longrightarrow> wg s = 0 \<Longrightarrow> main_step s (s\<lparr>main_at := Joining, closed := True\<rparr>)"
| leave_main: "main_at s = Joining \<Longrightarrow> \<not> listening s \<Longrightarrow> main_step s (s\<lparr>main_at := Exited\<rparr>)"

definition step :: "nat \<Rightarrow> nat \<Rightarrow> process \<Rightarrow> process \<Rightarrow> bool" where
  "step n cap s t \<longleftrightarrow> live s \<and>
     (dispatch_step n cap s t \<or> job_step cap s t \<or> coordinator_step s t \<or> main_step s t)"

abbreviation steps :: "nat \<Rightarrow> nat \<Rightarrow> process \<Rightarrow> process \<Rightarrow> bool" where
  "steps n cap \<equiv> (step n cap)\<^sup>*\<^sup>*"

inductive reachable :: "nat \<Rightarrow> nat \<Rightarrow> process \<Rightarrow> bool" for n cap :: nat where
  start: "reachable n cap fresh"
| step: "reachable n cap s \<Longrightarrow> step n cap s t \<Longrightarrow> reachable n cap t"

inductive_cases dispatch_stepE: "dispatch_step n cap s t"
inductive_cases job_stepE: "job_step cap s t"
inductive_cases coordinator_stepE: "coordinator_step s t"
inductive_cases main_stepE: "main_step s t"
inductive_simps main_step_from_joining: "main_step (s\<lparr>main_at := Joining\<rparr>) t"

lemmas step_cases = dispatch_stepE job_stepE coordinator_stepE main_stepE

section \<open>Invariants\<close>

definition at_phase :: "(phase \<Rightarrow> bool) \<Rightarrow> process \<Rightarrow> nat" where
  "at_phase P s = length (filter (\<lambda>mp. P (snd mp)) (jobs s))"

definition unsent :: "process \<Rightarrow> kafka_message list" where
  "unsent s = map fst (filter (\<lambda>mp. snd mp < Sent) (jobs s)) @
     (case main_at s of Sending m \<Rightarrow> [m] | _ \<Rightarrow> [])"

definition counting :: "nat \<Rightarrow> nat \<Rightarrow> process \<Rightarrow> bool" where
  "counting n cap s \<longleftrightarrow> slots s = at_phase (\<lambda>p. p = Running) s \<and> wg s = at_phase (\<lambda>p. p < Wg_Done) s \<and>
     slots s \<le> n \<and> length (chan s) \<le> cap"

definition ordered :: "process \<Rightarrow> bool" where
  "ordered s \<longleftrightarrow> (closed s \<longleftrightarrow> main_at s = Joining \<or> main_at s = Exited) \<and> (closed s \<longrightarrow> wg s = 0) \<and>
     (main_at s = Waiting \<or> closed s \<longrightarrow> cancelled s)"

definition conserved :: "process \<Rightarrow> bool" where
  "conserved s \<longleftrightarrow> mset (handed s) = mset (unsent s) + mset (chan s) + mset (taken s)"

lemma phase_less [simp]:
  "Running < Wg_Done" "Slot_Freed < Wg_Done" "\<not> Wg_Done < Wg_Done" "\<not> Sent < Wg_Done"
  "Running < Sent" "Slot_Freed < Sent" "Wg_Done < Sent" "\<not> Sent < Sent"
  by (simp_all add: less_phase_def)

lemma fresh_invariants: "counting n cap fresh" "ordered fresh" "conserved fresh"
  by (simp_all add: counting_def ordered_def conserved_def unsent_def at_phase_def fresh_def)

lemma step_counting: "step n cap s t \<Longrightarrow> counting n cap s \<Longrightarrow> counting n cap t"
  unfolding step_def
  by (elim conjE disjE step_cases) (auto simp: counting_def at_phase_def)

lemma step_ordered:
  assumes "step n cap s t" and "ordered s"
  shows "ordered t"
  using assms unfolding step_def
  by (elim conjE disjE step_cases) (auto simp: ordered_def live_def)

lemma step_conserved: "step n cap s t \<Longrightarrow> conserved s \<Longrightarrow> conserved t"
  unfolding step_def
  by (elim conjE disjE step_cases) (auto simp: conserved_def unsent_def)

lemma reachable_invariants:
  assumes "reachable n cap s"
  shows "counting n cap s" "ordered s" "conserved s"
  using assms
  by (induction rule: reachable.induct) (auto intro: fresh_invariants step_counting step_ordered step_conserved)

section \<open>After the run loop\<close>

definition leaving :: "process \<Rightarrow> bool" where
  "leaving s \<longleftrightarrow> (main_at s = Waiting \<or> main_at s = Joining \<or> main_at s = Exited) \<and> cancelled s"

primrec phase_weight :: "phase \<Rightarrow> nat" where
  "phase_weight Running = 4"
| "phase_weight Slot_Freed = 3"
| "phase_weight Wg_Done = 2"
| "phase_weight Sent = 0"

text \<open>A bound on the steps that are left once \<open>run\<close> has returned.\<close>

definition remaining :: "process \<Rightarrow> nat" where
  "remaining s = sum_list (map (\<lambda>mp. phase_weight (snd mp)) (jobs s)) + length (chan s) +
     (if listening s then 1 else 0) + (if panicked s then 0 else 1) +
     (case main_at s of Waiting \<Rightarrow> 2 | Joining \<Rightarrow> 1 | _ \<Rightarrow> 0)"

lemma leaving_step:
  assumes st: "step n cap s t" and l: "leaving s"
  shows "leaving t \<and> remaining t < remaining s"
proof -
  from st have live: "live s"
    and "dispatch_step n cap s t \<or> job_step cap s t \<or> coordinator_step s t \<or> main_step s t"
    by (auto simp: step_def)
  then consider "dispatch_step n cap s t" | "job_step cap s t" | "coordinator_step s t" | "main_step s t" by blast
  then show ?thesis
  proof cases
    case 1
    then show ?thesis using l by cases (simp_all add: leaving_def)
  next
    case 2
    then show ?thesis using l live by cases (simp_all add: leaving_def remaining_def live_def)
  next
    case 3
    then show ?thesis using l by cases (simp_all add: leaving_def remaining_def)
  next
    case 4
    then show ?thesis using l by cases (simp_all add: leaving_def remaining_def)
  qed
qed

lemma leaving_steps: "steps n cap s t \<Longrightarrow> leaving s \<Longrightarrow> leaving t"
  by (induction rule: rtranclp_induct) (auto dest: leaving_step)

lemma leaving_bound: "(step n cap ^^ k) s t \<Longrightarrow> leaving s \<Longrightarrow> k + remaining t \<le> remaining s"
proof (induction k arbitrary: t)
  case (Suc k)
  from Suc.prems(1) obtain u where u: "(step n cap ^^ k) s u" "step n cap u t" by auto
  have "leaving u" by (rule leaving_steps [OF relpowp_imp_rtranclp [OF u(1)] Suc.prems(2)])
  with leaving_step [OF u(2)] Suc.IH [OF u(1) Suc.prems(2)] show ?case by linarith
qed simp

lemma reachable_steps: "steps n cap s t \<Longrightarrow> reachable n cap s \<Longrightarrow> reachable n cap t"
  by (induction rule: rtranclp_induct) (auto intro: reachable.step)

text \<open>Who can move: a job that has a phase left, else the main goroutine or the coordinator.\<close>

lemma leaving_progress:
  assumes r: "reachable n cap s" and l: "leaving s" and stuck: "\<not> (\<exists>t. step n cap s t)"
  shows "main_at s = Exited \<or> panicked s"
proof (rule ccontr)
  assume "\<not> (main_at s = Exited \<or> panicked s)"
  then have live: "live s" and m: "main_at s = Waiting \<or> main_at s = Joining"
    using l by (auto simp: live_def leaving_def)
  have no_job: "\<not> job_step cap s t" and no_coord: "\<not> coordinator_step s t" and no_main: "\<not> main_step s t" for t
    using stuck live by (auto simp: step_def)
  note inv = reachable_invariants [OF r]
  have "p \<noteq> Running \<and> p \<noteq> Slot_Freed" if mem: "(x, p) \<in> set (jobs s)" for x p
  proof -
    from mem obtain us vs where "jobs s = us @ (x, p) # vs" by (meson split_list)
    with no_job show ?thesis by (cases p) (auto intro: job_step.intros)
  qed
  then have "\<not> snd mp < Wg_Done" if "mp \<in> set (jobs s)" for mp
    using that by (cases mp; cases "snd mp") auto
  then have wg: "wg s = 0" using inv(1) by (auto simp: counting_def at_phase_def filter_empty_conv)
  show False
  proof (cases "main_at s = Waiting")
    case True
    with wg no_main show False by (auto intro: main_step.intros)
  next
    case False
    with m have j: "main_at s = Joining" by simp
    with inv(2) have "closed s" by (simp add: ordered_def)
    with no_coord no_main j show False
      by (cases "listening s"; cases "chan s") (auto intro: coordinator_step.intros main_step.intros)
  qed
qed

section \<open>Runs\<close>

lemma stepI:
  "live s \<Longrightarrow> dispatch_step n cap s t \<Longrightarrow> step n cap s t"
  "live s \<Longrightarrow> job_step cap s t \<Longrightarrow> step n cap s t"
  "live s \<Longrightarrow> coordinator_step s t \<Longrightarrow> step n cap s t"
  "live s \<Longrightarrow> main_step s t \<Longrightarrow> step n cap s t"
  by (simp_all add: step_def)

text \<open>Skipped messages fill the channel while the coordinator does not read.\<close>

definition filled :: "kafka_message \<Rightarrow> nat \<Rightarrow> process" where
  "filled m k = fresh\<lparr>chan := replicate k m, handed := replicate k m\<rparr>"

lemma filled_reachable: "k \<le> cap \<Longrightarrow> reachable n cap (filled m k)"
proof (induction k)
  case 0
  then show ?case using reachable.start by (simp add: filled_def fresh_def)
next
  case (Suc k)
  let ?s = "filled m k" let ?t = "?s\<lparr>main_at := Sending m, handed := handed ?s @ [m]\<rparr>"
  have "reachable n cap ?s" using Suc by simp
  moreover have "step n cap ?s ?t"
    by (rule stepI(1)) (auto simp: live_def filled_def fresh_def intro: skip_job [of "filled m k", simplified filled_def fresh_def, simplified])
  moreover have "step n cap ?t (?t\<lparr>main_at := Fetching, chan := chan ?t @ [m]\<rparr>)"
    by (rule stepI(1), simp add: live_def filled_def fresh_def, rule skip_sent)
      (use Suc.prems in \<open>simp_all add: filled_def fresh_def\<close>)
  moreover have "?t\<lparr>main_at := Fetching, chan := chan ?t @ [m]\<rparr> = filled m (Suc k)"
    by (simp add: filled_def fresh_def replicate_append_same)
  ultimately show ?case by (metis reachable.step)
qed

text \<open>A dispatcher that waits for a coordinator that is gone.\<close>

definition hung :: "nat \<Rightarrow> process \<Rightarrow> bool" where
  "hung cap s \<longleftrightarrow> (\<exists>m. main_at s = Sending m) \<and> length (chan s) = cap \<and> \<not> listening s \<and> jobs s = [] \<and>
     \<not> closed s \<and> cancelled s"

lemma hung_step: "step n cap s t \<Longrightarrow> hung cap s \<Longrightarrow> False"
  unfolding step_def by (elim conjE disjE step_cases) (auto simp: hung_def)

lemma hung_steps: "steps n cap s t \<Longrightarrow> hung cap s \<Longrightarrow> t = s"
  by (induction rule: converse_rtranclp_induct) (auto dest: hung_step)

section \<open>Properties\<close>

text \<open>
  Claim C21. In every reachable state of the process, the taken slots are exactly the jobs in their
  body, never more than \<open>concurrentJobs\<close>; the wait group counts exactly the goroutines that have
  not called \<open>Done\<close>; and the commit channel holds at most its capacity. Slots do not bound the
  goroutines: one waits for the coordinator after it has freed its slot.
\<close>

theorem slots_bound_running_jobs:
  assumes "reachable n cap s"
  shows "slots s = length (filter (\<lambda>mp. snd mp = Running) (jobs s)) \<and> slots s \<le> n \<and>
    wg s = length (filter (\<lambda>mp. snd mp < Wg_Done) (jobs s)) \<and> length (chan s) \<le> cap"
  using reachable_invariants(1) [OF assms] by (simp add: counting_def at_phase_def)

text \<open>
  Claim C22. No message is lost or doubled on its way to the coordinator: in every reachable state,
  the messages the dispatcher took on are, each once, with a goroutine that has not sent it, with
  the dispatcher itself, in the channel, or received.
\<close>

theorem messages_conserved:
  assumes "reachable n cap s"
  shows "mset (handed s) = mset (map fst (filter (\<lambda>mp. snd mp < Sent) (jobs s))) +
    mset (case main_at s of Sending m \<Rightarrow> [m] | _ \<Rightarrow> []) + mset (chan s) + mset (taken s)"
  using reachable_invariants(3) [OF assms] by (simp add: conserved_def unsent_def)

text \<open>
  Once \<open>run\<close> has returned, the worker stops: whatever the schedule, at most
  \<open>remaining\<close> steps are left, and where no step is left the process has returned from \<open>main\<close> or
  panicked.
\<close>

lemma shutdown_ends:
  assumes "reachable n cap s" and "main_at s = Waiting"
  shows "(\<forall>k t. (step n cap ^^ k) s t \<longrightarrow> k \<le> remaining s) \<and>
    (\<forall>t. steps n cap s t \<and> \<not> (\<exists>u. step n cap t u) \<longrightarrow> main_at t = Exited \<or> panicked t)"
proof -
  have l: "leaving s"
    using reachable_invariants(2) [OF assms(1)] assms(2) by (simp add: leaving_def ordered_def)
  have "main_at t = Exited \<or> panicked t" if "steps n cap s t" "\<not> (\<exists>u. step n cap t u)" for t
    using that leaving_steps [OF that(1) l] reachable_steps [OF that(1) assms(1)] leaving_progress by blast
  moreover have "k \<le> remaining s" if "(step n cap ^^ k) s t" for k t
    using leaving_bound [OF that l] by linarith
  ultimately show ?thesis by blast
qed

definition job_at :: "kafka_message \<Rightarrow> phase \<Rightarrow> nat \<Rightarrow> nat \<Rightarrow> process" where
  "job_at m p k w = fresh\<lparr>jobs := [(m, p)], slots := k, wg := w, handed := [m]\<rparr>"

lemma job_at_reachable:
  assumes "0 < n"
  shows "reachable n cap (job_at m Running 1 1)" "reachable n cap (job_at m Slot_Freed 0 1)"
    "reachable n cap (job_at m Wg_Done 0 0)"
proof -
  have "step n cap fresh (job_at m Running 1 1)"
    using start_job [of fresh n cap m] assms by (simp add: step_def live_def fresh_def job_at_def)
  with reachable.start show 1: "reachable n cap (job_at m Running 1 1)" by (rule reachable.step)
  have "step n cap (job_at m Running 1 1) (job_at m Slot_Freed 0 1)"
    using free_slot [of "job_at m Running 1 1" "[]" m "[]" cap] by (simp add: step_def live_def fresh_def job_at_def)
  with 1 show 2: "reachable n cap (job_at m Slot_Freed 0 1)" by (rule reachable.step)
  have "step n cap (job_at m Slot_Freed 0 1) (job_at m Wg_Done 0 0)"
    using wg_done [of "job_at m Slot_Freed 0 1" "[]" m "[]" cap] by (simp add: step_def live_def fresh_def job_at_def)
  with 2 show "reachable n cap (job_at m Wg_Done 0 0)" by (rule reachable.step)
qed

text \<open>A job is between \<open>Done\<close> and its send when the signal comes; \<open>main\<close> closes the channel.\<close>

lemma closing_reachable:
  assumes "0 < n"
  shows "reachable n cap ((job_at m Wg_Done 0 0)\<lparr>cancelled := True, main_at := Waiting\<rparr>)"
    "reachable n cap ((job_at m Wg_Done 0 0)\<lparr>cancelled := True, main_at := Joining, closed := True\<rparr>)"
proof -
  let ?s = "job_at m Wg_Done 0 0"
  have "step n cap ?s (?s\<lparr>cancelled := True\<rparr>)"
    using cancel [of ?s] by (simp add: step_def live_def fresh_def job_at_def)
  with job_at_reachable(3) [OF assms] have 1: "reachable n cap (?s\<lparr>cancelled := True\<rparr>)" by (rule reachable.step)
  have "step n cap (?s\<lparr>cancelled := True\<rparr>) (?s\<lparr>cancelled := True, main_at := Waiting\<rparr>)"
    using leave_run [of "?s\<lparr>cancelled := True\<rparr>"] by (simp add: step_def live_def fresh_def job_at_def)
  with 1 show 2: "reachable n cap (?s\<lparr>cancelled := True, main_at := Waiting\<rparr>)" by (rule reachable.step)
  have "step n cap (?s\<lparr>cancelled := True, main_at := Waiting\<rparr>)
      (?s\<lparr>cancelled := True, main_at := Joining, closed := True\<rparr>)"
    using close_channel [of "?s\<lparr>cancelled := True, main_at := Waiting\<rparr>"]
    by (simp add: step_def live_def fresh_def job_at_def)
  with 2 show "reachable n cap (?s\<lparr>cancelled := True, main_at := Joining, closed := True\<rparr>)" by (rule reachable.step)
qed

text \<open>
  Claim C39. The shutdown can panic, with any number of slots and any capacity: \<open>wg.Done\<close> comes
  before the send, so \<open>main\<close> may close the channel a goroutine is about to send to.
\<close>

theorem shutdown_can_panic:
  assumes "0 < n"
  shows "\<exists>s. reachable n cap s \<and> panicked s \<and> taken s = [] \<and> handed s = [m]"
proof -
  let ?s = "(job_at m Wg_Done 0 0)\<lparr>cancelled := True, main_at := Joining, closed := True\<rparr>"
  have "step n cap ?s (?s\<lparr>panicked := True\<rparr>)"
    using send_closed [of ?s "[]" m "[]" cap] by (simp add: step_def live_def fresh_def job_at_def)
  with closing_reachable(2) [OF assms] have "reachable n cap (?s\<lparr>panicked := True\<rparr>)" by (rule reachable.step)
  then show ?thesis by (intro exI [of _ "?s\<lparr>panicked := True\<rparr>"]) (simp add: job_at_def fresh_def)
qed

text \<open>
  Claim C40. The shutdown can also hang: the coordinator leaves at the signal while the dispatcher
  waits to send to a full channel; then no goroutine can move, and the process never returns.
\<close>

theorem shutdown_can_hang:
  "\<exists>s. reachable n cap s \<and> cancelled s \<and> (\<forall>t. steps n cap s t \<longrightarrow> main_at t = Sending m)"
proof -
  let ?f = "filled m cap"
  let ?s = "?f\<lparr>main_at := Sending m, handed := handed ?f @ [m]\<rparr>"
  have "step n cap ?f ?s"
    using skip_job [of ?f n cap m] by (simp add: step_def live_def filled_def fresh_def)
  with filled_reachable [OF order_refl] have 1: "reachable n cap ?s" by (rule reachable.step)
  have "step n cap ?s (?s\<lparr>cancelled := True\<rparr>)"
    using cancel [of ?s] by (simp add: step_def live_def filled_def fresh_def)
  with 1 have 2: "reachable n cap (?s\<lparr>cancelled := True\<rparr>)" by (rule reachable.step)
  have "step n cap (?s\<lparr>cancelled := True\<rparr>) (?s\<lparr>cancelled := True, listening := False\<rparr>)"
    using stop_cancelled [of "?s\<lparr>cancelled := True\<rparr>"] by (simp add: step_def live_def filled_def fresh_def)
  with 2 have 3: "reachable n cap (?s\<lparr>cancelled := True, listening := False\<rparr>)" by (rule reachable.step)
  have h: "hung cap (?s\<lparr>cancelled := True, listening := False\<rparr>)"
    by (simp add: hung_def filled_def fresh_def)
  have "main_at t = Sending m" if "steps n cap (?s\<lparr>cancelled := True, listening := False\<rparr>) t" for t
    using hung_steps [OF that h] by (simp add: filled_def)
  with 3 show ?thesis by (intro exI [of _ "?s\<lparr>cancelled := True, listening := False\<rparr>"]) simp
qed

definition sample_message :: kafka_message where
  "sample_message = new_message ''s'' ''{}'' zero_time"

theorem slots_bound_running_jobs_witness:
  "reachable 1 2 (job_at sample_message Running 1 1) \<and> wg (job_at sample_message Running 1 1) = 1"
  using slots_bound_running_jobs [OF job_at_reachable(1) [of 1 2 sample_message]] job_at_reachable(1) [of 1 2 sample_message]
  by (simp add: job_at_def)

theorem messages_conserved_witness:
  "mset (handed (job_at sample_message Wg_Done 0 0)) = {#sample_message#}"
  using messages_conserved [OF job_at_reachable(3) [of 1 2 sample_message]]
  by (simp add: job_at_def fresh_def)

lemma shutdown_ends_witness:
  "\<exists>s. reachable 1 2 s \<and> main_at s = Waiting \<and> (\<forall>k t. (step 1 2 ^^ k) s t \<longrightarrow> k \<le> 6)"
proof -
  let ?s = "(job_at sample_message Wg_Done 0 0)\<lparr>cancelled := True, main_at := Waiting\<rparr>"
  have r: "reachable 1 2 ?s" by (rule closing_reachable) simp
  moreover have "remaining ?s = 6" by (simp add: remaining_def job_at_def fresh_def)
  ultimately show ?thesis using shutdown_ends [OF r] by (intro exI [of _ ?s]) simp
qed

theorem shutdown_can_panic_witness:
  "\<exists>s. reachable 5 10 s \<and> panicked s \<and> taken s = []"
  using shutdown_can_panic [of 5 10 sample_message] by auto

theorem shutdown_can_hang_witness:
  "\<exists>s. reachable 5 10 s \<and> cancelled s \<and> main_at s = Sending sample_message"
  using shutdown_can_hang [of 5 10 sample_message] by (meson rtranclp.rtrancl_refl)

end
