(* ===== verification/Producer.thy ===== *)
theory Producer
  imports Kafka Models
begin

text \<open>
  \<open>internal/kafka/producer.go\<close>: the producer that appends crawl jobs to the frontier topic. The
  locale \<open>kafka_writer\<close> is what the Kafka client promises of \<open>WriteMessages\<close>, \<open>job_producer\<close> what a
  user of \<open>WriteJob\<close> relies on.
\<close>

definition WriteJob ::
  "(kafka_message \<Rightarrow> 'p act) \<Rightarrow> (go_time \<Rightarrow> go_error) \<Rightarrow> go_time \<Rightarrow> crawl_job \<Rightarrow> 'p act" where
  "WriteJob send time_err t job p =
     (case marshal enc_job job of
        None \<Rightarrow> (Some (time_err (job_created job)), p)
      | Some payload \<Rightarrow> send (new_message (job_session job) payload t) p)"

text \<open>The writer as its documentation describes it: a log; a send that fails may have been
  appended all the same.\<close>

record broker_log =
  appended :: "kafka_message list"
  sends :: nat

definition kafka_write :: "(nat \<Rightarrow> (go_error \<times> bool) option) \<Rightarrow> kafka_message \<Rightarrow> broker_log act" where
  "kafka_write faults msg p =
     (let written = p\<lparr>appended := appended p @ [msg], sends := Suc (sends p)\<rparr>
      in case faults (sends p) of
           None \<Rightarrow> (None, written)
         | Some (e, took) \<Rightarrow> (Some e, if took then written else p\<lparr>sends := Suc (sends p)\<rparr>))"

section \<open>Contracts\<close>

locale kafka_writer =
  fixes send :: "kafka_message \<Rightarrow> 'p act" and queued :: "'p \<Rightarrow> kafka_message list"
  assumes write_ok: "send msg p = (None, p') \<Longrightarrow> queued p' = queued p @ [msg]"
    and write_err: "send msg p = (Some e, p') \<Longrightarrow> queued p' = queued p \<or> queued p' = queued p @ [msg]"

locale job_producer =
  fixes write_job :: "go_time \<Rightarrow> crawl_job \<Rightarrow> 'p act" and queued :: "'p \<Rightarrow> kafka_message list"
  assumes job_ok: "write_job t job p = (None, p') \<Longrightarrow>
      \<exists>v. marshal enc_job job = Some v \<and> queued p' = queued p @ [new_message (job_session job) v t]"
    and job_err: "write_job t job p = (Some e, p') \<Longrightarrow>
      queued p' = queued p \<or>
      (\<exists>v. marshal enc_job job = Some v \<and> queued p' = queued p @ [new_message (job_session job) v t])"
begin

text \<open>A job that was accepted is the last one in the topic, and a reader decodes it.\<close>

lemma accepted_job_reads:
  assumes "wf_job job" and "write_job t job p = (None, p')"
  shows "\<exists>msg. queued p' = queued p @ [msg] \<and> msg_key msg = job_session job \<and>
    unmarshal (dec_struct job_fields) zero_job (msg_value msg) = Some job"
proof -
  from job_ok [OF assms(2)] obtain v where v: "marshal enc_job job = Some v"
      "queued p' = queued p @ [new_message (job_session job) v t]" by blast
  with job.marshal_ok [OF assms(1)] show ?thesis by (auto simp: new_message_def)
qed

end

sublocale kafka_writer \<subseteq> jobs: job_producer "WriteJob send time_err" queued for time_err
  by unfold_locales (auto simp: WriteJob_def split: option.splits dest: write_ok write_err)

interpretation kafka: kafka_writer "kafka_write faults" appended for faults
  by unfold_locales (auto simp: kafka_write_def Let_def split: option.splits prod.splits if_splits)

end
