(* ===== verification/Status_Store.thy ===== *)
theory Status_Store
  imports Models Redis
begin

text \<open>
  \<open>internal/store\<close>: the status of a crawl session kept under a key. The locale \<open>kv_store\<close> is what
  the Redis client promises, \<open>status_store\<close> what the API relies on; the second follows from the
  first for the operations of \<open>RedisStatusStore\<close>.
\<close>

section \<open>RedisStatusStore\<close>

text \<open>The client's \<open>Set\<close> (of a key, a value and an expiration) and \<open>Get\<close> are arguments, as are the fields
  \<open>prefix\<close> and \<open>ttl\<close> of the store; \<open>Inr None\<close> is the error \<open>redis.Nil\<close>.\<close>

type_synonym 's kv_set = "string \<Rightarrow> string \<Rightarrow> int \<Rightarrow> 's act"
type_synonym 's kv_get = "string \<Rightarrow> 's \<Rightarrow> (go_error + string option) \<times> 's"

definition SetStatus ::
  "'s kv_set \<Rightarrow> (go_time \<Rightarrow> go_error) \<Rightarrow> string \<Rightarrow> int \<Rightarrow> crawl_status \<Rightarrow> 's act" where
  "SetStatus kset time_err prefx life st s =
     (case marshal enc_status st of
        None \<Rightarrow> (Some (time_err (status_created st)), s)
      | Some payload \<Rightarrow> kset (prefx @ status_session st) payload life s)"

definition GetStatus ::
  "'s kv_get \<Rightarrow> (string \<Rightarrow> go_error) \<Rightarrow> string \<Rightarrow> string \<Rightarrow> 's \<Rightarrow> (go_error + crawl_status option) \<times> 's" where
  "GetStatus kget json_err prefx session s =
     (case kget (prefx @ session) s of
        (Inl e, s') \<Rightarrow> (Inl e, s')
      | (Inr None, s') \<Rightarrow> (Inr None, s')
      | (Inr (Some v), s') \<Rightarrow>
          (case unmarshal (dec_struct status_fields) zero_status v of
             None \<Rightarrow> (Inl (json_err v), s')
           | Some st \<Rightarrow> (Inr (Some st), s')))"

section \<open>Contracts\<close>

text \<open>A failed \<open>Set\<close> may still have taken effect; \<open>Get\<close> changes no entry.\<close>

locale kv_store =
  fixes kset :: "'s kv_set" and kget :: "'s kv_get" and look :: "'s \<Rightarrow> string \<Rightarrow> string option"
  assumes set_ok: "kset k v life s = (None, s') \<Longrightarrow> look s' = (look s)(k \<mapsto> v)"
    and set_err: "kset k v life s = (Some e, s') \<Longrightarrow> look s' = look s \<or> look s' = (look s)(k \<mapsto> v)"
    and get_ok: "kget k s = (Inr found, s') \<Longrightarrow> found = look s k"
    and get_look: "kget k s = (res, s') \<Longrightarrow> look s' = look s"

locale status_store =
  fixes set_status :: "crawl_status \<Rightarrow> 's act"
    and get_status :: "string \<Rightarrow> 's \<Rightarrow> (go_error + crawl_status option) \<times> 's"
    and knows :: "'s \<Rightarrow> string \<Rightarrow> crawl_status \<Rightarrow> bool"
  assumes set_knows: "wf_status st \<Longrightarrow> set_status st s = (None, s') \<Longrightarrow> knows s' (status_session st) st"
    and set_other: "set_status st s = (r, s') \<Longrightarrow> sid \<noteq> status_session st \<Longrightarrow> knows s sid x \<Longrightarrow> knows s' sid x"
    and get_knows: "knows s sid x \<Longrightarrow> get_status sid s = (Inr y, s') \<Longrightarrow> y = Some x"
    and get_keeps: "get_status sid s = (res, s') \<Longrightarrow> knows s sid' x \<Longrightarrow> knows s' sid' x"
begin

text \<open>A status that was set is read back, or reading fails.\<close>

lemma read_own_write:
  assumes "wf_status st" and "set_status st s = (None, s1)" and "get_status (status_session st) s1 = (r, s2)"
  shows "r = Inr (Some st) \<or> (\<exists>e. r = Inl e)"
  using get_knows [OF set_knows [OF assms(1,2)]] assms(3) by (cases r) auto

end

sublocale kv_store \<subseteq> as_status: status_store "SetStatus kset time_err prefx life" "GetStatus kget json_err prefx"
  "\<lambda>s sid st. \<exists>v. look s (prefx @ sid) = Some v \<and> unmarshal (dec_struct status_fields) zero_status v = Some st"
  for time_err json_err prefx life
proof
  fix st s s'
  assume w: "wf_status st" and s: "SetStatus kset time_err prefx life st s = (None, s')"
  from status.marshal_ok [OF w] obtain p where p: "marshal enc_status st = Some p"
      "unmarshal (dec_struct status_fields) zero_status p = Some st" by blast
  with s have "kset (prefx @ status_session st) p life s = (None, s')" by (simp add: SetStatus_def)
  from set_ok [OF this] p(2)
  show "\<exists>v. look s' (prefx @ status_session st) = Some v \<and>
      unmarshal (dec_struct status_fields) zero_status v = Some st" by simp
next
  fix st s r s' sid x
  assume s: "SetStatus kset time_err prefx life st s = (r, s')" and i: "sid \<noteq> status_session st"
    and k: "\<exists>v. look s (prefx @ sid) = Some v \<and> unmarshal (dec_struct status_fields) zero_status v = Some x"
  have "look s' (prefx @ sid) = look s (prefx @ sid)"
    using s i set_ok set_err
    by (cases r) (fastforce simp: SetStatus_def split: option.splits)+
  with k show "\<exists>v. look s' (prefx @ sid) = Some v \<and> unmarshal (dec_struct status_fields) zero_status v = Some x"
    by simp
next
  fix s sid x y s'
  assume k: "\<exists>v. look s (prefx @ sid) = Some v \<and> unmarshal (dec_struct status_fields) zero_status v = Some x"
    and g: "GetStatus kget json_err prefx sid s = (Inr y, s')"
  from k obtain v where v: "look s (prefx @ sid) = Some v"
      "unmarshal (dec_struct status_fields) zero_status v = Some x" by blast
  obtain r t where r: "kget (prefx @ sid) s = (r, t)" by (cases "kget (prefx @ sid) s")
  with g get_ok v show "y = Some x"
    by (cases r) (auto simp: GetStatus_def split: option.splits)
next
  fix sid s r s' sid' x
  assume g: "GetStatus kget json_err prefx sid s = (r, s')"
    and k: "\<exists>v. look s (prefx @ sid') = Some v \<and> unmarshal (dec_struct status_fields) zero_status v = Some x"
  obtain r' t where r: "kget (prefx @ sid) s = (r', t)" by (cases "kget (prefx @ sid) s")
  with g have "s' = t" by (auto simp: GetStatus_def split: sum.splits option.splits)
  with get_look [OF r] k show "\<exists>v. look s' (prefx @ sid') = Some v \<and>
      unmarshal (dec_struct status_fields) zero_status v = Some x" by simp
qed

interpretation redis_kv: kv_store "redis_set faults" "redis_get faults" "\<lambda>s k. fmlookup (entries s) k" for faults
  by unfold_locales (auto simp: redis_set_def redis_get_def Let_def fun_eq_iff split: option.splits prod.splits if_splits)

end
