(* ===== verification/Api.thy ===== *)
theory Api
  imports OL_Client Producer Status_Store Go_Http
begin

text \<open>
  \<open>cmd/api/main.go\<close>: the handlers of the public API. A request is the method, the path and the raw
  query the handler sees; the mux that chooses the handler, and the server, are \<open>net/http\<close>. The
  job producer and the status store are arguments, as the two interfaces of \<open>server\<close> are.
\<close>

section \<open>Handlers\<close>

record http_call =
  call_method :: string
  call_path :: string
  call_query :: string

text \<open>The state of a server: readings of the clock so far, the producer's topic, the status store.\<close>

record ('p, 's) server =
  ticks :: nat
  prod :: 'p
  store :: 's

definition newSessionID :: "go_time \<Rightarrow> string" where
  "newSessionID t = replace_char (CHR ''.'') [] (format_compact t)"

definition normalizeSeedURL :: "string \<Rightarrow> string" where
  "normalizeSeedURL seed =
     (if has_prefix seed ''http://'' \<or> has_prefix seed ''https://'' then EnsureJSONURL seed
      else SearchURL seed)"

text \<open>The encoder writes nothing when it fails; the status line is out by then, so only the text of
  \<open>http.Error\<close> reaches the client.\<close>

definition writeJSON :: "string option \<Rightarrow> int \<Rightarrow> http_response" where
  "writeJSON payload code =
     \<lparr>resp_status = code, resp_type = ''application/json'',
      resp_body = (case payload of None \<Rightarrow> ''failed to encode response'' | Some p \<Rightarrow> p) @ [CHR 0x0A]\<rparr>"

definition queued_status :: "string \<Rightarrow> string \<Rightarrow> go_time \<Rightarrow> crawl_status" where
  "queued_status sid url t =
     \<lparr>status_session = sid, status_seed = url, status_text = ''queued'', status_created = t\<rparr>"

definition seed_job :: "string \<Rightarrow> string \<Rightarrow> go_time \<Rightarrow> crawl_job" where
  "seed_job sid url t =
     \<lparr>job_session = sid, job_seed = url, job_url = url, job_depth = 0, job_created = t\<rparr>"

definition handleCrawl ::
  "(nat \<Rightarrow> go_time) \<Rightarrow> (go_time \<Rightarrow> crawl_job \<Rightarrow> 'p act) \<Rightarrow> (crawl_status \<Rightarrow> 's act) \<Rightarrow> http_call \<Rightarrow>
   ('p, 's) server \<Rightarrow> http_response \<times> ('p, 's) server" where
  "handleCrawl now write_job set_status r a =
     (if call_method r \<noteq> ''POST'' then (http_error ''method not allowed'' 405, a)
      else let seedURL = trim_space (query_get (call_query r) ''url'')
      in if seedURL = [] then (http_error ''missing url'' 400, a)
      else let n = ticks a;
               normalizedSeed = normalizeSeedURL seedURL;
               sid = newSessionID (now n);
               createdAt = now (Suc n);
               status = queued_status sid normalizedSeed createdAt;
               job = seed_job sid normalizedSeed createdAt
      in case write_job (now (Suc (Suc n))) job (prod a) of
           (Some e, p) \<Rightarrow>
             (http_error ''failed to enqueue job'' 502, a\<lparr>ticks := n + 3, prod := p\<rparr>)
         | (None, p) \<Rightarrow>
             (case set_status status (store a) of
                (Some e, d) \<Rightarrow>
                  (http_error ''failed to persist status'' 502, a\<lparr>ticks := n + 3, prod := p, store := d\<rparr>)
              | (None, d) \<Rightarrow>
                  (writeJSON (marshal enc_status status) 202, a\<lparr>ticks := n + 3, prod := p, store := d\<rparr>)))"

definition session_of_path :: "string \<Rightarrow> string" where
  "session_of_path path = trim_char (CHR ''/'') (trim_prefix path ''/crawl/'')"

definition handleCrawlStatus ::
  "(string \<Rightarrow> 's \<Rightarrow> (go_error + crawl_status option) \<times> 's) \<Rightarrow> http_call \<Rightarrow>
   ('p, 's) server \<Rightarrow> http_response \<times> ('p, 's) server" where
  "handleCrawlStatus get_status r a =
     (if call_method r \<noteq> ''GET'' then (http_error ''method not allowed'' 405, a)
      else let sid = session_of_path (call_path r)
      in if sid = [] then (http_error ''missing session id'' 400, a)
      else case get_status sid (store a) of
          (Inl e, d) \<Rightarrow> (http_error ''failed to load status'' 502, a\<lparr>store := d\<rparr>)
        | (Inr None, d) \<Rightarrow> (http_error ''not found'' 404, a\<lparr>store := d\<rparr>)
        | (Inr (Some status), d) \<Rightarrow> (writeJSON (marshal enc_status status) 200, a\<lparr>store := d\<rparr>))"

definition handleMetrics :: "http_call \<Rightarrow> http_response" where
  "handleMetrics r =
     (if call_method r \<noteq> ''GET'' then http_error ''method not allowed'' 405
      else \<lparr>resp_status = 200, resp_type = ''text/plain; version=0.0.4'',
            resp_body = ''relentless_api_up 1'' @ [CHR 0x0A]\<rparr>)"

text \<open>The routes of \<open>main\<close>, and a server answering one request after another.\<close>

datatype api_request = Crawl http_call | Crawl_Status http_call | Metrics http_call

fun serve ::
  "(nat \<Rightarrow> go_time) \<Rightarrow> (go_time \<Rightarrow> crawl_job \<Rightarrow> 'p act) \<Rightarrow> (crawl_status \<Rightarrow> 's act) \<Rightarrow>
   (string \<Rightarrow> 's \<Rightarrow> (go_error + crawl_status option) \<times> 's) \<Rightarrow> api_request \<Rightarrow>
   ('p, 's) server \<Rightarrow> http_response \<times> ('p, 's) server" where
  "serve now write_job set_status get_status (Crawl r) a = handleCrawl now write_job set_status r a"
| "serve now write_job set_status get_status (Crawl_Status r) a = handleCrawlStatus get_status r a"
| "serve now write_job set_status get_status (Metrics r) a = (handleMetrics r, a)"

fun serve_all ::
  "(nat \<Rightarrow> go_time) \<Rightarrow> (go_time \<Rightarrow> crawl_job \<Rightarrow> 'p act) \<Rightarrow> (crawl_status \<Rightarrow> 's act) \<Rightarrow>
   (string \<Rightarrow> 's \<Rightarrow> (go_error + crawl_status option) \<times> 's) \<Rightarrow> api_request list \<Rightarrow>
   ('p, 's) server \<Rightarrow> ('p, 's) server" where
  "serve_all now write_job set_status get_status [] a = a"
| "serve_all now write_job set_status get_status (r # rs) a =
     serve_all now write_job set_status get_status rs (snd (serve now write_job set_status get_status r a))"

section \<open>Session ids\<close>

lemma replace_char_append: "replace_char c r (s @ t) = replace_char c r s @ replace_char c r t"
  by (simp add: replace_char_def)

lemma replace_char_digits: "list_all is_digit s \<Longrightarrow> replace_char (CHR ''.'') r s = s"
  by (induction s) (auto simp: replace_char_def is_digit_def byte_in_def)

lemma replace_char_Cons: "replace_char c r (d # s) = (if d = c then r else [d]) @ replace_char c r s"
  by (simp add: replace_char_def)

lemma newSessionID_fields:
  "newSessionID t = zero_pad 4 (nat (t_year t)) @ zero_pad 2 (t_month t) @ zero_pad 2 (t_day t) @
     zero_pad 2 (t_hour t) @ zero_pad 2 (t_min t) @ zero_pad 2 (t_sec t) @ zero_pad 9 (t_nsec t)"
  by (simp add: newSessionID_def format_compact_def replace_char_append replace_char_Cons
      replace_char_digits zero_pad_digits)

lemma newSessionID_digits: "list_all is_digit (newSessionID t)" "newSessionID t \<noteq> []"
  by (simp_all add: newSessionID_fields zero_pad_digits)

lemma zero_pad_eq: "zero_pad w n = zero_pad w m \<longleftrightarrow> n = m"
  by (metis digits_val_zero_pad)

lemma newSessionID_inj:
  assumes t: "wf_time t" and u: "wf_time u" and eq: "newSessionID t = newSessionID u"
  shows "t = u"
proof -
  have len: "length (zero_pad 4 (nat (t_year v))) = 4" "length (zero_pad 2 (t_month v)) = 2"
      "length (zero_pad 2 (t_day v)) = 2" "length (zero_pad 2 (t_hour v)) = 2"
      "length (zero_pad 2 (t_min v)) = 2" "length (zero_pad 2 (t_sec v)) = 2"
    if "wf_time v" for v
    using that days_in_le [of "t_month v" "t_year v"]
    by (auto simp: wf_time_def length_zero_pad_2 length_zero_pad_4)
  have "nat (t_year t) = nat (t_year u) \<and> t_month t = t_month u \<and> t_day t = t_day u \<and> t_hour t = t_hour u \<and>
      t_min t = t_min u \<and> t_sec t = t_sec u \<and> t_nsec t = t_nsec u"
    using eq len [OF t] len [OF u] by (simp add: newSessionID_fields zero_pad_eq)
  then show ?thesis
    using t u by (auto simp: wf_time_def nat_eq_iff intro!: go_time.equality)
qed

lemma trim_char_plain: "c \<notin> set s \<Longrightarrow> trim_char c s = s"
proof -
  assume c: "c \<notin> set s"
  then have "dropWhile (\<lambda>d. d = c) s = s" by (cases s) auto
  moreover have "trim_right_char c s = s"
    using c by (intro trim_right_char_id) (metis last_in_set)
  ultimately show ?thesis by (simp add: trim_char_def)
qed

lemma session_of_path_id: "session_of_path (''/crawl/'' @ newSessionID t) = newSessionID t"
proof -
  have "CHR ''/'' \<notin> set (newSessionID t)"
    using newSessionID_digits(1) [of t] by (auto simp: list_all_iff is_digit_def byte_in_def)
  then show ?thesis by (simp add: session_of_path_def trim_prefix_def trim_char_plain)
qed

section \<open>What the handlers need of producer and store\<close>

locale api_backend = job_producer write_job queued + status_store set_status get_status knows
  for write_job :: "go_time \<Rightarrow> crawl_job \<Rightarrow> 'p act" and queued :: "'p \<Rightarrow> kafka_message list"
    and set_status :: "crawl_status \<Rightarrow> 's act"
    and get_status :: "string \<Rightarrow> 's \<Rightarrow> (go_error + crawl_status option) \<times> 's"
    and knows :: "'s \<Rightarrow> string \<Rightarrow> crawl_status \<Rightarrow> bool"
begin

text \<open>An accepted request: its job is queued last, its status is known, and both are what the
  request asked for.\<close>

lemma accepted:
  assumes h: "handleCrawl now write_job set_status r a = (resp, a')" and ok: "resp_status resp = 202"
  defines "seed \<equiv> trim_space (query_get (call_query r) ''url'')" and "sid \<equiv> newSessionID (now (ticks a))"
    and "created \<equiv> now (Suc (ticks a))"
  shows "call_method r = ''POST'' \<and> seed \<noteq> [] \<and> ticks a' = ticks a + 3 \<and>
    resp = writeJSON (marshal enc_status (queued_status sid (normalizeSeedURL seed) created)) 202 \<and>
    write_job (now (ticks a + 2)) (seed_job sid (normalizeSeedURL seed) created) (prod a) = (None, prod a') \<and>
    set_status (queued_status sid (normalizeSeedURL seed) created) (store a) = (None, store a')"
  using h ok
  by (auto simp: handleCrawl_def http_error_def writeJSON_def seed_def sid_def created_def Let_def
      split: if_splits prod.splits option.splits)

lemma serve_ticks: "ticks a \<le> ticks (snd (serve now write_job set_status get_status r a))"
  by (cases r) (auto simp: handleCrawl_def handleCrawlStatus_def Let_def split: prod.splits option.splits sum.splits)

lemma serve_keeps:
  assumes "knows (store a) sid x"
    and "\<And>k. ticks a \<le> k \<Longrightarrow> k < ticks (snd (serve now write_job set_status get_status r a)) \<Longrightarrow>
      newSessionID (now k) \<noteq> sid"
  shows "knows (store (snd (serve now write_job set_status get_status r a))) sid x"
proof (cases r)
  case (Crawl c)
  show ?thesis
  proof (cases "ticks a < ticks (snd (serve now write_job set_status get_status r a))")
    case True
    have "newSessionID (now (ticks a)) \<noteq> sid" by (rule assms(2) [OF _ True]) simp
    with Crawl assms(1) show ?thesis
      by (auto simp: handleCrawl_def queued_status_def Let_def split: prod.splits option.splits
          intro: set_other [OF _ _ assms(1)])
  next
    case False
    with Crawl assms(1) show ?thesis
      by (auto simp: handleCrawl_def Let_def split: prod.splits option.splits)
  qed
next
  case (Crawl_Status c)
  with assms(1) show ?thesis
    by (auto simp: handleCrawlStatus_def Let_def split: prod.splits option.splits sum.splits
        intro: get_keeps [OF _ assms(1)])
next
  case (Metrics c)
  with assms(1) show ?thesis by simp
qed

lemma serve_all_ticks: "ticks a \<le> ticks (serve_all now write_job set_status get_status rs a)"
proof (induction rs arbitrary: a)
  case (Cons r rs)
  from Cons.IH serve_ticks [of a now r] show ?case by (simp add: le_trans)
qed simp

lemma serve_all_keeps:
  assumes "knows (store a) sid x"
    and "\<And>k. ticks a \<le> k \<Longrightarrow> k < ticks (serve_all now write_job set_status get_status rs a) \<Longrightarrow>
      newSessionID (now k) \<noteq> sid"
  shows "knows (store (serve_all now write_job set_status get_status rs a)) sid x"
  using assms
proof (induction rs arbitrary: a)
  case (Cons r rs)
  let ?a = "snd (serve now write_job set_status get_status r a)"
  let ?b = "serve_all now write_job set_status get_status rs ?a"
  note le = serve_ticks [of a now r] serve_all_ticks [of ?a now rs]
  have "knows (store ?a) sid x"
    using le by (intro serve_keeps [OF Cons.prems(1)] Cons.prems(2)) simp_all
  moreover have "newSessionID (now k) \<noteq> sid" if "ticks ?a \<le> k" "k < ticks ?b" for k
    using that le by (intro Cons.prems(2)) simp_all
  ultimately show ?case using Cons.IH by simp
qed simp

lemma status_request:
  assumes "knows (store a) (newSessionID t) st"
    and "handleCrawlStatus get_status \<lparr>call_method = ''GET'', call_path = ''/crawl/'' @ newSessionID t,
      call_query = q\<rparr> a = (resp, a')"
  shows "resp = writeJSON (marshal enc_status st) 200 \<or> resp = http_error ''failed to load status'' 502"
  using assms(2) newSessionID_digits(2) [of t] get_knows [OF assms(1)]
  by (auto simp: handleCrawlStatus_def session_of_path_id [simplified] Let_def
      split: prod.splits sum.splits option.splits)

end

interpretation redis_api: api_backend "WriteJob (kafka_write kafka_faults) time_err" appended
  "SetStatus (redis_set redis_faults) time_err prefx life" "GetStatus (redis_get redis_faults) json_err prefx"
  "\<lambda>s id st. \<exists>v. fmlookup (entries s) (prefx @ id) = Some v \<and>
     unmarshal (dec_struct status_fields) zero_status v = Some st"
  for kafka_faults redis_faults time_err json_err prefx life
  by unfold_locales

section \<open>Seed URLs\<close>

lemma query_escape_append: "query_escape (s @ t) = query_escape s @ query_escape t"
  by (simp add: query_escape_def)

lemma SearchURL_append: "SearchURL (q @ r) = SearchURL q @ query_escape r"
  by (simp add: SearchURL_def query_escape_append)

lemma query_escape_json: "query_escape ''.json'' = ''.json''"
  by (simp add: query_escape_def escape_char_def is_unreserved_def is_alnum_def byte_in_def is_digit_def)

lemma SearchURL_last: "last (SearchURL q) \<noteq> CHR ''/''"
proof (cases "query_escape q = []")
  case False
  then have "last (SearchURL q) \<in> set (query_escape q)" by (simp add: SearchURL_def)
  with query_escape_no_sep [of "CHR ''/''" q] show ?thesis by auto
qed (simp add: SearchURL_def)

section \<open>Properties\<close>

text \<open>
  A request to start a crawl has exactly one of five outcomes. It is refused without any
  effect for another method than POST (405) or for a blank url (400). Otherwise one job of depth 0
  for the normalized URL is offered to the frontier, and only when that succeeds the status is
  stored: the answer is 502 when the job, or afterwards the status, is refused, and 202 with the
  status as JSON else.
\<close>

lemma crawl_request_outcome:
  "handleCrawl now write_job set_status r a =
     (let seed = trim_space (query_get (call_query r) ''url'');
          t = ticks a; sid = newSessionID (now t); url = normalizeSeedURL seed;
          st = queued_status sid url (now (t + 1))
      in if call_method r \<noteq> ''POST'' then (http_error ''method not allowed'' 405, a)
         else if seed = [] then (http_error ''missing url'' 400, a)
         else case and_then (\<lambda>(p, d). apsnd (\<lambda>p'. (p', d)) (write_job (now (t + 2)) (seed_job sid url (now (t + 1))) p))
                (\<lambda>(p, d). apsnd (\<lambda>d'. (p, d')) (set_status st d)) (prod a, store a) of
             (None, p, d) \<Rightarrow> (writeJSON (marshal enc_status st) 202, \<lparr>ticks = t + 3, prod = p, store = d\<rparr>)
           | (Some e, p, d) \<Rightarrow>
               (http_error (if fst (write_job (now (t + 2)) (seed_job sid url (now (t + 1))) (prod a)) = None
                  then ''failed to persist status'' else ''failed to enqueue job'') 502,
                \<lparr>ticks = t + 3, prod = p, store = d\<rparr>))"
  by (cases a) (auto simp: handleCrawl_def and_then_def Let_def numeral_eq_Suc split: prod.splits option.splits)

text \<open>
  An accepted crawl can be looked up: while clock readings differ, the session named in
  the answer is found under \<open>/crawl/<session>\<close> with the same body, whatever requests the server
  answers in between and whichever calls of producer and store fail, unless the lookup itself
  fails. Its job is the last message of the frontier when the answer is given.
\<close>

lemma accepted_crawl_is_found:
  fixes a :: "(broker_log, redis) server"
  assumes clock: "inj_on now {..<ticks a2}" "\<And>n. n < ticks a2 \<Longrightarrow> wf_time (now n)"
    and post: "handleCrawl now (WriteJob (kafka_write kf) te) (SetStatus (redis_set rf) te prefx life) r a = (resp, a1)"
    and ok: "resp_status resp = 202"
    and utf8: "valid_utf8 (normalizeSeedURL (trim_space (query_get (call_query r) ''url'')))"
    and rest: "a2 = serve_all now (WriteJob (kafka_write kf) te) (SetStatus (redis_set rf) te prefx life)
      (GetStatus (redis_get rf) je prefx) rs a1"
    and get: "handleCrawlStatus (GetStatus (redis_get rf) je prefx)
      \<lparr>call_method = ''GET'', call_path = ''/crawl/'' @ newSessionID (now (ticks a)), call_query = q\<rparr> a2 = (resp', a3)"
  shows "(resp' = resp\<lparr>resp_status := 200\<rparr> \<or> resp' = http_error ''failed to load status'' 502) \<and>
    (\<exists>msg. appended (prod a1) = appended (prod a) @ [msg] \<and>
       unmarshal (dec_struct job_fields) zero_job (msg_value msg) =
         Some (seed_job (newSessionID (now (ticks a)))
           (normalizeSeedURL (trim_space (query_get (call_query r) ''url''))) (now (Suc (ticks a)))))"
proof -
  let ?sid = "newSessionID (now (ticks a))"
  let ?url = "normalizeSeedURL (trim_space (query_get (call_query r) ''url''))"
  let ?st = "queued_status ?sid ?url (now (Suc (ticks a)))"
  let ?job = "seed_job ?sid ?url (now (Suc (ticks a)))"
  note acc = redis_api.accepted [OF post ok]
  have le: "ticks a1 \<le> ticks a2" unfolding rest by (rule redis_api.serve_all_ticks)
  with acc have less: "Suc (ticks a) < ticks a2" by simp
  have sid: "valid_utf8 ?sid" by (intro valid_utf8_ascii digits_ascii newSessionID_digits)
  have st: "wf_status ?st" and job: "wf_job ?job"
    using sid utf8 clock(2) [of "Suc (ticks a)"] less
    by (simp_all add: wf_status_def wf_job_def queued_status_def seed_job_def in_int64_iff valid_utf8_ascii is_ascii_def)
  have fresh: "newSessionID (now k) \<noteq> ?sid" if k: "ticks a1 \<le> k" "k < ticks a2" for k
  proof
    assume "newSessionID (now k) = ?sid"
    with k less have "now k = now (ticks a)" by (intro newSessionID_inj clock(2)) simp_all
    with clock(1) k less have "k = ticks a" by (auto simp: inj_on_def)
    with acc k show False by simp
  qed
  have sess: "status_session ?st = ?sid" by (simp add: queued_status_def)
  from acc have set: "SetStatus (redis_set rf) te prefx life ?st (store a) = (None, store a1)" by simp
  have "\<exists>v. fmlookup (entries (store a1)) (prefx @ ?sid) = Some v \<and>
      unmarshal (dec_struct status_fields) zero_status v = Some ?st"
    using redis_kv.as_status.set_knows [OF st set] sess by simp
  then have "\<exists>v. fmlookup (entries (store a2)) (prefx @ ?sid) = Some v \<and>
      unmarshal (dec_struct status_fields) zero_status v = Some ?st"
    unfolding rest by (rule redis_api.serve_all_keeps) (rule fresh, simp_all add: rest)
  then have "resp' = writeJSON (marshal enc_status ?st) 200 \<or> resp' = http_error ''failed to load status'' 502"
    by (rule redis_api.status_request [OF _ get])
  moreover from kafka.jobs.accepted_job_reads [OF job] acc obtain msg
    where "appended (prod a1) = appended (prod a) @ [msg]"
      "unmarshal (dec_struct job_fields) zero_job (msg_value msg) = Some ?job" by blast
  ultimately show ?thesis using acc by (auto simp: writeJSON_def)
qed

text \<open>
  Seeds are normalized to Open Library JSON URLs, but not idempotently: the search URL
  the API itself made for a text is turned, when submitted again, into the search for that text
  followed by \<open>.json\<close>.
\<close>

lemma search_seed_not_idempotent:
  assumes "\<not> has_suffix (SearchURL q) ''.json''"
  shows "normalizeSeedURL (SearchURL q) = SearchURL (q @ ''.json'') \<and>
    normalizeSeedURL (SearchURL q) \<noteq> SearchURL q"
proof -
  have "normalizeSeedURL (SearchURL q) = trim_right_char (CHR ''/'') (SearchURL q) @ ''.json''"
    using assms by (simp add: normalizeSeedURL_def EnsureJSONURL_def) (simp add: SearchURL_def)
  also have "trim_right_char (CHR ''/'') (SearchURL q) = SearchURL q"
    using SearchURL_last by (intro trim_right_char_id) simp
  finally show ?thesis by (simp add: SearchURL_append query_escape_json)
qed

text \<open>A server that has read no clock and answers every call, for the witnesses.\<close>

definition sample_clock :: "nat \<Rightarrow> go_time" where
  "sample_clock n = zero_time\<lparr>t_nsec := n\<rparr>"

definition sample_server :: "(broker_log, redis) server" where
  "sample_server = \<lparr>ticks = 0, prod = \<lparr>appended = [], sends = 0\<rparr>, store = new_redis\<rparr>"

definition sample_call :: http_call where
  "sample_call = \<lparr>call_method = ''POST'', call_path = ''/crawl'',
     call_query = encode_pair ''url'' ''https://openlibrary.org/works/OL1W.json''\<rparr>"

lemma sample_clock_wf: "n < 1000 \<Longrightarrow> wf_time (sample_clock n)"
  by (simp add: sample_clock_def zero_time_def wf_time_def days_in_def)

lemma sample_clock_inj: "inj_on sample_clock A"
  by (rule inj_onI) (simp add: sample_clock_def zero_time_def)

lemma sample_seed:
  "normalizeSeedURL (trim_space (query_get (call_query sample_call) ''url'')) =
     ''https://openlibrary.org/works/OL1W.json''"
  "trim_space (query_get (call_query sample_call) ''url'') \<noteq> []"
proof -
  have "trim_space ''https://openlibrary.org/works/OL1W.json'' = ''https://openlibrary.org/works/OL1W.json''"
    by (rule trim_space_plain) simp_all
  then show "normalizeSeedURL (trim_space (query_get (call_query sample_call) ''url'')) =
      ''https://openlibrary.org/works/OL1W.json''"
    and "trim_space (query_get (call_query sample_call) ''url'') \<noteq> []"
    by (simp_all add: sample_call_def query_get_encode normalizeSeedURL_def EnsureJSONURL_def has_suffix_def)
qed

lemma handleCrawl_ok:
  assumes "call_method r = ''POST''" and "trim_space (query_get (call_query r) ''url'') = seed" and "seed \<noteq> []"
    and "fst (write_job (now (Suc (Suc (ticks a)))) (seed_job (newSessionID (now (ticks a))) (normalizeSeedURL seed)
      (now (Suc (ticks a)))) (prod a)) = None"
    and "fst (set_status (queued_status (newSessionID (now (ticks a))) (normalizeSeedURL seed) (now (Suc (ticks a))))
      (store a)) = None"
    and "handleCrawl now write_job set_status r a = (resp, a1)"
  shows "resp_status resp = 202 \<and> ticks a1 = ticks a + 3"
  using assms by (auto simp: handleCrawl_def writeJSON_def Let_def split: prod.splits option.splits)

lemma reliable_calls:
  "wf_time (job_created job) \<Longrightarrow> fst (WriteJob (kafka_write (\<lambda>n. None)) te t job p) = None"
  "wf_time (status_created st) \<Longrightarrow> fst (SetStatus (redis_set (\<lambda>n. None)) te prefx life st s) = None"
  using wf_time_marshals [of "job_created job"] wf_time_marshals [of "status_created st"]
  by (auto simp: WriteJob_def SetStatus_def marshal_def enc_job_def enc_status_def kafka_write_def redis_set_def Let_def)

lemma sample_accepted:
  "handleCrawl sample_clock (WriteJob (kafka_write (\<lambda>n. None)) te) (SetStatus (redis_set (\<lambda>n. None)) te prefx life)
     sample_call sample_server = (resp, a1) \<Longrightarrow>
   resp_status resp = 202 \<and> ticks a1 = 3"
proof -
  assume c: "handleCrawl sample_clock (WriteJob (kafka_write (\<lambda>n. None)) te) (SetStatus (redis_set (\<lambda>n. None)) te prefx life)
     sample_call sample_server = (resp, a1)"
  have "resp_status resp = 202 \<and> ticks a1 = ticks sample_server + 3"
    by (rule handleCrawl_ok [OF _ refl sample_seed(2) reliable_calls c])
      (simp_all add: sample_call_def seed_job_def queued_status_def sample_server_def sample_clock_wf)
  then show ?thesis by (simp add: sample_server_def)
qed

lemma accepted_crawl_is_found_witness:
  "\<exists>resp a1. handleCrawl sample_clock (WriteJob (kafka_write (\<lambda>n. None)) (\<lambda>t. [])) (SetStatus (redis_set (\<lambda>n. None)) (\<lambda>t. []) [] 86400000000000)
     sample_call sample_server = (resp, a1) \<and> length (appended (prod a1)) = 1"
proof -
  obtain resp a1 where c: "handleCrawl sample_clock (WriteJob (kafka_write (\<lambda>n. None)) (\<lambda>t. []))
      (SetStatus (redis_set (\<lambda>n. None)) (\<lambda>t. []) [] 86400000000000) sample_call sample_server = (resp, a1)"
    by (metis surjective_pairing)
  obtain resp' a3 where g: "handleCrawlStatus (GetStatus (redis_get (\<lambda>n. None)) (\<lambda>s. []) [])
      \<lparr>call_method = ''GET'', call_path = ''/crawl/'' @ newSessionID (sample_clock (ticks sample_server)),
       call_query = []\<rparr> a1 = (resp', a3)"
    by (metis surjective_pairing)
  note acc = sample_accepted [OF c]
  have "valid_utf8 (normalizeSeedURL (trim_space (query_get (call_query sample_call) ''url'')))"
    unfolding sample_seed(1) by (rule valid_utf8_ascii) (simp add: is_ascii_def)
  from accepted_crawl_is_found [OF sample_clock_inj sample_clock_wf c _ this _ g, of "[]"] acc
  have "\<exists>msg. appended (prod a1) = appended (prod sample_server) @ [msg]" by auto
  with c show ?thesis by (auto simp: sample_server_def)
qed

lemma search_seed_not_idempotent_witness:
  "normalizeSeedURL (SearchURL ''dune'') = ''https://openlibrary.org/search.json?q=dune.json''"
proof -
  have q: "query_escape ''dune'' = ''dune''"
    by (simp add: query_escape_def escape_char_def is_unreserved_def is_alnum_def byte_in_def is_digit_def)
  have "\<not> has_suffix (SearchURL ''dune'') ''.json''"
    by (simp add: SearchURL_def q has_suffix_def)
  from search_seed_not_idempotent [OF this] show ?thesis
    by (simp only: SearchURL_append q query_escape_json) (simp add: SearchURL_def q)
qed

end
