(* ===== verification/Loadgen.thy ===== *)
theory Loadgen
  imports Api "HOL-Library.Multiset"
begin

text \<open>
  \<open>cmd/loadgen/main.go\<close>: reading the seeds and submitting each to the API. What \<open>client.Post\<close> of a
  URL gives is an argument on a state of its own; the goroutines run in the order of a schedule
  that is an argument too.
\<close>

record loadgen_config =
  seeds :: "string list"

definition config_fields :: "loadgen_config struct_field list" where
  "config_fields = [struct_field ''seeds'' seeds seeds_update (dec_slice [] dec_string)]"

definition errNoSeeds :: go_error where
  "errNoSeeds = ''config has no seeds''"

text \<open>\<open>data\<close> is what reading the file gives.\<close>

definition loadConfig :: "(string \<Rightarrow> go_error) \<Rightarrow> go_error + string \<Rightarrow> go_error + loadgen_config" where
  "loadConfig json_err data =
     (case data of
        Inl e \<Rightarrow> Inl e
      | Inr text \<Rightarrow>
          (case unmarshal (dec_struct config_fields) \<lparr>seeds = []\<rparr> text of
             None \<Rightarrow> Inl (json_err text)
           | Some cfg \<Rightarrow> if length (seeds cfg) = 0 then Inl errNoSeeds else Inr cfg))"

text \<open>The three log lines of \<open>submitSeed\<close>.\<close>

datatype submit_log =
    Post_Failed nat string go_error
  | Refused nat string int
  | Submitted nat string

definition submitSeed ::
  "(url \<Rightarrow> 'w \<Rightarrow> (go_error + int) \<times> 'w) \<Rightarrow> url \<Rightarrow> nat \<Rightarrow> string \<Rightarrow> 'w \<Rightarrow> submit_log \<times> 'w" where
  "submitSeed post base idx seed w =
     (case post (base\<lparr>u_path := ''/crawl'', u_query := encode_pair ''url'' seed\<rparr>) w of
        (Inl e, w') \<Rightarrow> (Post_Failed idx seed e, w')
      | (Inr code, w') \<Rightarrow> (if code \<noteq> 202 then Refused idx seed code else Submitted idx seed, w'))"

fun submit_all ::
  "(url \<Rightarrow> 'w \<Rightarrow> (go_error + int) \<times> 'w) \<Rightarrow> url \<Rightarrow> string list \<Rightarrow> nat list \<Rightarrow> 'w \<Rightarrow> submit_log list \<times> 'w" where
  "submit_all post base xs [] w = ([], w)"
| "submit_all post base xs (i # is) w =
     (let (l, w1) = submitSeed post base i (xs ! i) w;
          (ls, w2) = submit_all post base xs is w1
      in (l # ls, w2))"

definition run_loadgen ::
  "(string \<Rightarrow> go_error) \<Rightarrow> (string \<Rightarrow> go_error) \<Rightarrow> (url \<Rightarrow> 'w \<Rightarrow> (go_error + int) \<times> 'w) \<Rightarrow>
   (string list \<Rightarrow> nat list) \<Rightarrow> go_error + string \<Rightarrow> string \<Rightarrow> 'w \<Rightarrow>
   (go_error + submit_log list) \<times> 'w" where
  "run_loadgen json_err bad_url post schedule data apiBase w =
     (case loadConfig json_err data of
        Inl e \<Rightarrow> (Inl e, w)
      | Inr cfg \<Rightarrow>
          (case url_parse apiBase of
             None \<Rightarrow> (Inl (bad_url apiBase), w)
           | Some base \<Rightarrow> apfst Inr (submit_all post base (seeds cfg) (schedule (seeds cfg)) w)))"

text \<open>
  The API behind the client: \<open>client.Post\<close> writes the URL out and reads it again, refuses every scheme
  but http and https and a URL without a host (also one with an opaque part), and otherwise reaches
  the host. The API listens at \<open>host\<close>; its mux sends the path \<open>/crawl\<close> to \<open>handleCrawl\<close>.
\<close>

definition url_host :: "url \<Rightarrow> string" where
  "url_host u = last_part (CHR ''@'') (u_authority u)"

definition reaches :: "string \<Rightarrow> url \<Rightarrow> bool" where
  "reaches host u \<longleftrightarrow> (u_scheme u = ''http'' \<or> u_scheme u = ''https'') \<and> u_opaque u = [] \<and> url_host u \<noteq> [] \<and>
     url_host u = host"

definition post_error :: "url \<Rightarrow> go_error" where
  "post_error u =
     (if u_scheme u \<noteq> ''http'' \<and> u_scheme u \<noteq> ''https'' then ''unsupported protocol scheme''
      else if u_opaque u \<noteq> [] \<or> url_host u = [] then ''http: no Host in request URL''
      else ''connection refused'')"

definition api_post ::
  "string \<Rightarrow> (nat \<Rightarrow> go_time) \<Rightarrow> (go_time \<Rightarrow> crawl_job \<Rightarrow> 'p act) \<Rightarrow> (crawl_status \<Rightarrow> 's act) \<Rightarrow> url \<Rightarrow>
   ('p, 's) server \<Rightarrow> (go_error + int) \<times> ('p, 's) server" where
  "api_post host now write_job set_status u a =
     (if \<not> reaches host u then (Inl (post_error u), a)
      else apfst (\<lambda>r. Inr (resp_status r))
        (handleCrawl now write_job set_status
          \<lparr>call_method = ''POST'', call_path = u_path u, call_query = u_query u\<rparr> a))"

section \<open>Lemmas\<close>

text \<open>What one seed does to a reliable API.\<close>

definition seed_url :: "string \<Rightarrow> string" where
  "seed_url s = to_valid_utf8 (normalizeSeedURL (trim_space s))"

definition message_url :: "kafka_message \<Rightarrow> string option" where
  "message_url m = map_option job_url (unmarshal (dec_struct job_fields) zero_job (msg_value m))"

abbreviation reliable_post ::
  "string \<Rightarrow> int \<Rightarrow> (nat \<Rightarrow> go_time) \<Rightarrow> (go_time \<Rightarrow> go_error) \<Rightarrow> string \<Rightarrow> url \<Rightarrow>
   (broker_log, redis) server \<Rightarrow> (go_error + int) \<times> (broker_log, redis) server" where
  "reliable_post host life now te prefx \<equiv>
     api_post host now (WriteJob (kafka_write (\<lambda>n. None)) te) (SetStatus (redis_set (\<lambda>n. None)) te prefx life)"

lemma reaches_seed: "reaches host (base\<lparr>u_path := p, u_query := q\<rparr>) = reaches host base"
  by (simp add: reaches_def url_host_def)

text \<open>A base the client cannot post to: every seed fails, and the API sees nothing.\<close>

lemma submit_nowhere:
  assumes "\<not> reaches host base"
  shows "\<exists>es. submit_all (reliable_post host life now te prefx) base xs js a = (es, a) \<and> length es = length js \<and>
    list_all (\<lambda>l. \<exists>i e. l = Post_Failed i (xs ! i) e) es"
  using assms by (induction js) (auto simp: submitSeed_def api_post_def reaches_seed)

lemma submit_blank:
  "reaches host base \<Longrightarrow> trim_space s = [] \<Longrightarrow> submitSeed (reliable_post host life now te prefx) base i s a = (Refused i s 400, a)"
  by (simp add: submitSeed_def api_post_def reaches_seed handleCrawl_def query_get_encode http_error_def)

lemma seed_job_message:
  assumes "wf_time t" and "marshal enc_job (seed_job sid url t) = Some v"
  shows "message_url (new_message k v u) = Some (to_valid_utf8 url)"
proof -
  have "typed_job (seed_job sid url t)"
    using assms(1) by (simp add: typed_job_def seed_job_def in_int64_iff)
  from job.unmarshal_lossy [OF this assms(2)] show ?thesis
    by (simp add: message_url_def new_message_def clean_job_def seed_job_def)
qed

lemma submit_seed:
  assumes "\<forall>n. wf_time (now n)" and "trim_space s \<noteq> []" and "reaches host base"
  shows "\<exists>m a'. submitSeed (reliable_post host life now te prefx) base i s a = (Submitted i s, a') \<and>
    appended (prod a') = appended (prod a) @ [m] \<and> message_url m = Some (seed_url s)"
proof -
  let ?r = "\<lparr>call_method = ''POST'', call_path = ''/crawl'', call_query = encode_pair ''url'' s\<rparr>"
  obtain resp a' where h: "handleCrawl now (WriteJob (kafka_write (\<lambda>n. None)) te)
      (SetStatus (redis_set (\<lambda>n. None)) te prefx life) ?r a = (resp, a')"
    by (metis surjective_pairing)
  have ok: "resp_status resp = 202"
    using handleCrawl_ok [OF _ refl _ reliable_calls h] assms(1,2)
    by (simp add: query_get_encode seed_job_def queued_status_def)
  from redis_api.accepted [OF h ok] obtain t
    where "WriteJob (kafka_write (\<lambda>n. None)) te t (seed_job (newSessionID (now (ticks a)))
      (normalizeSeedURL (trim_space s)) (now (Suc (ticks a)))) (prod a) = (None, prod a')"
    by (auto simp: query_get_encode)
  from kafka.jobs.job_ok [OF this] seed_job_message [OF assms(1) [rule_format]] obtain m
    where "appended (prod a') = appended (prod a) @ [m]" "message_url m = Some (seed_url s)"
    unfolding seed_url_def by blast
  with h ok assms(3) show ?thesis by (simp add: submitSeed_def api_post_def reaches_seed)
qed

lemma submit_all_seeds:
  assumes "\<forall>n. wf_time (now n)" and "reaches host base"
  shows "\<exists>ms a'. submit_all (reliable_post host life now te prefx) base xs js a =
      (map (\<lambda>i. if trim_space (xs ! i) = [] then Refused i (xs ! i) 400 else Submitted i (xs ! i)) js, a') \<and>
    appended (prod a') = appended (prod a) @ ms \<and>
    map message_url ms = map (\<lambda>i. Some (seed_url (xs ! i))) (filter (\<lambda>i. trim_space (xs ! i) \<noteq> []) js)"
proof (induction js arbitrary: a)
  case (Cons i js)
  show ?case
  proof (cases "trim_space (xs ! i) = []")
    case True
    from Cons.IH [of a] show ?thesis by (auto simp: submit_blank [OF assms(2) True] True)
  next
    case False
    from submit_seed [OF assms(1) False assms(2)] obtain m a' where m:
      "submitSeed (reliable_post host life now te prefx) base i (xs ! i) a = (Submitted i (xs ! i), a')"
      "appended (prod a') = appended (prod a) @ [m]" "message_url m = Some (seed_url (xs ! i))" by blast
    from Cons.IH [of a'] obtain ms a'' where
      "submit_all (reliable_post host life now te prefx) base xs js a' =
        (map (\<lambda>i. if trim_space (xs ! i) = [] then Refused i (xs ! i) 400 else Submitted i (xs ! i)) js, a'')"
      "appended (prod a'') = appended (prod a') @ ms"
      "map message_url ms = map (\<lambda>i. Some (seed_url (xs ! i))) (filter (\<lambda>i. trim_space (xs ! i) \<noteq> []) js)"
      by blast
    with m False show ?thesis by (intro exI [of _ "m # ms"] exI [of _ a'']) simp
  qed
qed simp

section \<open>Properties\<close>


lemma loadConfig_seeds:
  assumes "xs \<noteq> []" and "list_all valid_utf8 xs"
  shows "loadConfig je (Inr (json_text (JObj (member ''seeds'' (enc_strings xs))))) = Inr \<lparr>seeds = xs\<rparr>"
proof -
  have "wf_json (JObj (member ''seeds'' (enc_strings xs)))" "depth_ok max_nesting (JObj (member ''seeds'' (enc_strings xs)))"
    using assms(2) by (simp_all add: wf_strings_def valid_utf8_ascii is_ascii_def max_nesting_def)
  from json_roundtrip [OF this] assms(1) show ?thesis
    by (simp add: loadConfig_def unmarshal_def config_fields_def codec_simps del: json_text.simps)
qed


end
