(* ===== verification/Graph_Writer.thy ===== *)
theory Graph_Writer
  imports Worker Go_Float Go_Http "HOL-Library.Multiset"
begin

text \<open>
  \<open>cmd/graph-writer/main.go\<close>: the service that reads results and edges from Kafka and merges them
  into the graph. A write transaction of the Neo4j driver, with its session, is the argument
  \<open>tx\<close>: a query and its parameters on the state of the graph.
\<close>

section \<open>Queries\<close>

text \<open>A parameter is a string or nil.\<close>

type_synonym params = "(string, string option) fmap"
type_synonym 'g tx = "string \<Rightarrow> params \<Rightarrow> 'g act"

definition nodeLabel :: "string \<Rightarrow> string \<times> string \<times> string" where
  "nodeLabel key =
     (if has_prefix key ''/books/'' then (''Book'', key, ''key'')
      else if has_prefix key ''/works/'' then (''Work'', key, ''key'')
      else if has_prefix key ''/authors/'' then (''Author'', key, ''key'')
      else if has_prefix key ''subject:'' then (''Subject'', trim_prefix key ''subject:'', ''name'')
      else (''External'', key, ''key''))"

definition relationType :: "string \<Rightarrow> string" where
  "relationType input =
     (if input = ''book_author'' then ''BOOK_AUTHOR''
      else if input = ''book_work'' then ''BOOK_WORK''
      else if input = ''work_author'' then ''WORK_AUTHOR''
      else if input = ''book_subject'' then ''BOOK_SUBJECT''
      else if input = ''work_subject'' then ''WORK_SUBJECT''
      else if input = ''search_work'' then ''SEARCH_WORK''
      else to_upper (replace_char (CHR ''-'') ''_'' input))"

definition buildEdgeQuery :: "edge \<Rightarrow> string \<times> params" where
  "buildEdgeQuery e =
     (let (fromLabel, fromKey, fromProp) = nodeLabel (edge_from e);
          (toLabel, toKey, toProp) = nodeLabel (edge_to e);
          rel = relationType (edge_relation e)
      in (''MERGE (from:'' @ fromLabel @ '' {'' @ fromProp @ '': $fromKey}) '' @
          ''MERGE (to:'' @ toLabel @ '' {'' @ toProp @ '': $toKey}) '' @
          ''MERGE (from)-[r:'' @ rel @ '' {session_id: $session_id}]->(to)'',
          fmap_of_list [(''fromKey'', Some fromKey), (''toKey'', Some toKey),
            (''session_id'', Some (edge_session e))]))"

text \<open>\<open>var title any; if node.Title != "" { title = node.Title }\<close>\<close>

definition or_nil :: "string \<Rightarrow> string option" where
  "or_nil s = (if s \<noteq> [] then Some s else None)"

definition buildBookQuery :: "string \<Rightarrow> book_node \<Rightarrow> string \<times> params" where
  "buildBookQuery session b =
     (''MERGE (b:Book {key: $key}) '' @ ''SET b.session_id = $session_id, '' @
      ''b.title = coalesce($title, b.title), '' @ ''b.full_title = coalesce($full_title, b.full_title), '' @
      ''b.publish_date = coalesce($publish_date, b.publish_date)'',
      fmap_of_list [(''key'', Some (book_key b)), (''title'', or_nil (book_title b)),
        (''full_title'', or_nil (book_full_title b)), (''publish_date'', or_nil (book_publish_date b)),
        (''session_id'', Some session)])"

definition buildWorkQuery :: "string \<Rightarrow> work_node \<Rightarrow> string \<times> params" where
  "buildWorkQuery session w =
     (''MERGE (w:Work {key: $key}) '' @
      ''SET w.session_id = $session_id, w.title = coalesce($title, w.title)'',
      fmap_of_list [(''key'', Some (work_key w)), (''title'', or_nil (work_title w)),
        (''session_id'', Some session)])"

definition buildAuthorQuery :: "string \<Rightarrow> author_node \<Rightarrow> string \<times> params" where
  "buildAuthorQuery session a =
     (''MERGE (a:Author {key: $key}) '' @
      ''SET a.session_id = $session_id, a.name = coalesce($name, a.name)'',
      fmap_of_list [(''key'', Some (author_key a)), (''name'', or_nil (author_name a)),
        (''session_id'', Some session)])"

section \<open>Writing results and edges\<close>

definition runWrite :: "'g tx \<Rightarrow> string \<times> params \<Rightarrow> 'g act" where
  "runWrite tx qp g = tx (fst qp) (snd qp) g"

text \<open>
  \<open>json.Marshal\<close> of a value read into an \<open>any\<close>: numbers are \<open>float64\<close>, objects are maps, so their
  keys come out sorted and once, with the last value read.
\<close>

fun canon :: "json \<Rightarrow> json" where
  "canon (JNum l) = JNum (reprint_number l)"
| "canon (JArr js) = JArr (map canon js)"
| "canon (JObj kvs) = enc_map (\<lambda>j. j) (fmap_of_list (rev (map (\<lambda>(k, v). (k, canon v)) kvs)))"
| "canon j = j"

definition decodeNode :: "(string \<Rightarrow> go_error) \<Rightarrow> 'r struct_field list \<Rightarrow> 'r \<Rightarrow> json \<Rightarrow> go_error + 'r" where
  "decodeNode bad_json fs z j =
     (case unmarshal (dec_struct fs) z (json_text (canon j)) of
        None \<Rightarrow> Inl (bad_json (json_text (canon j)))
      | Some x \<Rightarrow> Inr x)"

definition writeBook :: "'g tx \<Rightarrow> string \<Rightarrow> book_node \<Rightarrow> 'g act" where
  "writeBook tx session b = runWrite tx (buildBookQuery session b)"

definition writeWork :: "'g tx \<Rightarrow> string \<Rightarrow> work_node \<Rightarrow> 'g act" where
  "writeWork tx session w = runWrite tx (buildWorkQuery session w)"

definition writeAuthor :: "'g tx \<Rightarrow> string \<Rightarrow> author_node \<Rightarrow> 'g act" where
  "writeAuthor tx session a = runWrite tx (buildAuthorQuery session a)"

definition writeResult :: "(string \<Rightarrow> go_error) \<Rightarrow> 'g tx \<Rightarrow> string \<Rightarrow> 'g act" where
  "writeResult bad_json tx payload g =
     (case unmarshal (dec_struct result_fields) zero_result payload of
        None \<Rightarrow> (Some (bad_json payload), g)
      | Some r \<Rightarrow>
          if result_type r = ''edition'' then
            (case decodeNode bad_json book_fields zero_book (result_node r) of
               Inl e \<Rightarrow> (Some e, g)
             | Inr b \<Rightarrow> if book_key b = [] then (None, g) else writeBook tx (result_session r) b g)
          else if result_type r = ''work'' then
            (case decodeNode bad_json work_fields zero_work (result_node r) of
               Inl e \<Rightarrow> (Some e, g)
             | Inr w \<Rightarrow> if work_key w = [] then (None, g) else writeWork tx (result_session r) w g)
          else if result_type r = ''author'' then
            (case decodeNode bad_json author_fields zero_author (result_node r) of
               Inl e \<Rightarrow> (Some e, g)
             | Inr a \<Rightarrow> if author_key a = [] then (None, g) else writeAuthor tx (result_session r) a g)
          else (None, g))"

definition writeEdge :: "(string \<Rightarrow> go_error) \<Rightarrow> 'g tx \<Rightarrow> string \<Rightarrow> 'g act" where
  "writeEdge bad_json tx payload g =
     (case unmarshal (dec_struct edge_fields) zero_edge payload of
        None \<Rightarrow> (Some (bad_json payload), g)
      | Some e \<Rightarrow>
          if edge_from e = [] \<or> edge_to e = [] then (None, g)
          else runWrite tx (buildEdgeQuery e) g)"

section \<open>Consumers\<close>

record counters =
  received :: u64
  failed :: u64
  written :: u64

text \<open>
  The state of a running graph writer: the counters of each topic, the graph, and the commits it
  asked for with their outcomes. \<open>committer\<close> gives the outcome of each \<open>CommitMessages\<close>.
\<close>

record 'g graph_writer =
  results :: counters
  edges :: counters
  graph :: 'g
  commits :: "(kafka_message \<times> go_error option) list"

definition commit_message :: "(nat \<Rightarrow> go_error option) \<Rightarrow> kafka_message \<Rightarrow> 'g graph_writer \<Rightarrow> 'g graph_writer" where
  "commit_message committer msg s = s\<lparr>commits := commits s @ [(msg, committer (length (commits s)))]\<rparr>"

fun consumeResults ::
  "(string \<Rightarrow> go_error) \<Rightarrow> 'g tx \<Rightarrow> (nat \<Rightarrow> go_error option) \<Rightarrow> fetch_event list \<Rightarrow>
   'g graph_writer \<Rightarrow> 'g graph_writer" where
  "consumeResults bad_json tx committer [] s = s"
| "consumeResults bad_json tx committer (Fetch_Cancelled # es) s = s"
| "consumeResults bad_json tx committer (Fetch_Error # es) s = consumeResults bad_json tx committer es s"
| "consumeResults bad_json tx committer (Fetched msg # es) s =
     (let s1 = s\<lparr>results := (results s)\<lparr>received := received (results s) + 1\<rparr>\<rparr>
      in case writeResult bad_json tx (msg_value msg) (graph s1) of
           (Some e, g) \<Rightarrow>
             consumeResults bad_json tx committer es
               (s1\<lparr>graph := g, results := (results s1)\<lparr>failed := failed (results s1) + 1\<rparr>\<rparr>)
         | (None, g) \<Rightarrow>
             consumeResults bad_json tx committer es
               (commit_message committer msg
                 (s1\<lparr>graph := g, results := (results s1)\<lparr>written := written (results s1) + 1\<rparr>\<rparr>)))"

fun consumeEdges ::
  "(string \<Rightarrow> go_error) \<Rightarrow> 'g tx \<Rightarrow> (nat \<Rightarrow> go_error option) \<Rightarrow> fetch_event list \<Rightarrow>
   'g graph_writer \<Rightarrow> 'g graph_writer" where
  "consumeEdges bad_json tx committer [] s = s"
| "consumeEdges bad_json tx committer (Fetch_Cancelled # es) s = s"
| "consumeEdges bad_json tx committer (Fetch_Error # es) s = consumeEdges bad_json tx committer es s"
| "consumeEdges bad_json tx committer (Fetched msg # es) s =
     (let s1 = s\<lparr>edges := (edges s)\<lparr>received := received (edges s) + 1\<rparr>\<rparr>
      in case writeEdge bad_json tx (msg_value msg) (graph s1) of
           (Some e, g) \<Rightarrow>
             consumeEdges bad_json tx committer es
               (s1\<lparr>graph := g, edges := (edges s1)\<lparr>failed := failed (edges s1) + 1\<rparr>\<rparr>)
         | (None, g) \<Rightarrow>
             consumeEdges bad_json tx committer es
               (commit_message committer msg
                 (s1\<lparr>graph := g, edges := (edges s1)\<lparr>written := written (edges s1) + 1\<rparr>\<rparr>)))"

definition handleMetrics :: "string \<Rightarrow> 'g graph_writer \<Rightarrow> http_response" where
  "handleMetrics verb s =
     (if verb \<noteq> ''GET'' then http_error ''method not allowed'' 405
      else \<lparr>resp_status = 200, resp_type = ''text/plain; version=0.0.4'',
            resp_body = text_lines
              [''relentless_graph_writer_up 1'',
               ''relentless_graph_writer_results_received_total '' @ show_u64 (received (results s)),
               ''relentless_graph_writer_results_failed_total '' @ show_u64 (failed (results s)),
               ''relentless_graph_writer_edges_received_total '' @ show_u64 (received (edges s)),
               ''relentless_graph_writer_edges_failed_total '' @ show_u64 (failed (edges s)),
               ''relentless_graph_writer_results_written_total '' @ show_u64 (written (results s)),
               ''relentless_graph_writer_edges_written_total '' @ show_u64 (written (edges s))]\<rparr>)"

section \<open>Members in another order\<close>

text \<open>
  A node is decoded from its members in the order of their names, not in that of the struct.
  Decoding does not depend on the order when every member has the exact name of its own field,
  because the fields of a struct commute.
\<close>

definition commutes :: "('r \<Rightarrow> json \<Rightarrow> 'r option) \<Rightarrow> ('r \<Rightarrow> json \<Rightarrow> 'r option) \<Rightarrow> bool" where
  "commutes f g \<longleftrightarrow> (\<forall>r i j. Option.bind (f r i) (\<lambda>r'. g r' j) = Option.bind (g r j) (\<lambda>r'. f r' i))"

fun comm_fields :: "'r struct_field list \<Rightarrow> bool" where
  "comm_fields [] \<longleftrightarrow> True"
| "comm_fields (nf # fs) \<longleftrightarrow>
     list_all (\<lambda>mg. fst nf \<noteq> fst mg \<and> commutes (snd nf) (snd mg) \<and> commutes (snd mg) (snd nf)) fs \<and>
     comm_fields fs"

lemma comm_fields_distinct: "comm_fields fs \<Longrightarrow> distinct (map fst fs)"
  by (induction fs) (auto simp: list_all_iff)

lemma comm_fieldsD: "comm_fields fs \<Longrightarrow> (n, f) \<in> set fs \<Longrightarrow> (m, g) \<in> set fs \<Longrightarrow> n \<noteq> m \<Longrightarrow> commutes f g"
  by (induction fs) (auto simp: list_all_iff)

lemma find_field_exact:
  assumes "n \<in> set (map fst fs)"
  shows "\<exists>f. find_field fs n = Some f \<and> (n, f) \<in> set fs"
proof -
  from assms have "map_of fs n \<noteq> None" by (simp add: map_of_eq_None_iff)
  then obtain f where "map_of fs n = Some f" by blast
  then show ?thesis by (auto simp: find_field_def dest: map_of_SomeD)
qed

lemma dec_members_Cons_bind:
  "find_field fs k = Some f \<Longrightarrow> dec_members fs r ((k, j) # kvs) = Option.bind (f r j) (\<lambda>r'. dec_members fs r' kvs)"
  by (simp split: option.split)

lemma dec_members_swap:
  assumes "comm_fields fs" and "k \<noteq> l" and "k \<in> set (map fst fs)" and "l \<in> set (map fst fs)"
  shows "dec_members fs r ((k, i) # (l, j) # kvs) = dec_members fs r ((l, j) # (k, i) # kvs)"
proof -
  from find_field_exact [OF assms(3)] find_field_exact [OF assms(4)] obtain f g where
    f: "find_field fs k = Some f" "(k, f) \<in> set fs" and g: "find_field fs l = Some g" "(l, g) \<in> set fs" by blast
  have c: "Option.bind (f r i) (\<lambda>r'. g r' j) = Option.bind (g r j) (\<lambda>r'. f r' i)"
    using comm_fieldsD [OF assms(1) f(2) g(2) assms(2)] by (simp add: commutes_def)
  have "dec_members fs r ((k, i) # (l, j) # kvs) =
      Option.bind (Option.bind (f r i) (\<lambda>r'. g r' j)) (\<lambda>r'. dec_members fs r' kvs)"
    by (simp add: dec_members_Cons_bind [OF f(1)] dec_members_Cons_bind [OF g(1)] del: dec_members.simps)
  also have "\<dots> = dec_members fs r ((l, j) # (k, i) # kvs)"
    unfolding c by (simp add: dec_members_Cons_bind [OF f(1)] dec_members_Cons_bind [OF g(1)] del: dec_members.simps)
  finally show ?thesis .
qed

lemma dec_members_front:
  assumes "comm_fields fs" and "set (map fst (ys @ [x])) \<subseteq> set (map fst fs)" and "fst x \<notin> set (map fst ys)"
  shows "dec_members fs r (ys @ x # zs) = dec_members fs r (x # ys @ zs)"
  using assms(2,3)
proof (induction ys arbitrary: r)
  case (Cons y ys)
  obtain k i l j where xy: "x = (k, i)" "y = (l, j)" by (cases x, cases y)
  from Cons.prems obtain f where f: "find_field fs l = Some f"
    using find_field_exact [of l fs] by (auto simp: xy)
  have "dec_members fs r ((y # ys) @ x # zs) = Option.bind (f r j) (\<lambda>r'. dec_members fs r' (ys @ x # zs))"
    by (simp add: xy f split: option.split)
  also have "\<dots> = Option.bind (f r j) (\<lambda>r'. dec_members fs r' (x # ys @ zs))"
    using Cons.IH Cons.prems by simp
  also have "\<dots> = dec_members fs r (y # x # ys @ zs)"
    unfolding xy(2) by (simp only: dec_members_Cons_bind [OF f])
  also have "\<dots> = dec_members fs r (x # y # ys @ zs)"
    unfolding xy by (rule dec_members_swap [OF assms(1)]) (use Cons.prems in \<open>auto simp: xy\<close>)
  finally show ?case by simp
qed simp

lemma dec_members_perm:
  assumes "comm_fields fs" and "set (map fst xs) \<subseteq> set (map fst fs)" and "distinct (map fst xs)"
    and "mset xs = mset ys"
  shows "dec_members fs r xs = dec_members fs r ys"
  using assms(2-4)
proof (induction xs arbitrary: ys r)
  case (Cons x xs)
  from Cons.prems(3) have "x \<in> set ys" by (metis list.set_intros(1) mset_eq_setD)
  then obtain us vs where ys: "ys = us @ x # vs" by (meson split_list)
  have m: "mset xs = mset (us @ vs)" using Cons.prems(3) by (simp add: ys)
  from m have us: "set us \<subseteq> set xs" by (metis mset_eq_setD set_append Un_upper1)
  have "dec_members fs r ys = dec_members fs r (x # us @ vs)"
    unfolding ys using Cons.prems(1,2) us by (intro dec_members_front [OF assms(1)]) auto
  moreover have "dec_members fs r' xs = dec_members fs r' (us @ vs)" for r'
    using Cons.prems(1,2) m by (intro Cons.IH) auto
  moreover obtain k i where x: "x = (k, i)" by (cases x)
  moreover from Cons.prems(1) x obtain f where "find_field fs k = Some f"
    using find_field_exact [of k fs] by auto
  ultimately show ?case by (simp add: dec_members_Cons_bind del: dec_members.simps)
qed simp

lemma commutes_struct_field:
  assumes "\<And>v r. get2 (upd1 (\<lambda>_. v) r) = get2 r" and "\<And>v r. get1 (upd2 (\<lambda>_. v) r) = get1 r"
    and "\<And>v w r. upd2 (\<lambda>_. w) (upd1 (\<lambda>_. v) r) = upd1 (\<lambda>_. v) (upd2 (\<lambda>_. w) r)"
  shows "commutes (snd (struct_field n get1 upd1 d1)) (snd (struct_field m get2 upd2 d2))"
  unfolding commutes_def struct_field_def
  by (auto simp: assms split: Option.bind_split option.split)

lemma comm_book_fields: "comm_fields book_fields"
  unfolding book_fields_def
  by (simp add: commutes_struct_field)

lemma comm_work_fields: "comm_fields work_fields"
  unfolding work_fields_def
  by (simp add: commutes_struct_field)

lemma comm_author_fields: "comm_fields author_fields"
  unfolding author_fields_def
  by (simp add: commutes_struct_field)

section \<open>Marshalled again\<close>

declare canon.simps(3) [simp del]

lemma sorted_keys_distinct: "distinct (sorted_list_of_fset A)"
  by (simp add: sorted_list_of_fset.rep_eq)

lemma sorted_entries:
  "set (map (\<lambda>k. (k, the (fmlookup m k))) (sorted_list_of_fset (fmdom m))) = {(k, v). fmlookup m k = Some v}"
  by (auto simp: fmlookup_dom_iff image_iff)

lemma canon_members:
  assumes "distinct (map fst kvs)" and "\<forall>kv \<in> set kvs. canon (snd kv) = snd kv"
  shows "\<exists>ys. canon (JObj kvs) = JObj ys \<and> mset ys = mset kvs"
proof -
  have c: "map (\<lambda>(k, v). (k, canon v)) kvs = kvs"
    using assms(2) by (intro map_idI) auto
  let ?m = "fmap_of_list (rev kvs)"
  let ?ys = "map (\<lambda>k. (k, the (fmlookup ?m k))) (sorted_list_of_fset (fmdom ?m))"
  have dr: "distinct (map fst (rev kvs))" using assms(1) by (simp only: rev_map [symmetric] distinct_rev)
  have look: "fmlookup ?m k = Some v \<longleftrightarrow> (k, v) \<in> set kvs" for k v
    using map_of_eq_Some_iff [OF dr, of k v] by (simp only: fmlookup_of_list set_rev)
  have "set ?ys = set kvs" unfolding sorted_entries look by auto
  moreover have "distinct ?ys" using sorted_keys_distinct by (auto simp: distinct_map inj_on_def)
  moreover have "distinct kvs" using assms(1) by (simp add: distinct_map)
  ultimately have "mset ?ys = mset kvs" using set_eq_iff_mset_eq_distinct by blast
  then show ?thesis unfolding canon.simps(3) c enc_map_def by blast
qed

lemma subseq_distinct: "subseq xs ys \<Longrightarrow> distinct ys \<Longrightarrow> distinct xs"
  by (induction rule: list_emb.induct) (auto dest: list_emb_set)

lemma decode_canon:
  assumes "comm_fields fs" and "subseq (map fst kvs) (map fst fs)"
    and "\<forall>kv \<in> set kvs. canon (snd kv) = snd kv"
  shows "dec_struct fs z (canon (JObj kvs)) = dec_struct fs z (JObj kvs)"
proof -
  have d: "distinct (map fst kvs)"
    using assms(2) comm_fields_distinct [OF assms(1)] by (rule subseq_distinct)
  from canon_members [OF d assms(3)] obtain ys where ys: "canon (JObj kvs) = JObj ys" "mset ys = mset kvs" by blast
  have "set (map fst kvs) \<subseteq> set (map fst fs)"
    using list_emb_set [OF assms(2)] by blast
  then have "dec_members fs z kvs = dec_members fs z ys"
    using d ys(2) by (intro dec_members_perm [OF assms(1)]) simp_all
  then show ?thesis by (simp add: ys(1) dec_struct_def)
qed

text \<open>Members that come in the order of the fields.\<close>

lemma subseq_members:
  "subseq (map fst ks) ns \<Longrightarrow> subseq (map fst (member n j @ ks)) (n # ns)"
  "subseq (map fst ks) ns \<Longrightarrow> subseq (map fst (opt_member n e j @ ks)) (n # ns)"
  "subseq (map fst (opt_member n e j)) (n # ns)"
  by (auto simp: member_def opt_member_def)

lemma members_canon [simp]:
  "(\<forall>kv \<in> set (member n j @ ks). canon (snd kv) = snd kv) \<longleftrightarrow> canon j = j \<and> (\<forall>kv \<in> set ks. canon (snd kv) = snd kv)"
  "(\<forall>kv \<in> set (opt_member n e j @ ks). canon (snd kv) = snd kv) \<longleftrightarrow>
     (e \<or> canon j = j) \<and> (\<forall>kv \<in> set ks. canon (snd kv) = snd kv)"
  "(\<forall>kv \<in> set (opt_member n e j). canon (snd kv) = snd kv) \<longleftrightarrow> e \<or> canon j = j"
  by (auto simp: member_def opt_member_def)

definition small_ints :: "int list \<Rightarrow> bool" where
  "small_ints ns \<longleftrightarrow> list_all (\<lambda>n. \<bar>n\<bar> < 2 ^ 53) ns"

lemma canon_strings [simp]: "canon (enc_strings xs) = enc_strings xs"
  by (simp add: enc_strings_def)

lemma canon_ints [simp]: "small_ints ns \<Longrightarrow> canon (enc_ints ns) = enc_ints ns"
  by (auto simp: enc_ints_def enc_int_def small_ints_def list_all_iff reprint_itoa)

lemma fmap_of_sorted_list:
  "fmap_of_list (rev (map (\<lambda>k. (k, f (the (fmlookup m k)))) (sorted_list_of_fset (fmdom m)))) = fmmap f m"
proof (rule fmap_ext)
  fix k
  let ?ks = "sorted_list_of_fset (fmdom m)"
  have "map_of (rev (map (\<lambda>k. (k, g k)) ks)) k = (if k \<in> set ks then Some (g k) else None)" for g :: "'a \<Rightarrow> 'b" and ks
    by (induction ks) (auto simp: map_add_def split: option.splits)
  then show "fmlookup (fmap_of_list (rev (map (\<lambda>k. (k, f (the (fmlookup m k)))) ?ks))) k = fmlookup (fmmap f m) k"
    by (auto simp: fmlookup_of_list fmlookup_dom_iff)
qed

lemma canon_enc_map:
  assumes "\<And>v. canon (f v) = f v"
  shows "canon (enc_map f m) = enc_map f m"
proof -
  have "canon (enc_map f m) = enc_map (\<lambda>j. j) (fmap_of_list (rev
      (map (\<lambda>k. (k, f (the (fmlookup m k)))) (sorted_list_of_fset (fmdom m)))))"
    unfolding enc_map_def [of f] canon.simps(3) by (simp add: o_def assms)
  also have "\<dots> = enc_map (\<lambda>j. j) (fmmap f m)" by (simp only: fmap_of_sorted_list)
  also have "\<dots> = enc_map f m"
    by (auto simp: enc_map_def fmlookup_dom_iff)
  finally show ?thesis .
qed

lemma link_keys: "sorted_list_of_fset {|''title'', ''url''|} = [''title'', ''url'']"
  by (simp add: sorted_list_of_fset.rep_eq)

lemma canon_link [simp]: "canon (enc_link l) = enc_link l"
proof -
  have "fmdom (fmap_of_list [(''url'', JStr (link_url l)), (''title'', JStr (link_title l))]) = {|''title'', ''url''|}"
    by (simp add: fset_of_list.abs_eq) blast
  with link_keys show ?thesis
    by (simp add: enc_link_def member_def enc_map_def fmlookup_of_list canon.simps(3))
qed

section \<open>Nodes survive the trip\<close>

text \<open>A node whose identifiers of images stay below 2^53, the integers \<open>float64\<close> represents.\<close>

primrec small_node :: "node \<Rightarrow> bool" where
  "small_node (Book b) = small_ints (book_covers b)"
| "small_node (Work w) = small_ints (work_covers w)"
| "small_node (Author a) = small_ints (author_photos a)"

lemma canon_parses:
  assumes "wf_json (canon j)" and "depth_ok 99 (canon j)"
  shows "decodeNode bad_json fs z j =
    (case dec_struct fs z (canon j) of None \<Rightarrow> Inl (bad_json (json_text (canon j))) | Some x \<Rightarrow> Inr x)"
  using json_roundtrip [OF assms(1) depth_ok_mono [OF assms(2)]]
  by (simp add: decodeNode_def unmarshal_def max_nesting_def del: json_text.simps)

lemma canon_object_ok:
  assumes "distinct (map fst kvs)" and "\<forall>kv \<in> set kvs. canon (snd kv) = snd kv"
    and "wf_json (JObj kvs)" and "depth_ok n (JObj kvs)"
  shows "wf_json (canon (JObj kvs)) \<and> depth_ok n (canon (JObj kvs))"
proof -
  from canon_members [OF assms(1,2)] obtain ys where ys: "canon (JObj kvs) = JObj ys" "mset ys = mset kvs" by blast
  from ys(2) have "set ys = set kvs" by (rule mset_eq_setD)
  with assms(3,4) show ?thesis by (auto simp: ys(1) list_all_iff)
qed

lemma decodeNode_object:
  assumes "j = JObj kvs" and "comm_fields fs" and "subseq (map fst kvs) (map fst fs)"
    and "\<forall>kv \<in> set kvs. canon (snd kv) = snd kv" and "wf_json j" and "depth_ok 9 j"
    and "dec_struct fs z j = Some x"
  shows "decodeNode bad_json fs z j = Inr x"
proof -
  have d: "distinct (map fst kvs)"
    using assms(3) comm_fields_distinct [OF assms(2)] by (rule subseq_distinct)
  have "wf_json (canon j) \<and> depth_ok 9 (canon j)"
    unfolding assms(1) by (rule canon_object_ok [OF d assms(4)]) (use assms(1,5,6) in auto)
  with decode_canon [OF assms(2,3,4), of z] assms(7) show ?thesis
    unfolding assms(1) by (subst canon_parses) (auto intro: depth_ok_mono)
qed

lemma decode_book:
  assumes "wf_book b" and "small_ints (book_covers b)"
  shows "decodeNode bad_json book_fields zero_book (enc_book b) = Inr (b\<lparr>book_raw := []\<rparr>)"
proof (rule decodeNode_object [OF enc_book_def comm_book_fields])
  show "dec_struct book_fields zero_book (enc_book b) = Some (b\<lparr>book_raw := []\<rparr>)"
    using assms(1) by (intro dec_enc_book) (simp add: wf_book_def)
qed (use assms enc_book_wf [of b] in \<open>simp_all add: book_fields_def subseq_members canon_enc_map del: map_append set_append\<close>)

lemma decode_work:
  assumes "wf_work w" and "small_ints (work_covers w)"
  shows "decodeNode bad_json work_fields zero_work (enc_work w) = Inr (w\<lparr>work_raw := []\<rparr>)"
proof (rule decodeNode_object [OF enc_work_def comm_work_fields])
  show "dec_struct work_fields zero_work (enc_work w) = Some (w\<lparr>work_raw := []\<rparr>)"
    using assms(1) by (intro dec_enc_work) (simp add: wf_work_def)
qed (use assms enc_work_wf [of w] in \<open>simp_all add: work_fields_def subseq_members del: map_append set_append\<close>)

lemma decode_author:
  assumes "wf_author a" and "small_ints (author_photos a)"
  shows "decodeNode bad_json author_fields zero_author (enc_author a) = Inr (a\<lparr>author_raw := []\<rparr>)"
proof (rule decodeNode_object [OF enc_author_def comm_author_fields])
  show "dec_struct author_fields zero_author (enc_author a) = Some (a\<lparr>author_raw := []\<rparr>)"
    using assms(1) by (intro dec_enc_author) (simp add: wf_author_def)
qed (use assms enc_author_wf [of a] in \<open>simp_all add: author_fields_def subseq_members canon_enc_map del: map_append set_append\<close>)

text \<open>The query that stands for a node.\<close>

primrec node_query :: "string \<Rightarrow> node \<Rightarrow> string \<times> params" where
  "node_query session (Book b) = buildBookQuery session b"
| "node_query session (Work w) = buildWorkQuery session w"
| "node_query session (Author a) = buildAuthorQuery session a"

text \<open>An edge the worker publishes is merged with exactly its ends, relation and session, up to bytes
  that are not UTF-8; an edge without one of its ends is passed over.\<close>

lemma to_valid_utf8_empty: "to_valid_utf8 s = [] \<longleftrightarrow> s = []"
  by (cases s) (auto simp: to_valid_utf8.simps replacement_rune_def Let_def)

lemma writeEdge_marshal:
  assumes "marshal enc_edge e = Some v"
  shows "writeEdge bad_json tx v g =
    (if edge_from e = [] \<or> edge_to e = [] then (None, g) else runWrite tx (buildEdgeQuery (clean_edge e)) g)"
  using edge.unmarshal_lossy [OF TrueI assms] by (simp add: writeEdge_def clean_edge_def to_valid_utf8_empty)

lemma writeResult_published:
  assumes "wf_node n" and "small_node n" and "valid_utf8 (job_session job)" and "valid_utf8 (job_url job)"
    and "NewCrawlResult job n = Some payload"
  shows "writeResult bad_json tx payload g =
    (if ID n = [] then (None, g) else runWrite tx (node_query (job_session job) n) g)"
proof -
  from NewCrawlResult_reads [OF assms(1,3,4)] assms(5) have r:
    "unmarshal (dec_struct result_fields) zero_result payload =
      Some \<lparr>result_session = job_session job, result_url = job_url job, result_type = NodeType n,
        result_node = enc_node n\<rparr>" by simp
  show ?thesis
    using assms(1,2)
    by (cases n)
       (simp_all add: writeResult_def r decode_book decode_work decode_author writeBook_def writeWork_def
         writeAuthor_def buildBookQuery_def buildWorkQuery_def buildAuthorQuery_def)
qed

section \<open>Properties\<close>

text \<open>
  Claim C20. A result the worker publishes is written as the query for its node: the node read back
  from JSON, through \<open>any\<close> and sorted members, has the same key and the same texts. A node
  without a key is passed over without a query.
\<close>

theorem published_result_is_written:
  assumes "wf_node n" and "small_node n" and "valid_utf8 (job_session job)" and "valid_utf8 (job_url job)"
    and "NewCrawlResult job n = Some payload"
  shows "writeResult bad_json tx payload g =
    (if ID n = [] then (None, g) else runWrite tx (node_query (job_session job) n) g)"
  by (rule writeResult_published [OF assms])

text \<open>The texts an edge query is made of, whatever the keys.\<close>

definition node_labels :: "(string \<times> string) list" where
  "node_labels = [(''Book'', ''key''), (''Work'', ''key''), (''Author'', ''key''), (''Subject'', ''name''),
     (''External'', ''key'')]"

definition edge_template :: "string \<times> string \<Rightarrow> string \<times> string \<Rightarrow> string \<Rightarrow> string" where
  "edge_template a b rel =
     ''MERGE (from:'' @ fst a @ '' {'' @ snd a @ '': $fromKey}) MERGE (to:'' @ fst b @ '' {'' @ snd b @
     '': $toKey}) MERGE (from)-[r:'' @ rel @ '' {session_id: $session_id}]->(to)''"

definition worker_relations :: "string list" where
  "worker_relations = [''book_author'', ''book_work'', ''work_author'', ''book_subject'', ''work_subject'', ''search_work'']"

lemma nodeLabel_cases: "\<exists>l\<in>set node_labels. \<exists>v. nodeLabel key = (fst l, v, snd l)"
  by (simp add: nodeLabel_def node_labels_def)

lemma relationType_known:
  "r \<in> set worker_relations \<Longrightarrow> relationType r \<in> set (map to_upper worker_relations)"
  by (auto simp: worker_relations_def relationType_def to_upper_def ascii_upper_def byte_in_def)

text \<open>
  The text of an edge query never depends on the keys of the edge: for the six relations
  of the crawler it is one of finitely many fixed texts, and keys and session are parameters. A
  subject is stored under its name, without the prefix its key has.
\<close>

lemma edge_query_is_fixed_text:
  assumes "edge_relation e \<in> set worker_relations"
  shows "(\<exists>a\<in>set node_labels. \<exists>b\<in>set node_labels. \<exists>r\<in>set (map to_upper worker_relations).
      fst (buildEdgeQuery e) = edge_template a b r) \<and>
    fmlookup (snd (buildEdgeQuery e)) ''fromKey'' = Some (Some (fst (snd (nodeLabel (edge_from e))))) \<and>
    fmlookup (snd (buildEdgeQuery e)) ''toKey'' = Some (Some (fst (snd (nodeLabel (edge_to e))))) \<and>
    fmlookup (snd (buildEdgeQuery e)) ''session_id'' = Some (Some (edge_session e)) \<and>
    nodeLabel (''subject:'' @ s) = (''Subject'', s, ''name'')"
proof -
  from nodeLabel_cases [of "edge_from e"] obtain a v where a: "a \<in> set node_labels"
    "nodeLabel (edge_from e) = (fst a, v, snd a)" by blast
  from nodeLabel_cases [of "edge_to e"] obtain b u where b: "b \<in> set node_labels"
    "nodeLabel (edge_to e) = (fst b, u, snd b)" by blast
  have "fst (buildEdgeQuery e) = edge_template a b (relationType (edge_relation e))"
    by (simp add: buildEdgeQuery_def edge_template_def a(2) b(2))
  with a(1) b(1) relationType_known [OF assms]
  have "\<exists>a\<in>set node_labels. \<exists>b\<in>set node_labels. \<exists>r\<in>set (map to_upper worker_relations).
      fst (buildEdgeQuery e) = edge_template a b r" by blast
  moreover have "fmlookup (snd (buildEdgeQuery e)) ''fromKey'' = Some (Some v)"
    "fmlookup (snd (buildEdgeQuery e)) ''toKey'' = Some (Some u)"
    "fmlookup (snd (buildEdgeQuery e)) ''session_id'' = Some (Some (edge_session e))"
    by (simp_all add: buildEdgeQuery_def a(2) b(2) fmlookup_of_list)
  moreover have "nodeLabel (''subject:'' @ s) = (''Subject'', s, ''name'')"
    by (simp add: nodeLabel_def trim_prefix_def)
  ultimately show ?thesis using a(2) b(2) by simp
qed

text \<open>The messages a consumer gets before it is cancelled.\<close>

fun fetched :: "fetch_event list \<Rightarrow> kafka_message list" where
  "fetched [] = []"
| "fetched (Fetch_Cancelled # es) = []"
| "fetched (Fetch_Error # es) = fetched es"
| "fetched (Fetched msg # es) = msg # fetched es"

text \<open>
  What a consumer is to do, apart from its bookkeeping: each message is written to the graph the one
  before left, and has an outcome.
\<close>

fun write_each :: "(string \<Rightarrow> 'g act) \<Rightarrow> kafka_message list \<Rightarrow> 'g \<Rightarrow> (kafka_message \<times> go_error option) list \<times> 'g" where
  "write_each write [] g = ([], g)"
| "write_each write (m # ms) g =
     (case write (msg_value m) g of (r, g') \<Rightarrow> case write_each write ms g' of (xs, g'') \<Rightarrow> ((m, r) # xs, g''))"

text \<open>The messages that were written, and their commits when \<open>k\<close> commits came before.\<close>

definition well_written :: "(kafka_message \<times> go_error option) list \<Rightarrow> kafka_message list" where
  "well_written xs = map fst (filter (\<lambda>x. snd x = None) xs)"

definition acknowledged ::
  "(nat \<Rightarrow> go_error option) \<Rightarrow> nat \<Rightarrow> (kafka_message \<times> go_error option) list \<Rightarrow> (kafka_message \<times> go_error option) list" where
  "acknowledged committer k xs =
     map (\<lambda>(m, i). (m, committer (k + i))) (zip (well_written xs) [0..<length (well_written xs)])"

definition ledger :: "counters \<Rightarrow> counters \<Rightarrow> (kafka_message \<times> go_error option) list \<Rightarrow> bool" where
  "ledger c c' xs \<longleftrightarrow>
     received c' = received c + of_nat (length xs) \<and> written c' = written c + of_nat (length (well_written xs)) \<and>
     failed c' = failed c + of_nat (length (filter (\<lambda>x. snd x \<noteq> None) xs))"

lemma well_written_simps [simp]:
  "well_written [] = []" "well_written ((m, None) # xs) = m # well_written xs"
  "well_written ((m, Some e) # xs) = well_written xs"
  by (simp_all add: well_written_def)

lemma acknowledged_simps [simp]:
  "acknowledged committer k [] = []"
  "acknowledged committer k ((m, None) # xs) = (m, committer k) # acknowledged committer (Suc k) xs"
  "acknowledged committer k ((m, Some e) # xs) = acknowledged committer k xs"
proof -
  have "zip ws [Suc 0..<Suc (length ws)] = map (\<lambda>(m, i). (m, Suc i)) (zip ws [0..<length ws])" for ws :: "kafka_message list"
    by (simp add: map_Suc_upt [symmetric] zip_map2 del: upt_Suc)
  then show "acknowledged committer k ((m, None) # xs) = (m, committer k) # acknowledged committer (Suc k) xs"
    by (auto simp: acknowledged_def upt_conv_Cons simp del: upt_Suc)
qed (simp_all add: acknowledged_def)

lemma ledger_empty: "ledger c c []"
  by (simp add: ledger_def)

lemma ledger_written:
  "ledger (c\<lparr>received := received c + 1, written := written c + 1\<rparr>) c' xs \<Longrightarrow> ledger c c' ((m, None) # xs)"
  by (simp add: ledger_def)

lemma ledger_failed:
  "ledger (c\<lparr>received := received c + 1, failed := failed c + 1\<rparr>) c' xs \<Longrightarrow> ledger c c' ((m, Some e) # xs)"
  by (simp add: ledger_def)

lemma results_ledger:
  assumes "write_each (writeResult bad_json tx) (fetched es) (graph s) = (xs, g)"
    and "consumeResults bad_json tx committer es s = t"
  shows "graph t = g \<and> edges t = edges s \<and> ledger (results s) (results t) xs \<and>
    commits t = commits s @ acknowledged committer (length (commits s)) xs"
  using assms
proof (induction es arbitrary: s xs)
  case (Cons ev es)
  show ?case
  proof (cases ev)
    case (Fetched msg)
    obtain r g1 where w: "writeResult bad_json tx (msg_value msg) (graph s) = (r, g1)" by fastforce
    obtain ys where ys: "write_each (writeResult bad_json tx) (fetched es) g1 = (ys, g)" "xs = (msg, r) # ys"
      using Cons.prems(1) Fetched w by (auto split: prod.splits)
    show ?thesis
    proof (cases r)
      case None
      let ?s = "commit_message committer msg (s\<lparr>graph := g1,
          results := (results s)\<lparr>received := received (results s) + 1, written := written (results s) + 1\<rparr>\<rparr>)"
      have t: "consumeResults bad_json tx committer es ?s = t"
        using Cons.prems(2) Fetched w None by (simp add: Let_def)
      have "write_each (writeResult bad_json tx) (fetched es) (graph ?s) = (ys, g)" using ys(1) by (simp add: commit_message_def)
      from Cons.IH [OF this t] show ?thesis
        by (simp add: ys(2) None commit_message_def ledger_written)
    next
      case (Some e)
      let ?s = "s\<lparr>graph := g1, results := (results s)\<lparr>received := received (results s) + 1, failed := failed (results s) + 1\<rparr>\<rparr>"
      have t: "consumeResults bad_json tx committer es ?s = t"
        using Cons.prems(2) Fetched w Some by (simp add: Let_def)
      have "write_each (writeResult bad_json tx) (fetched es) (graph ?s) = (ys, g)" using ys(1) by simp
      from Cons.IH [OF this t] show ?thesis
        by (simp add: ys(2) Some ledger_failed)
    qed
  next
    case Fetch_Error
    show ?thesis by (rule Cons.IH) (use Cons.prems in \<open>simp_all add: Fetch_Error\<close>)
  next
    case Fetch_Cancelled
    with Cons.prems show ?thesis by (auto simp: ledger_empty)
  qed
qed (auto simp: ledger_empty)

lemma edges_ledger:
  assumes "write_each (writeEdge bad_json tx) (fetched es) (graph s) = (xs, g)"
    and "consumeEdges bad_json tx committer es s = t"
  shows "graph t = g \<and> results t = results s \<and> ledger (edges s) (edges t) xs \<and>
    commits t = commits s @ acknowledged committer (length (commits s)) xs"
  using assms
proof (induction es arbitrary: s xs)
  case (Cons ev es)
  show ?case
  proof (cases ev)
    case (Fetched msg)
    obtain r g1 where w: "writeEdge bad_json tx (msg_value msg) (graph s) = (r, g1)" by fastforce
    obtain ys where ys: "write_each (writeEdge bad_json tx) (fetched es) g1 = (ys, g)" "xs = (msg, r) # ys"
      using Cons.prems(1) Fetched w by (auto split: prod.splits)
    show ?thesis
    proof (cases r)
      case None
      let ?s = "commit_message committer msg (s\<lparr>graph := g1,
          edges := (edges s)\<lparr>received := received (edges s) + 1, written := written (edges s) + 1\<rparr>\<rparr>)"
      have t: "consumeEdges bad_json tx committer es ?s = t"
        using Cons.prems(2) Fetched w None by (simp add: Let_def)
      have "write_each (writeEdge bad_json tx) (fetched es) (graph ?s) = (ys, g)" using ys(1) by (simp add: commit_message_def)
      from Cons.IH [OF this t] show ?thesis
        by (simp add: ys(2) None commit_message_def ledger_written)
    next
      case (Some e)
      let ?s = "s\<lparr>graph := g1, edges := (edges s)\<lparr>received := received (edges s) + 1, failed := failed (edges s) + 1\<rparr>\<rparr>"
      have t: "consumeEdges bad_json tx committer es ?s = t"
        using Cons.prems(2) Fetched w Some by (simp add: Let_def)
      have "write_each (writeEdge bad_json tx) (fetched es) (graph ?s) = (ys, g)" using ys(1) by simp
      from Cons.IH [OF this t] show ?thesis
        by (simp add: ys(2) Some ledger_failed)
    qed
  next
    case Fetch_Error
    show ?thesis by (rule Cons.IH) (use Cons.prems in \<open>simp_all add: Fetch_Error\<close>)
  next
    case Fetch_Cancelled
    with Cons.prems show ?thesis by (auto simp: ledger_empty)
  qed
qed (auto simp: ledger_empty)

text \<open>
  Claim C19. Both consumers keep their books. Every message that came before the cancellation is
  written once, in the order they came, each to the graph the one before left. Exactly the messages
  whose write returned no error are counted as written and committed, once each and in this order;
  all others are counted as failed and not committed. Neither consumer touches the other's counters.
\<close>

theorem consumers_keep_books:
  "(case (write_each (writeResult bad_json tx) (fetched es) (graph s), consumeResults bad_json tx committer es s) of
      ((xs, g), t) \<Rightarrow> graph t = g \<and> edges t = edges s \<and> ledger (results s) (results t) xs \<and>
        commits t = commits s @ acknowledged committer (length (commits s)) xs) \<and>
   (case (write_each (writeEdge bad_json tx) (fetched es) (graph s), consumeEdges bad_json tx committer es s) of
      ((xs, g), t) \<Rightarrow> graph t = g \<and> results t = results s \<and> ledger (edges s) (edges t) xs \<and>
        commits t = commits s @ acknowledged committer (length (commits s)) xs)"
  using results_ledger [OF _ refl] edges_ledger [OF _ refl] by (fastforce split: prod.splits)

text \<open>
  A result that could not be written is not retried: the consumer goes on, and the commit
  of the next message of its partition that succeeds moves the group past it.
\<close>

lemma failed_result_is_passed_over:
  assumes "writeResult bad_json tx (msg_value m1) (graph s) = (Some e, g1)"
    and "writeResult bad_json tx (msg_value m2) g1 = (None, g2)"
    and "msg_partition m2 = msg_partition m1" and "msg_offset m1 < msg_offset m2"
  shows "commits (consumeResults bad_json tx committer [Fetched m1, Fetched m2] s) =
      commits s @ [(m2, committer (length (commits s)))] \<and>
    graph (consumeResults bad_json tx committer [Fetched m1, Fetched m2] s) = g2"
  using assms by (simp add: commit_message_def Let_def)

definition idle_writer :: "unit graph_writer" where
  "idle_writer = \<lparr>results = \<lparr>received = 0, failed = 0, written = 0\<rparr>,
     edges = \<lparr>received = 0, failed = 0, written = 0\<rparr>, graph = (), commits = []\<rparr>"

definition message_at :: "int \<Rightarrow> string \<Rightarrow> kafka_message" where
  "message_at k v = (new_message [] v zero_time)\<lparr>msg_offset := k\<rparr>"

lemma failed_result_is_passed_over_witness:
  "commits (consumeResults (\<lambda>s. ''bad'') (\<lambda>q p g. (None, g)) (\<lambda>n. None)
     [Fetched (message_at 0 []), Fetched (message_at 1 ''null'')] idle_writer) = [(message_at 1 ''null'', None)]"
proof -
  have n: "json_parse ''null'' = Some JNull"
    using json_roundtrip [of JNull] by simp
  have 1: "writeResult (\<lambda>s. ''bad'') (\<lambda>q p g. (None, g)) (msg_value (message_at 0 [])) (graph idle_writer) =
      (Some ''bad'', ())"
    by (simp add: writeResult_def message_at_def new_message_def unmarshal_def json_parse_def lex.simps)
  have 2: "writeResult (\<lambda>s. ''bad'') (\<lambda>q p g. (None, g)) (msg_value (message_at 1 ''null'')) () = (None, ())"
    by (simp add: writeResult_def message_at_def new_message_def unmarshal_def n dec_struct_def zero_result_def)
  from failed_result_is_passed_over [OF 1 2, of "\<lambda>n. None"] show ?thesis
    by (simp add: idle_writer_def message_at_def new_message_def)
qed

definition sample_work :: work_node where
  "sample_work = zero_work\<lparr>work_key := ''/works/OL1W'', work_title := ''Dune''\<rparr>"

theorem published_result_is_written_witness:
  "\<exists>payload. NewCrawlResult zero_job (Work sample_work) = Some payload \<and>
     writeResult (\<lambda>s. []) (\<lambda>q p g. (Some q, p)) payload fmempty =
       (Some (fst (buildWorkQuery [] sample_work)), snd (buildWorkQuery [] sample_work))"
proof -
  have w: "wf_node (Work sample_work)" "small_node (Work sample_work)"
    by (simp_all add: sample_work_def zero_work_def wf_work_def wf_strings_def small_ints_def valid_utf8_ascii is_ascii_def)
  have j: "valid_utf8 (job_session zero_job)" "valid_utf8 (job_url zero_job)" "job_session zero_job = []"
    by (simp_all add: zero_job_def)
  from NewCrawlResult_reads [OF w(1) j(1,2)] obtain payload where p: "NewCrawlResult zero_job (Work sample_work) = Some payload"
    by blast
  from published_result_is_written [OF w j(1,2) p, of "\<lambda>s. []" "\<lambda>q p g. (Some q, p)" fmempty] p j(3) show ?thesis
    by (simp add: runWrite_def sample_work_def zero_work_def)
qed

definition sample_edge :: edge where
  "sample_edge = \<lparr>edge_session = ''s'', edge_from = ''/works/OL1W'', edge_to = ''subject:sand'', edge_relation = ''work_subject''\<rparr>"

lemma edge_query_is_fixed_text_witness:
  "fmlookup (snd (buildEdgeQuery sample_edge)) ''toKey'' = Some (Some ''sand'')"
proof -
  have "edge_relation sample_edge \<in> set worker_relations"
    by (simp add: sample_edge_def worker_relations_def)
  from edge_query_is_fixed_text [OF this, of "''sand''"] show ?thesis
    by (simp add: sample_edge_def)
qed

end
