(* ===== verification/Well_Typed.thy ===== *)
theory Well_Typed
  imports OL_Parser
begin

text \<open>
  What decoding guarantees of its values, whatever the text: strings are UTF-8, integers are
  \<open>int64\<close>. So a node read from any response, and a job read from any message, can be written
  again and read back; nothing else is assumed of Open Library or of the topics.
\<close>

section \<open>Strings of a document\<close>

lemma chr_eq: "a < 256 \<Longrightarrow> b < 256 \<Longrightarrow> chr a = chr b \<longleftrightarrow> a = b"
  by (metis of_char_of mod_less)

lemma chr_leads:
  "a < 256 \<Longrightarrow> chr a = CHR 0xE0 \<longleftrightarrow> a = 224" "a < 256 \<Longrightarrow> chr a = CHR 0xED \<longleftrightarrow> a = 237"
  "a < 256 \<Longrightarrow> chr a = CHR 0xF0 \<longleftrightarrow> a = 240" "a < 256 \<Longrightarrow> chr a = CHR 0xF4 \<longleftrightarrow> a = 244"
  using chr_eq [of a 224] chr_eq [of a 237] chr_eq [of a 240] chr_eq [of a 244] by simp_all

lemma valid_utf8_rune: "utf8_width s = length s \<Longrightarrow> s \<noteq> [] \<Longrightarrow> valid_utf8 s"
  by (subst valid_utf8.simps) simp

lemma rune_1: "(a::nat) < 128 \<Longrightarrow> valid_utf8 [chr a]"
  by (rule valid_utf8_ascii) (simp add: is_ascii_def)

lemma rune_2: "194 \<le> (a::nat) \<Longrightarrow> a \<le> 223 \<Longrightarrow> (b::nat) < 64 \<Longrightarrow> valid_utf8 [chr a, chr (128 + b)]"
  by (rule valid_utf8_rune)
     (simp_all add: utf8_width_def lead_width_def byte_in_def second_ok_def is_cont_def chr_leads)

lemma rune_3:
  "224 \<le> (a::nat) \<Longrightarrow> a \<le> 239 \<Longrightarrow> (b::nat) < 64 \<Longrightarrow> (c::nat) < 64 \<Longrightarrow> (a = 224 \<Longrightarrow> 32 \<le> b) \<Longrightarrow> (a = 237 \<Longrightarrow> b \<le> 31) \<Longrightarrow>
   valid_utf8 [chr a, chr (128 + b), chr (128 + c)]"
  by (rule valid_utf8_rune)
     (auto simp add: utf8_width_def lead_width_def byte_in_def second_ok_def is_cont_def chr_leads)

lemma rune_4:
  "240 \<le> (a::nat) \<Longrightarrow> a \<le> 244 \<Longrightarrow> (b::nat) < 64 \<Longrightarrow> (c::nat) < 64 \<Longrightarrow> (d::nat) < 64 \<Longrightarrow> (a = 240 \<Longrightarrow> 16 \<le> b) \<Longrightarrow> (a = 244 \<Longrightarrow> b \<le> 15) \<Longrightarrow>
   valid_utf8 [chr a, chr (128 + b), chr (128 + c), chr (128 + d)]"
  by (rule valid_utf8_rune)
     (auto simp add: utf8_width_def lead_width_def byte_in_def second_ok_def is_cont_def chr_leads)

lemma valid_utf8_encode:
  assumes "n < 1114112" and "\<not> (55296 \<le> n \<and> n < 57344)"
  shows "valid_utf8 (utf8_encode n)"
proof -
  consider "n < 128" | "128 \<le> n" "n < 2048" | "2048 \<le> n" "n < 65536" | "65536 \<le> n" by linarith
  then show ?thesis
  proof cases
    case 1
    then show ?thesis by (simp add: utf8_encode_def rune_1)
  next
    case 2
    then have "194 \<le> 192 + n div 64" "192 + n div 64 \<le> 223" by linarith+
    from rune_2 [OF this, of "n mod 64"] 2 show ?thesis by (simp add: utf8_encode_def)
  next
    case 3
    define q where "q = n div 64"
    have q: "n div 4096 = q div 64" by (simp add: q_def div_mult2_eq [symmetric])
    have "32 \<le> q" "q < 1024" "\<not> (864 \<le> q \<and> q < 896)"
      using 3 assms(2) unfolding q_def by linarith+
    then have b: "q div 64 < 16" "q div 64 = 0 \<Longrightarrow> 32 \<le> q mod 64" "q div 64 = 13 \<Longrightarrow> q mod 64 \<le> 31"
      using mult_div_mod_eq [of 64 q] by linarith+
    from 3 show ?thesis
      by (simp add: utf8_encode_def q) (rule rune_3, use b in \<open>simp_all add: q_def\<close>)
  next
    case 4
    define q where "q = n div 4096"
    have q: "n div 262144 = q div 64" by (simp add: q_def div_mult2_eq [symmetric])
    have "16 \<le> q" "q < 272" using 4 assms(1) unfolding q_def by linarith+
    then have b: "q div 64 < 5" "q div 64 = 0 \<Longrightarrow> 16 \<le> q mod 64" "q div 64 = 4 \<Longrightarrow> q mod 64 \<le> 15"
      using mult_div_mod_eq [of 64 q] by linarith+
    from 4 show ?thesis
      by (simp add: utf8_encode_def q) (rule rune_4, use b in \<open>simp_all add: q_def\<close>)
  qed
qed

lemma hex_val_less: "hex_val c = Some n \<Longrightarrow> n < 16"
  by (auto simp: hex_val_def byte_in_def split: if_splits)

lemma hex4_less: "hex4 s = Some n \<Longrightarrow> n < 65536"
  by (auto simp: hex4_def split: list.splits option.splits dest!: hex_val_less)

lemma valid_replacement: "valid_utf8 replacement_rune"
proof -
  have "replacement_rune = utf8_encode 65533" by (simp add: utf8_encode_def replacement_rune_def)
  then show ?thesis using valid_utf8_encode [of 65533] by simp
qed

lemma unicode_step_valid: "unicode_step r = Str_Emit x r' \<Longrightarrow> valid_utf8 x"
  by (auto simp: unicode_step_def valid_replacement split: option.splits if_splits
      intro!: valid_utf8_encode dest!: hex4_less)

lemma str_step_valid: "str_step s = Str_Emit x r \<Longrightarrow> valid_utf8 x"
proof -
  assume e: "str_step s = Str_Emit x r"
  then obtain c cs where s: "s = c # cs" by (cases s) (auto simp: str_step_def)
  show ?thesis
  proof (cases "c = CHR 0x5C")
    case True
    with e show ?thesis
      by (auto simp: str_step_def s simple_escape_def valid_utf8_ascii is_ascii_def unicode_step_valid
          split: list.splits if_splits option.splits)
  next
    case False
    with e have "x = replacement_rune \<or> (utf8_width s \<noteq> 0 \<and> x = take (utf8_width s) s)"
      by (auto simp: str_step_def s split: if_splits)
    then show ?thesis
    proof
      assume "x = replacement_rune"
      with valid_replacement show ?thesis by simp
    next
      assume "utf8_width s \<noteq> 0 \<and> x = take (utf8_width s) s"
      then show ?thesis
        using utf8_width_take [of s] utf8_width_le [of s] by (auto intro!: valid_utf8_rune)
    qed
  qed
qed

lemma lex_str_valid: "lex_str s = Some (t, r) \<Longrightarrow> valid_utf8 t"
proof (induction s arbitrary: t rule: lex_str.induct)
  case (1 s)
  show ?case
  proof (cases "str_step s")
    case (Str_Emit x r')
    with "1.prems" obtain u where "lex_str r' = Some (u, r)" "t = x @ u"
      by (subst (asm) lex_str.simps) (auto simp: emit_Some)
    with "1.IH" Str_Emit str_step_valid [OF Str_Emit] show ?thesis by (auto intro: valid_utf8_append)
  qed (use "1.prems" in \<open>subst (asm) lex_str.simps, simp\<close>)+
qed

text \<open>A document all of whose strings and keys are UTF-8.\<close>

fun utf8_json :: "json \<Rightarrow> bool" where
  "utf8_json (JStr s) = valid_utf8 s"
| "utf8_json (JArr js) = list_all utf8_json js"
| "utf8_json (JObj kvs) = list_all (\<lambda>(k, v). valid_utf8 k \<and> utf8_json v) kvs"
| "utf8_json j = True"

fun utf8_token :: "token \<Rightarrow> bool" where
  "utf8_token (T_Str s) = valid_utf8 s"
| "utf8_token (T_Lit j) = utf8_json j"
| "utf8_token t = True"

fun utf8_frame :: "frame \<Rightarrow> bool" where
  "utf8_frame (F_Arr vs) = list_all utf8_json vs"
| "utf8_frame (F_Obj kvs k) \<longleftrightarrow> list_all (\<lambda>(k, v). valid_utf8 k \<and> utf8_json v) kvs \<and> valid_utf8 k"

fun utf8_mode :: "mode \<Rightarrow> bool" where
  "utf8_mode (M_Key kvs) = list_all (\<lambda>(k, v). valid_utf8 k \<and> utf8_json v) kvs"
| "utf8_mode (M_Colon kvs k) \<longleftrightarrow> list_all (\<lambda>(k, v). valid_utf8 k \<and> utf8_json v) kvs \<and> valid_utf8 k"
| "utf8_mode (M_Done v) = utf8_json v"
| "utf8_mode m = True"

lemma punct_utf8: "punct c = Some t \<Longrightarrow> utf8_token t"
  by (auto simp: punct_def split: if_splits)

lemma next_token_utf8:
  assumes "next_token s = Some (t, r)"
  shows "utf8_token t"
proof -
  obtain c cs where s: "s = c # cs" using assms by (cases s) (auto simp: next_token_def)
  show ?thesis
  proof (cases "punct c")
    case (Some t')
    with assms punct_utf8 show ?thesis by (simp add: next_token_def s)
  next
    case None
    have "(\<exists>x r. lex_str cs = Some (x, r) \<and> t = T_Str x) \<or> (\<exists>x. t = T_Num x) \<or> t = T_Lit (JBool True) \<or>
        t = T_Lit (JBool False) \<or> t = T_Lit JNull"
      using assms unfolding next_token_def s list.case None option.case by (auto split: if_split_asm simp del: has_prefix_Cons)
    with lex_str_valid show ?thesis by auto
  qed
qed

lemma lex_utf8: "lex s = Some ts \<Longrightarrow> list_all utf8_token ts"
proof (induction s arbitrary: ts rule: lex.induct)
  case (1 s)
  from "1.prems" show ?case
    by (subst (asm) lex.simps)
       (auto simp: "1.IH" split: if_splits option.splits dest: next_token_utf8)
qed

lemma parse_step_utf8:
  assumes "parse_step st m t = Some (st', m')" and "list_all utf8_frame st" and "utf8_mode m" and "utf8_token t"
  shows "list_all utf8_frame st' \<and> utf8_mode m'"
  using assms
  by (cases m; cases t; cases st)
     (auto simp: parse_step_def begin_value_def end_value_def split: if_splits list.splits frame.splits
       dest: list.set_sel(2))

lemma parse_tokens_utf8:
  "parse_tokens st m ts = Some j \<Longrightarrow> list_all utf8_frame st \<Longrightarrow> utf8_mode m \<Longrightarrow> list_all utf8_token ts \<Longrightarrow> utf8_json j"
proof (induction st m ts rule: parse_tokens.induct)
  case (2 st m t ts)
  then show ?case using parse_step_utf8 by (fastforce split: option.splits)
qed (auto split: list.splits mode.splits)

lemma json_parse_utf8: "json_parse s = Some j \<Longrightarrow> utf8_json j"
  by (auto simp: json_parse_def bind_eq_Some_conv dest!: lex_utf8 parse_tokens_utf8)

section \<open>Decoders keep what they promise\<close>

text \<open>\<open>dec_ok P d\<close>: \<open>d\<close> decodes into a target with \<open>P\<close> only values with \<open>P\<close>.\<close>

definition dec_ok :: "('a \<Rightarrow> bool) \<Rightarrow> 'a decoder \<Rightarrow> bool" where
  "dec_ok P d \<longleftrightarrow> (\<forall>old j x. P old \<longrightarrow> utf8_json j \<longrightarrow> d old j = Some x \<longrightarrow> P x)"

definition field_ok :: "('r \<Rightarrow> bool) \<Rightarrow> 'r struct_field \<Rightarrow> bool" where
  "field_ok P nf \<longleftrightarrow> dec_ok P (snd nf)"

lemma dec_okD: "dec_ok P d \<Longrightarrow> P old \<Longrightarrow> utf8_json j \<Longrightarrow> d old j = Some x \<Longrightarrow> P x"
  by (auto simp: dec_ok_def)

named_theorems typed \<open>decoders that keep a type\<close>

lemma dec_ok_scalars [typed]:
  "dec_ok valid_utf8 dec_string" "dec_ok in_int64 dec_int" "dec_ok utf8_json dec_any"
  by (auto simp: dec_ok_def dec_string_def dec_int_def dec_any_def atoi_range split: json.splits if_splits)

lemma dec_elems_ok:
  "P z \<Longrightarrow> dec_ok P d \<Longrightarrow> list_all P xs \<Longrightarrow> list_all utf8_json js \<Longrightarrow> dec_elems z d xs js = Some ys \<Longrightarrow> list_all P ys"
proof (induction js arbitrary: xs ys)
  case (Cons j js)
  from Cons.prems(5) obtain y ys' where y: "d (if xs = [] then z else hd xs) j = Some y"
    "dec_elems z d (tl xs) js = Some ys'" "ys = y # ys'" by (auto split: option.splits)
  have z: "P (if xs = [] then z else hd xs)" "list_all P (tl xs)" using Cons.prems(1,3) by (cases xs; simp)+
  have "utf8_json j" "list_all utf8_json js" using Cons.prems(4) by simp_all
  have "P y" by (rule dec_okD [OF Cons.prems(2) z(1) \<open>utf8_json j\<close> y(1)])
  moreover have "list_all P ys'" by (rule Cons.IH [OF Cons.prems(1,2) z(2) \<open>list_all utf8_json js\<close> y(2)])
  ultimately show ?case by (simp add: y(3))
qed simp

lemma dec_slice_ok [typed]: "P z \<Longrightarrow> dec_ok P d \<Longrightarrow> dec_ok (list_all P) (dec_slice z d)"
  unfolding dec_ok_def [of "list_all P"]
  by (auto simp: dec_slice_def intro: dec_elems_ok split: json.splits)

lemma dec_entries_ok:
  "P z \<Longrightarrow> dec_ok P d \<Longrightarrow> fmpred (\<lambda>k v. valid_utf8 k \<and> P v) m \<Longrightarrow>
   list_all (\<lambda>(k, v). valid_utf8 k \<and> utf8_json v) kvs \<Longrightarrow> dec_entries z d m kvs = Some m' \<Longrightarrow>
   fmpred (\<lambda>k v. valid_utf8 k \<and> P v) m'"
proof (induction kvs arbitrary: m)
  case (Cons kv kvs)
  obtain k j where kv: "kv = (k, j)" by (cases kv)
  from Cons.prems(5) obtain v where v: "d z j = Some v" "dec_entries z d (fmupd k v m) kvs = Some m'"
    by (auto simp: kv split: option.splits)
  have k: "valid_utf8 k" "utf8_json j" "list_all (\<lambda>(k, v). valid_utf8 k \<and> utf8_json v) kvs"
    using Cons.prems(4) by (simp_all add: kv)
  have "P v" by (rule dec_okD [OF Cons.prems(2,1) k(2) v(1)])
  with k(1) Cons.prems(3) have "fmpred (\<lambda>k v. valid_utf8 k \<and> P v) (fmupd k v m)" by (simp add: fmpred_upd)
  from Cons.IH [OF Cons.prems(1,2) this k(3) v(2)] show ?case .
qed simp

lemma dec_map_ok [typed]:
  "P z \<Longrightarrow> dec_ok P d \<Longrightarrow> dec_ok (fmpred (\<lambda>k v. valid_utf8 k \<and> P v)) (dec_map z d)"
  unfolding dec_ok_def [of "fmpred p" for p]
  by (auto simp: dec_map_def intro: dec_entries_ok split: json.splits)

lemma dec_members_ok:
  "list_all (field_ok P) fs \<Longrightarrow> P r \<Longrightarrow> list_all (\<lambda>(k, v). valid_utf8 k \<and> utf8_json v) kvs \<Longrightarrow>
   dec_members fs r kvs = Some r' \<Longrightarrow> P r'"
proof (induction fs r kvs rule: dec_members.induct)
  case (2 fs r k j kvs)
  show ?case
  proof (cases "find_field fs k")
    case None
    with 2 show ?thesis by simp
  next
    case (Some f)
    then have "\<exists>n. (n, f) \<in> set fs"
      by (auto simp: find_field_def find_Some_iff split: option.splits dest: map_of_SomeD) (metis nth_mem)
    with "2.prems"(1) have "dec_ok P f" by (auto simp: list_all_iff field_ok_def)
    with 2 Some show ?thesis by (auto split: option.splits dest: dec_okD)
  qed
qed simp

lemma dec_struct_ok [typed]: "list_all (field_ok P) fs \<Longrightarrow> dec_ok P (dec_struct fs)"
  unfolding dec_ok_def by (auto simp: dec_struct_def intro: dec_members_ok split: json.splits)

lemma struct_field_ok:
  assumes "dec_ok Q d" and "\<And>r. P r \<Longrightarrow> Q (get r)" and "\<And>r v. P r \<Longrightarrow> Q v \<Longrightarrow> P (upd (\<lambda>_. v) r)"
  shows "field_ok P (struct_field n get upd d)"
  unfolding field_ok_def struct_field_def dec_ok_def using assms by (auto dest: dec_okD)

lemma unmarshal_ok: "dec_ok P d \<Longrightarrow> P z \<Longrightarrow> unmarshal d z s = Some x \<Longrightarrow> P x"
  by (auto simp: unmarshal_def bind_eq_Some_conv dest: json_parse_utf8 dec_okD)

section \<open>Jobs\<close>

text \<open>A decoded time has a year of four digits, though perhaps another zone.\<close>

definition year_ok :: "go_time \<Rightarrow> bool" where
  "year_ok t \<longleftrightarrow> 0 \<le> t_year t \<and> t_year t \<le> 9999"

definition read_job :: "crawl_job \<Rightarrow> bool" where
  "read_job x \<longleftrightarrow> valid_utf8 (job_session x) \<and> valid_utf8 (job_seed x) \<and> valid_utf8 (job_url x) \<and>
     in_int64 (job_depth x) \<and> year_ok (job_created x)"

lemma dec_time_ok [typed]: "dec_ok year_ok dec_time"
  by (auto simp: dec_ok_def dec_time_def unmarshal_time_def year_ok_def field_def Let_def
      split: json.splits if_splits option.splits prod.splits)

lemma job_fields_ok: "list_all (field_ok read_job) job_fields"
  by (auto simp: job_fields_def read_job_def intro!: struct_field_ok typed)

section \<open>Nodes\<close>

lemmas strings_ok [typed] = dec_slice_ok [OF valid_utf8_Nil dec_ok_scalars(1)]

lemma ints_ok [typed]: "dec_ok (list_all in_int64) (dec_slice 0 dec_int)"
  by (rule dec_slice_ok) (auto intro: typed simp: in_int64_iff)

lemma key_ref_ok [typed]: "dec_ok valid_utf8 key_ref" "dec_ok valid_utf8 author_ref"
proof -
  show k: "dec_ok valid_utf8 key_ref"
    unfolding key_ref_def by (rule dec_struct_ok) (auto intro!: struct_field_ok [where Q = valid_utf8] typed)
  show "dec_ok valid_utf8 author_ref"
    unfolding author_ref_def by (rule dec_struct_ok) (auto intro!: struct_field_ok [where Q = valid_utf8] k)
qed

lemmas refs_ok [typed] = dec_slice_ok [OF valid_utf8_Nil key_ref_ok(1)] dec_slice_ok [OF valid_utf8_Nil key_ref_ok(2)]

lemma string_maps_ok [typed]:
  "dec_ok (fmpred (\<lambda>k v. valid_utf8 k \<and> list_all valid_utf8 v)) (dec_map [] (dec_slice [] dec_string))"
  "dec_ok (fmpred (\<lambda>k v. valid_utf8 k \<and> valid_utf8 v)) (dec_map [] dec_string)"
  by (rule dec_map_ok; auto intro: typed)+

lemma link_ok: "dec_ok (\<lambda>l. valid_utf8 (link_title l) \<and> valid_utf8 (link_url l)) (dec_struct link_fields)"
  by (rule dec_struct_ok)
     (auto simp: link_fields_def intro!: struct_field_ok [where Q = valid_utf8] typed)

lemma links_ok:
  "dec_ok (list_all (\<lambda>l. valid_utf8 (link_title l) \<and> valid_utf8 (link_url l))) (dec_slice zero_link (dec_struct link_fields))"
  by (rule dec_slice_ok [OF _ link_ok]) (simp add: zero_link_def)

text \<open>The decoders of the fields of all payloads.\<close>

lemmas field_types = dec_ok_scalars strings_ok ints_ok refs_ok string_maps_ok links_ok

lemma edition_fields_ok: "list_all (field_ok wf_book) edition_fields"
  unfolding edition_fields_def list.pred_inject
  by (intro conjI; ((rule struct_field_ok, rule field_types)?, (simp add: wf_book_def wf_strings_def)+))

definition typed_work :: "work_payload \<Rightarrow> bool" where
  "typed_work p \<longleftrightarrow> valid_utf8 (pw_key p) \<and> valid_utf8 (pw_title p) \<and> list_all valid_utf8 (pw_authors p) \<and>
     list_all valid_utf8 (pw_subjects p) \<and> list_all valid_utf8 (pw_people p) \<and> list_all valid_utf8 (pw_times p) \<and>
     utf8_json (pw_description p) \<and> list_all in_int64 (pw_covers p)"

lemma work_fields_ok: "list_all (field_ok typed_work) work_payload_fields"
  unfolding work_payload_fields_def list.pred_inject
  by (intro conjI; ((rule struct_field_ok, rule field_types)?, (simp add: typed_work_def)+))

definition typed_author :: "author_payload \<Rightarrow> bool" where
  "typed_author p \<longleftrightarrow> valid_utf8 (pa_key p) \<and> valid_utf8 (pa_name p) \<and> valid_utf8 (pa_personal p) \<and>
     utf8_json (pa_bio p) \<and> list_all valid_utf8 (pa_alternates p) \<and> list_all in_int64 (pa_photos p) \<and>
     fmpred (\<lambda>k v. valid_utf8 k \<and> valid_utf8 v) (pa_remote_ids p) \<and>
     list_all (\<lambda>l. valid_utf8 (link_title l) \<and> valid_utf8 (link_url l)) (pa_links p)"

lemma author_fields_ok: "list_all (field_ok typed_author) author_payload_fields"
  unfolding author_payload_fields_def list.pred_inject
  by (intro conjI; ((rule struct_field_ok, rule field_types)?, (simp add: typed_author_def)+))

lemma textValue_utf8: "utf8_json v \<Longrightarrow> valid_utf8 (textValue v)"
  by (fastforce simp: textValue_def any_lookup_def list_all_iff split: json.splits option.splits dest!: map_of_SomeD)

lemma zero_payloads: "wf_book zero_book" "typed_work zero_work_payload" "typed_author zero_author_payload"
    "wf_work zero_work" "wf_author zero_author"
  by (simp_all add: wf_book_def zero_book_def wf_strings_def typed_work_def zero_work_payload_def
      typed_author_def zero_author_payload_def wf_work_def zero_work_def wf_author_def zero_author_def)

lemma filter_strings: "list_all valid_utf8 xs \<Longrightarrow> list_all valid_utf8 (filter P xs)"
  by (simp add: list_all_iff)

lemma ParseBookNode_typed: "ParseBookNode bad body = Inr b \<Longrightarrow> wf_book b"
  using unmarshal_ok [OF dec_struct_ok [OF edition_fields_ok] zero_payloads(1), of body] zero_payloads(1)
  by (auto simp: ParseBookNode_def wf_book_def wf_strings_def filter_strings Let_def split: option.splits if_splits)

lemma ParseWorkNode_typed: "ParseWorkNode bad body = Inr w \<Longrightarrow> wf_work w"
  using unmarshal_ok [OF dec_struct_ok [OF work_fields_ok] zero_payloads(2), of body] zero_payloads(4)
  by (auto simp: ParseWorkNode_def wf_work_def typed_work_def wf_strings_def filter_strings textValue_utf8 Let_def
      split: option.splits if_splits)

lemma ParseAuthorNode_typed: "ParseAuthorNode bad body = Inr a \<Longrightarrow> wf_author a"
  using unmarshal_ok [OF dec_struct_ok [OF author_fields_ok] zero_payloads(3), of body] zero_payloads(5)
  by (auto simp: ParseAuthorNode_def wf_author_def typed_author_def wf_strings_def textValue_utf8 Let_def
      split: option.splits if_splits)

lemma map_sum_Inr: "map_sum f g x = Inr y \<longleftrightarrow> (\<exists>z. x = Inr z \<and> y = g z)"
  by (cases x) auto

lemma ParseNode_typed: "ParseNode bad body = Inr (Some n) \<Longrightarrow> wf_node n"
  by (auto simp: ParseNode_def map_sum_Inr split: option.splits if_splits sum.splits
      dest!: ParseBookNode_typed ParseWorkNode_typed ParseAuthorNode_typed)

lemma zero_job_read: "read_job zero_job"
  by (simp add: read_job_def zero_job_def in_int64_iff year_ok_def zero_time_def)

lemma unmarshal_job_typed: "unmarshal (dec_struct job_fields) zero_job s = Some job \<Longrightarrow> read_job job"
  by (rule unmarshal_ok [OF dec_struct_ok [OF job_fields_ok] zero_job_read])

section \<open>Properties\<close>

text \<open>
  Claim C29. Decoded values are well typed, whatever bytes they come from: the strings of a parsed
  node, of all its references, maps and links, are UTF-8 and its integers are 64-bit, so it can be
  encoded and decoded again without loss.
\<close>

theorem parsed_node_is_typed:
  assumes "ParseNode bad_json body = Inr (Some n)"
  shows "wf_node n \<and> (\<exists>j. json_parse (json_text (enc_node n)) = Some j \<and> j = enc_node n)"
proof -
  have n: "wf_node n" by (rule ParseNode_typed [OF assms])
  have "wf_json (enc_node n) \<and> depth_ok max_nesting (enc_node n)"
    using n enc_book_wf enc_work_wf enc_author_wf
    by (cases n) (auto simp: max_nesting_def intro: depth_ok_mono [where m = 9])
  with n json_roundtrip [of "enc_node n"] show ?thesis by blast
qed

theorem parsed_node_is_typed_witness:
  "wf_node (with_raw (json_text (record_json sample_author)) sample_author)"
  using parsed_node_is_typed [OF ParseNode_record [OF sample_author_ok]] by blast

end
