(* ===== verification/Pipeline.thy ===== *)
theory Pipeline
  imports Loadgen Worker_Dispatch Graph_Writer Well_Typed
begin

text \<open>
  Properties that span the services: a crawl accepted by the API reaches the worker, what the worker
  publishes reaches the graph, and the exchange of jobs between the frontier topic and the workers
  ends.
\<close>

section \<open>From the API to the worker\<close>

lemma dispatch_seed:
  assumes "unmarshal (dec_struct job_fields) zero_job (msg_value msg) = Some job"
    and "faults (calls k) = None" and "ctx_err env (clock w) = None"
  shows "case dispatchMessage env c (redis_setnx faults) msg (k, w) of
    (r, k', w') \<Rightarrow> r = None \<and> fmlookup (entries k') (dedupeKeyForJob job) \<noteq> None \<and>
      (if fmlookup (entries k) (dedupeKeyForJob job) = None
       then spawned w' = spawned w @ [(msg, job)] \<and> commit_ch w' = commit_ch w
       else spawned w' = spawned w \<and> commit_ch w' = commit_ch w @ [msg])"
proof (cases "fmlookup (entries k) (dedupeKeyForJob job)")
  case None
  then have "redis_setnx faults k (dedupeKeyForJob job) ''1'' (ttl c) =
      (Inr True, k\<lparr>entries := fmupd (dedupeKeyForJob job) ''1'' (entries k), calls := Suc (calls k)\<rparr>)"
    by (simp add: redis_setnx_def assms(2))
  with None assms(1,3) show ?thesis by (simp add: dispatch_defs)
next
  case (Some v)
  then have "redis_setnx faults k (dedupeKeyForJob job) ''1'' (ttl c) = (Inr False, k\<lparr>calls := Suc (calls k)\<rparr>)"
    by (simp add: redis_setnx_def assms(2))
  with Some assms(1) show ?thesis by (simp add: dispatch_defs)
qed

text \<open>
  Claim C10. A crawl the API accepts is started, provided the clock readings are valid times and the
  seed URL is UTF-8, and the worker that fetches the message has a \<open>SetNX\<close> that does not fail and a
  context that is not cancelled: the message the API put into the frontier is handed to a goroutine
  as a job of depth 0 for the normalized seed, in the session of the answer. But the dedupe key is
  the URL alone: when another session asked for the same seed before, the worker commits the message
  and starts nothing, although the answer was the same. With a failing \<open>SetNX\<close> or a cancelled
  context the message is dropped.
\<close>

theorem accepted_crawl_is_started:
  assumes post: "handleCrawl clk (WriteJob (kafka_write kf) te) (SetStatus (redis_set rf) te prefx life) r a = (resp, a1)"
    and ok: "resp_status resp = 202" and clock: "wf_time (clk (ticks a))" "wf_time (clk (Suc (ticks a)))"
    and utf8: "valid_utf8 (normalizeSeedURL (trim_space (query_get (call_query r) ''url'')))"
    and live: "faults (calls k) = None" "ctx_err env (clock w) = None"
    and job: "job = seed_job (newSessionID (clk (ticks a)))
      (normalizeSeedURL (trim_space (query_get (call_query r) ''url''))) (clk (Suc (ticks a)))"
  shows "\<exists>msg. appended (prod a1) = appended (prod a) @ [msg] \<and>
    (case dispatchMessage env c (redis_setnx faults) msg (k, w) of
      (r, k', w') \<Rightarrow> r = None \<and> fmlookup (entries k') (dedupeKeyForJob job) \<noteq> None \<and>
        (if fmlookup (entries k) (dedupeKeyForJob job) = None
         then spawned w' = spawned w @ [(msg, job)] \<and> commit_ch w' = commit_ch w
         else spawned w' = spawned w \<and> commit_ch w' = commit_ch w @ [msg]))"
proof -
  have "valid_utf8 (newSessionID (clk (ticks a)))"
    by (intro valid_utf8_ascii digits_ascii newSessionID_digits)
  with utf8 clock have "wf_job job"
    by (simp add: job wf_job_def seed_job_def in_int64_iff)
  from kafka.jobs.accepted_job_reads [OF this] redis_api.accepted [OF post ok] obtain msg
    where m: "appended (prod a1) = appended (prod a) @ [msg]"
      "unmarshal (dec_struct job_fields) zero_job (msg_value msg) = Some job"
    unfolding job by blast
  show ?thesis
    by (intro exI [of _ msg] conjI m(1) dispatch_seed [where faults = faults and k = k, OF m(2) live])
qed

theorem accepted_crawl_is_started_witness:
  "\<exists>resp a1 msg. handleCrawl sample_clock (WriteJob (kafka_write (\<lambda>n. None)) (\<lambda>t. []))
      (SetStatus (redis_set (\<lambda>n. None)) (\<lambda>t. []) [] 86400000000000) sample_call sample_server = (resp, a1) \<and>
    appended (prod a1) = [msg] \<and>
    spawned (snd (snd (dispatchMessage dead_env default_worker (redis_setnx (\<lambda>n. None)) msg (new_redis, new_world)))) =
      [(msg, seed_job (newSessionID (sample_clock 0)) ''https://openlibrary.org/works/OL1W.json'' (sample_clock 1))]"
proof -
  obtain resp a1 where c: "handleCrawl sample_clock (WriteJob (kafka_write (\<lambda>n. None)) (\<lambda>t. []))
      (SetStatus (redis_set (\<lambda>n. None)) (\<lambda>t. []) [] 86400000000000) sample_call sample_server = (resp, a1)"
    by (metis surjective_pairing)
  have s: "ticks sample_server = 0" "appended (prod sample_server) = []"
    by (simp_all add: sample_server_def)
  have u: "valid_utf8 (normalizeSeedURL (trim_space (query_get (call_query sample_call) ''url'')))"
    unfolding sample_seed(1) by (rule valid_utf8_ascii) (simp add: is_ascii_def)
  have ok: "resp_status resp = 202" using sample_accepted [OF c] by simp
  have t: "wf_time (sample_clock (ticks sample_server))" "wf_time (sample_clock (Suc (ticks sample_server)))"
    by (simp_all add: s sample_clock_wf)
  have l: "(\<lambda>n. None) (calls new_redis) = None" "ctx_err dead_env (clock new_world) = None"
    by (simp_all add: dead_env_def)
  from accepted_crawl_is_started [where k = new_redis and faults = "\<lambda>n. None", OF c ok t u l refl] obtain msg where
    "appended (prod a1) = [msg]"
    "spawned (snd (snd (dispatchMessage dead_env default_worker (redis_setnx (\<lambda>n. None)) msg (new_redis, new_world)))) =
      spawned new_world @ [(msg, seed_job (newSessionID (sample_clock 0))
        (normalizeSeedURL (trim_space (query_get (call_query sample_call) ''url''))) (sample_clock 1))]"
    by (auto simp: s new_redis_def case_prod_beta)
  with c show ?thesis by (auto simp: sample_seed(1) new_world_def)
qed

section \<open>From the worker to the graph\<close>

text \<open>The edges of a plan that are written to the graph, and the graph after they are merged.\<close>

definition graph_edges :: "publication list \<Rightarrow> edge list" where
  "graph_edges ps = concat (map (\<lambda>p. case p of Pub_Job url \<Rightarrow> []
     | Pub_Edge e \<Rightarrow> (if edge_from e = [] \<or> edge_to e = [] then [] else [clean_edge e])) ps)"

definition edge_messages :: "(topic \<times> kafka_message \<times> go_error option) list \<Rightarrow> kafka_message list" where
  "edge_messages ws = map (\<lambda>(tp, msg, err). msg) (filter (\<lambda>(tp, msg, err). tp = Edges \<and> err = None) ws)"

primrec merged :: "'g tx \<Rightarrow> edge list \<Rightarrow> 'g \<Rightarrow> 'g" where
  "merged tx [] g = g"
| "merged tx (e # es) g = merged tx es (snd (runWrite tx (buildEdgeQuery e) g))"

lemma graph_edges_simps [simp]:
  "graph_edges [] = []" "graph_edges (Pub_Job url # ps) = graph_edges ps"
  "graph_edges (Pub_Edge e # ps) =
     (if edge_from e = [] \<or> edge_to e = [] then graph_edges ps else clean_edge e # graph_edges ps)"
  by (simp_all add: graph_edges_def)

lemma edge_messages_simps [simp]:
  "edge_messages [] = []"
  "edge_messages (x # ws) = (if fst x = Edges \<and> snd (snd x) = None then fst (snd x) # edge_messages ws else edge_messages ws)"
  by (simp_all add: edge_messages_def case_prod_beta)

lemma consume_published:
  assumes "list_all2 (carries job) ps ws" and "delivered ws"
    and "\<And>q p g. fst (tx q p g) = None"
  shows "graph (consumeEdges bad_json tx committer (map Fetched (edge_messages ws)) s) =
      merged tx (graph_edges ps) (graph s) \<and>
    failed (edges (consumeEdges bad_json tx committer (map Fetched (edge_messages ws)) s)) = failed (edges s)"
  using assms(1,2)
proof (induction ps ws arbitrary: s rule: list_all2_induct)
  case (Cons p ps x ws)
  obtain tp msg err where x: "x = (tp, msg, err)" by (cases x)
  show ?case
  proof (cases p)
    case (Pub_Job url)
    with Cons x show ?thesis by simp
  next
    case (Pub_Edge e)
    with Cons.hyps(1) Cons.prems x have v: "tp = Edges" "err = None" "marshal enc_edge e = Some (msg_value msg)"
      by simp_all
    let ?g = "if edge_from e = [] \<or> edge_to e = [] then graph s
        else snd (runWrite tx (buildEdgeQuery (clean_edge e)) (graph s))"
    have "fst (runWrite tx (buildEdgeQuery (clean_edge e)) (graph s)) = None"
      by (simp add: runWrite_def assms(3))
    then have "writeEdge bad_json tx (msg_value msg) (graph s) = (None, ?g)"
      using writeEdge_marshal [OF v(3), of bad_json tx "graph s"] by (auto intro: prod_eqI)
    with Cons v x Pub_Edge show ?thesis
      by (auto simp: commit_message_def Let_def)
  qed
qed simp
text \<open>
  Claim C13. What the worker finds out about a node reaches the graph: when the expansion of a node
  ends without an error and edges are published, a graph writer that reads the edge messages it
  wrote, and whose transactions succeed, has merged exactly the edges of the node's plan that have
  both ends, in the order of the plan, and has counted no failure.
\<close>

theorem expansion_reaches_graph:
  assumes "publishEdgesAndFrontier env c job (Some n) w = (None, w')" and "\<not> isSearchURL (job_url job)"
    and "edgesWriter c" and "\<And>q p g. fst (tx q p g) = None"
  shows "\<exists>ws. writes w' = writes w @ ws \<and>
    graph (consumeEdges bad_json tx committer (map Fetched (edge_messages ws)) s) =
      merged tx (graph_edges (node_plan job n)) (graph s) \<and>
    failed (edges (consumeEdges bad_json tx committer (map Fetched (edge_messages ws)) s)) = failed (edges s)"
proof -
  have "publishEdgesAndFrontier env c job (Some n) =
      (case n of Book b \<Rightarrow> expandBook env c job b | Work nd \<Rightarrow> expandWork env c job nd
       | Author a \<Rightarrow> expandAuthor env c job a)"
    using assms(2) by (simp add: publishEdgesAndFrontier_def)
  with assms(1) node_pub.complete [of env c job n w] obtain ws where ws: "writes w' = writes w @ ws"
    "list_all2 (carries job) (planned c job (node_plan job n)) ws" "delivered ws" by auto
  have "graph_edges (planned c job ps) = graph_edges ps" for ps
    by (induction ps) (auto simp: graph_edges_def assms(3) split: publication.splits)
  with consume_published [OF ws(2,3) assms(4)] ws(1) show ?thesis by auto
qed

definition linked_work :: work_node where
  "linked_work = zero_work\<lparr>work_key := ''/works/OL1W'', work_authors := [''/authors/OL1A'']\<rparr>"

theorem expansion_reaches_graph_witness:
  "\<exists>ws. writes (snd (publishEdgesAndFrontier dead_env default_worker zero_job (Some (Work linked_work)) new_world)) = ws \<and>
    graph (consumeEdges (\<lambda>s. []) (\<lambda>q p g. (None, g @ [q])) (\<lambda>n. None) (map Fetched (edge_messages ws))
      \<lparr>results = \<lparr>received = 0, failed = 0, written = 0\<rparr>, edges = \<lparr>received = 0, failed = 0, written = 0\<rparr>,
       graph = [], commits = []\<rparr>) =
    [''MERGE (from:Work {key: $fromKey}) MERGE (to:Author {key: $toKey}) MERGE (from)-[r:WORK_AUTHOR {session_id: $session_id}]->(to)'']"
proof -
  let ?w = "snd (publishEdgesAndFrontier dead_env default_worker zero_job (Some (Work linked_work)) new_world)"
    and ?s = "\<lparr>results = \<lparr>received = 0, failed = 0, written = 0\<rparr>, edges = \<lparr>received = 0, failed = 0, written = 0\<rparr>,
       graph = [], commits = []\<rparr> :: string list graph_writer"
  obtain t where "marshal_time zero_time = Some t"
    using wf_time_marshals [of zero_time] zero_job_wf by (auto simp: wf_job_def zero_job_def)
  then have "fst (publishEdgesAndFrontier dead_env default_worker zero_job (Some (Work linked_work)) new_world) = None"
    by (simp add: publishEdgesAndFrontier_def isSearchURL_def zero_job_def expandWork_def linked_work_def zero_work_def
        and_then_def publishEdge_def enqueueURLToFronter_def publish_def write_message_def dead_env_def marshal_def
        enc_edge_def enc_job_def next_job_def skip_apply Let_def)
  then have p: "publishEdgesAndFrontier dead_env default_worker zero_job (Some (Work linked_work)) new_world = (None, ?w)"
    by (simp add: prod_eq_iff)
  have u: "\<not> isSearchURL (job_url zero_job)" by (simp add: isSearchURL_def zero_job_def)
  have g: "graph_edges (node_plan zero_job (Work linked_work)) =
      [clean_edge \<lparr>edge_session = [], edge_from = ''/works/OL1W'', edge_to = ''/authors/OL1A'', edge_relation = ''work_author''\<rparr>]"
    by (simp add: linked_work_def zero_work_def edge_of_def zero_job_def)
  have q: "fst (buildEdgeQuery (clean_edge \<lparr>edge_session = [], edge_from = ''/works/OL1W'',
      edge_to = ''/authors/OL1A'', edge_relation = ''work_author''\<rparr>)) =
    ''MERGE (from:Work {key: $fromKey}) MERGE (to:Author {key: $toKey}) MERGE (from)-[r:WORK_AUTHOR {session_id: $session_id}]->(to)''"
    by (simp add: buildEdgeQuery_def clean_edge_def to_valid_utf8_ascii is_ascii_def nodeLabel_def relationType_def)
  from expansion_reaches_graph [OF p u, where tx = "\<lambda>q p g. (None, g @ [q])" and bad_json = "\<lambda>s. []" and committer = "\<lambda>n. None"
      and s = ?s]
  obtain ws where ws: "writes ?w = writes new_world @ ws"
    "graph (consumeEdges (\<lambda>s. []) (\<lambda>q p g. (None, g @ [q])) (\<lambda>n. None) (map Fetched (edge_messages ws)) ?s) =
      merged (\<lambda>q p g. (None, g @ [q])) (graph_edges (node_plan zero_job (Work linked_work))) (graph ?s)"
    by (auto simp del: node_plan.simps)
  have "writes ?w = ws" using ws(1) by (simp add: new_world_def)
  moreover have "merged (\<lambda>q p g. (None, g @ [q])) (graph_edges (node_plan zero_job (Work linked_work))) (graph ?s) =
    [''MERGE (from:Work {key: $fromKey}) MERGE (to:Author {key: $toKey}) MERGE (from)-[r:WORK_AUTHOR {session_id: $session_id}]->(to)'']"
    by (simp only: g merged.simps runWrite_def q snd_conv graph_writer.simps append_Nil)
  ultimately show ?thesis unfolding ws(2) [symmetric] by blast
qed

section \<open>The exchange between frontier and workers\<close>

text \<open>
  The frontier topic as a bag of messages and the dedupe store behind the workers. A step is one
  message fetched and dispatched; when that starts a job, the job runs, and of the frontier
  messages it writes any are appended, also ones whose write reported an error. Workers, stores and
  Open Library answer as they like in each step.
\<close>

definition frontier_messages :: "(topic \<times> kafka_message \<times> go_error option) list \<Rightarrow> kafka_message list" where
  "frontier_messages ws = map (\<lambda>(tp, msg, err). msg) (filter (\<lambda>(tp, msg, err). tp = Frontier) ws)"

inductive crawl_step ::
  "worker \<Rightarrow> 'k setnx_call \<Rightarrow>
   kafka_message multiset \<times> 'k \<Rightarrow> kafka_message multiset \<times> 'k \<Rightarrow> bool"
  for c :: worker and setnx :: "'k setnx_call" where
  step_dropped: "dispatchMessage env c setnx msg (k, w) = (r, k', w') \<Longrightarrow> spawned w' = spawned w \<Longrightarrow>
    crawl_step c setnx (add_mset msg P, k) (P, k')"
| step_crawled: "dispatchMessage env c setnx msg (k, w) = (r, k', w') \<Longrightarrow> spawned w' = spawned w @ [(msg, job)] \<Longrightarrow>
    writes (processJobAsync env' c msg job w1) = writes w1 @ ws \<Longrightarrow> new \<subseteq># mset (frontier_messages ws) \<Longrightarrow>
    crawl_step c setnx (add_mset msg P, k) (P + new, k')"

text \<open>The levels a message may still add to the crawl.\<close>

definition levels_left :: "worker \<Rightarrow> kafka_message \<Rightarrow> nat" where
  "levels_left c msg =
     (case unmarshal (dec_struct job_fields) zero_job (msg_value msg) of
        None \<Rightarrow> 0 | Some job \<Rightarrow> nat (maxDepth c - job_depth job))"

lemma spawned_reads:
  assumes "dispatchMessage env c setnx msg (k, w) = (r, k', w')" and "spawned w' = spawned w @ [(msg, job)]"
  shows "unmarshal (dec_struct job_fields) zero_job (msg_value msg) = Some job"
  using assms by (auto simp: dispatch_defs Let_def split: option.splits sum.splits prod.splits if_splits)

lemma frontier_messages_iff: "m \<in> set (frontier_messages ws) \<longleftrightarrow> (\<exists>err. (Frontier, m, err) \<in> set ws)"
  by (force simp: frontier_messages_def)

lemma job_writes_legit:
  assumes "writes (processJobAsync env c msg job w) = writes w @ ws"
  shows "list_all (legit c job) ws"
proof -
  obtain vs where "writes (process_body env c job w) = writes w @ vs"
    "outcome_shape c job (fst (handleJobWithRetry env c job w)) vs"
    using process_body_writes by blast
  with assms show ?thesis by (auto simp: processJobAsync_def Let_def intro: outcome_legit)
qed

lemma levels_decrease:
  assumes "unmarshal (dec_struct job_fields) zero_job (msg_value msg) = Some job"
    and "writes (processJobAsync env c msg job w) = writes w @ ws" and "m \<in> set (frontier_messages ws)"
    and "0 < maxDepth c" and "in_int64 (maxDepth c)"
  shows "levels_left c m < levels_left c msg"
proof -
  from unmarshal_job_typed [OF assms(1)] have d: "in_int64 (job_depth job)" by (simp add: read_job_def)
  from assms(3) obtain err where err: "(Frontier, m, err) \<in> set ws" by (auto simp: frontier_messages_iff)
  show ?thesis
  proof (cases "unmarshal (dec_struct job_fields) zero_job (msg_value m)")
    case None
    have "list_all (legit c job) ws" using assms(2) by (rule job_writes_legit)
    with err have "jobs_on c job" by (auto simp: list_all_iff)
    with None assms(1,4) show ?thesis by (auto simp: levels_left_def jobs_on_def)
  next
    case (Some job')
    from frontier_message_job [OF assms(2) err Some] have "jobs_on c job" "job_depth job' = succ64 (job_depth job)" .
    with Some assms(1,4,5) d show ?thesis by (auto simp: levels_left_def jobs_on_def succ64_def wrap64_id in_int64_iff)
  qed
qed

lemma crawl_step_decreases:
  assumes "crawl_step c setnx s s'" and "0 < maxDepth c" and "in_int64 (maxDepth c)"
  shows "(fst s', fst s) \<in> mult (measure (levels_left c))"
  using assms(1)
proof (cases rule: crawl_step.cases)
  case (step_dropped env msg k w r k' w' P)
  have "(P + {#}, P + {#msg#}) \<in> mult (measure (levels_left c))"
    by (rule one_step_implies_mult) simp_all
  with step_dropped show ?thesis by simp
next
  case (step_crawled env msg k w r k' w' job env' w1 ws new P)
  note less = levels_decrease [OF spawned_reads [OF step_crawled(3,4)] step_crawled(5) _ assms(2,3)]
  have "(P + new, P + {#msg#}) \<in> mult (measure (levels_left c))"
    using less mset_subset_eqD [OF step_crawled(6)] by (intro one_step_implies_mult) auto
  with step_crawled show ?thesis by simp
qed

lemma dispatch_starts_or_not:
  assumes "dispatchMessage env c setnx msg (k, w) = (r, k', w')"
  shows "spawned w' = spawned w \<or> (\<exists>job. spawned w' = spawned w @ [(msg, job)])"
  using assms by (auto simp: dispatch_defs Let_def split: option.splits sum.splits prod.splits if_splits)

lemma crawl_step_exists:
  assumes "P \<noteq> {#}"
  shows "\<exists>s'. crawl_step c setnx (P, k) s'"
proof -
  from assms obtain msg Q where P: "P = add_mset msg Q" by (metis multiset_cases)
  obtain r k' w' where d: "dispatchMessage dead_env c setnx msg (k, new_world) = (r, k', w')"
    by (metis prod.collapse)
  from dispatch_starts_or_not [OF d] show ?thesis
  proof
    assume "spawned w' = spawned new_world"
    from step_dropped [OF d this] show ?thesis unfolding P by blast
  next
    assume "\<exists>job. spawned w' = spawned new_world @ [(msg, job)]"
    then obtain job where j: "spawned w' = spawned new_world @ [(msg, job)]" by blast
    obtain ws where "writes (processJobAsync dead_env c msg job w') = writes w' @ ws"
      using process_body_writes [of dead_env c job w'] by (auto simp: processJobAsync_def Let_def)
    from step_crawled [OF d j this empty_le] show ?thesis unfolding P by blast
  qed
qed

text \<open>
  Claim C8. Every crawl ends: with a positive \<open>MAX_DEPTH\<close> there is no infinite exchange of messages
  between the frontier topic and the workers, from any messages in the topic, whatever the pages,
  the stores and the brokers answer, and even if dedupe keys are lost. While there is a message left,
  a step is possible; so the exchange goes on until the topic is drained.
\<close>

theorem every_crawl_ends:
  assumes "0 < maxDepth c" and "in_int64 (maxDepth c)"
  shows "\<not> (\<exists>run. \<forall>i. crawl_step c setnx (run i) (run (Suc i))) \<and>
    (fst s \<noteq> {#} \<longrightarrow> (\<exists>s'. crawl_step c setnx s s'))"
proof (intro conjI impI)
  assume "fst s \<noteq> {#}"
  then show "\<exists>s'. crawl_step c setnx s s'" by (metis crawl_step_exists prod.collapse)
next
  show "\<not> (\<exists>run. \<forall>i. crawl_step c setnx (run i) (run (Suc i)))"
  proof
  assume "\<exists>run. \<forall>i. crawl_step c setnx (run i) (run (Suc i))"
  then obtain run where "\<forall>i. crawl_step c setnx (run i) (run (Suc i))" by blast
  with crawl_step_decreases [OF _ assms]
  have "\<forall>i. (fst (run (Suc i)), fst (run i)) \<in> mult (measure (levels_left c))" by blast
  then have "\<exists>f. \<forall>i. (f (Suc i), f i) \<in> mult (measure (levels_left c))"
    by (intro exI [of _ "\<lambda>i. fst (run i)"])
  moreover have "wf (mult (measure (levels_left c)))" by (intro wf_mult) simp
  ultimately show False by (simp add: wf_iff_no_infinite_down_chain)
  qed
qed

theorem every_crawl_ends_witness:
  "\<not> (\<exists>run. \<forall>i. crawl_step default_worker (redis_setnx (\<lambda>n. None)) (run i) (run (Suc i))) \<and>
    (\<exists>s'. crawl_step default_worker (redis_setnx (\<lambda>n. None)) ({#job_message zero_job#}, new_redis) s')"
  using every_crawl_ends [of default_worker "redis_setnx (\<lambda>n. None)" "({#job_message zero_job#}, new_redis)"]
  by (simp add: in_int64_iff)

end
