(* ===== verification/Worker_System.thy ===== *)
theory Worker_System
  imports Worker_Shutdown Commit_Coordinator "HOL-Library.Sublist"
begin

text \<open>
  A worker process with its commit coordinator inside: the goroutines of \<open>Worker_Shutdown\<close> and the
  coordinator of \<open>Commit_Coordinator\<close>, which now is a goroutine of its own. It receives one message,
  then calls \<open>CommitMessages\<close> once per step until the drain ends, and only then is back at its
  \<open>select\<close>; all other goroutines move in between. The system refines both models, so what is proved
  of either holds for every schedule of the whole.
\<close>

section \<open>State and steps\<close>

text \<open>Where the coordinator's goroutine is.\<close>

datatype coord_pc = Selecting | Draining int | Flushing "int list" | Finished

record system =
  proc :: process
  coord :: coordinator
  coord_at :: coord_pc

definition boot :: system where
  "boot = \<lparr>proc = fresh, coord = newCommitCoordinator, coord_at = Selecting\<rparr>"

text \<open>
  \<open>others_move\<close>: any goroutine but the coordinator; \<open>main\<close> returns only after \<open>coordWg.Done\<close>. The
  two moves of a process in which its coordinator takes part happen at the \<open>select\<close>.
\<close>

inductive system_step ::
  "nat \<Rightarrow> nat \<Rightarrow> (nat \<Rightarrow> bool) \<Rightarrow> (coordinator \<Rightarrow> int list) \<Rightarrow> system \<Rightarrow> system \<Rightarrow> bool"
  for n cap :: nat and ok :: "nat \<Rightarrow> bool" and order :: "coordinator \<Rightarrow> int list" where
  others_move: "step n cap (proc s) p \<Longrightarrow> taken p = taken (proc s) \<Longrightarrow> listening p = listening (proc s) \<Longrightarrow>
    (main_at p = Exited \<longrightarrow> coord_at s = Finished) \<Longrightarrow> system_step n cap ok order s (s\<lparr>proc := p\<rparr>)"
| receive_message: "coord_at s = Selecting \<Longrightarrow> step n cap (proc s) p \<Longrightarrow> taken p = taken (proc s) @ [m] \<Longrightarrow>
    system_step n cap ok order s
      (s\<lparr>proc := p, coord := enqueue m (coord s), coord_at := Draining (msg_partition m)\<rparr>)"
| drain_more: "live (proc s) \<Longrightarrow> coord_at s = Draining q \<Longrightarrow> commitNext ok q (coord s) = (True, c) \<Longrightarrow>
    system_step n cap ok order s (s\<lparr>coord := c\<rparr>)"
| drain_done: "live (proc s) \<Longrightarrow> coord_at s = Draining q \<Longrightarrow> commitNext ok q (coord s) = (False, c) \<Longrightarrow>
    system_step n cap ok order s (s\<lparr>coord := c, coord_at := Selecting\<rparr>)"
| leave_select: "coord_at s = Selecting \<Longrightarrow> step n cap (proc s) p \<Longrightarrow> listening (proc s) \<Longrightarrow> \<not> listening p \<Longrightarrow>
    system_step n cap ok order s (s\<lparr>proc := p, coord_at := Flushing (order (coord s))\<rparr>)"
| flush_more: "live (proc s) \<Longrightarrow> coord_at s = Flushing (q # qs) \<Longrightarrow> commitNext ok q (coord s) = (True, c) \<Longrightarrow>
    system_step n cap ok order s (s\<lparr>coord := c\<rparr>)"
| flush_next: "live (proc s) \<Longrightarrow> coord_at s = Flushing (q # qs) \<Longrightarrow> commitNext ok q (coord s) = (False, c) \<Longrightarrow>
    system_step n cap ok order s (s\<lparr>coord := c, coord_at := Flushing qs\<rparr>)"
| flush_done: "live (proc s) \<Longrightarrow> coord_at s = Flushing [] \<Longrightarrow>
    system_step n cap ok order s (s\<lparr>coord_at := Finished\<rparr>)"

inductive system_reachable ::
  "nat \<Rightarrow> nat \<Rightarrow> (nat \<Rightarrow> bool) \<Rightarrow> (coordinator \<Rightarrow> int list) \<Rightarrow> system \<Rightarrow> bool"
  for n cap :: nat and ok :: "nat \<Rightarrow> bool" and order :: "coordinator \<Rightarrow> int list" where
  system_boot: "system_reachable n cap ok order boot"
| system_moves: "system_reachable n cap ok order s \<Longrightarrow> system_step n cap ok order s t \<Longrightarrow>
    system_reachable n cap ok order t"

inductive_cases system_stepE: "system_step n cap ok order s t"

section \<open>Refinement of both models\<close>

text \<open>The coordinator once it has finished what it is at, and what it has been told.\<close>

definition settled :: "(nat \<Rightarrow> bool) \<Rightarrow> system \<Rightarrow> coordinator" where
  "settled ok s = (case coord_at s of Selecting \<Rightarrow> coord s | Draining q \<Rightarrow> drain ok q (coord s)
     | Flushing qs \<Rightarrow> flush ok qs (coord s) | Finished \<Rightarrow> coord s)"

definition told :: "process \<Rightarrow> coord_event list" where
  "told p = map Receive (taken p) @ (if listening p then [] else [Cancelled])"

definition refines :: "nat \<Rightarrow> nat \<Rightarrow> (nat \<Rightarrow> bool) \<Rightarrow> (coordinator \<Rightarrow> int list) \<Rightarrow> system \<Rightarrow> bool" where
  "refines n cap ok order s \<longleftrightarrow> reachable n cap (proc s) \<and>
     (listening (proc s) \<longleftrightarrow> coord_at s = Selecting \<or> (\<exists>q. coord_at s = Draining q)) \<and>
     settled ok s = run_coordinator ok order (told (proc s)) newCommitCoordinator"

lemma run_coordinator_append:
  "run_coordinator ok order (map Receive ms @ es) c =
     run_coordinator ok order es (run_coordinator ok order (map Receive ms) c)"
  by (induction ms arbitrary: c) simp_all

lemma received_told [simp]: "Commit_Coordinator.received (told p) = taken p"
proof -
  have "Commit_Coordinator.received (map Receive ms @ es) = ms @ Commit_Coordinator.received es" for ms es
    by (induction ms) simp_all
  then show ?thesis by (simp add: told_def)
qed

text \<open>How a step of the process changes what the coordinator sees.\<close>

lemma step_taken:
  assumes "step n cap p p'"
  shows "(taken p' = taken p \<and> (listening p \<or> \<not> listening p')) \<or>
    (\<exists>m. taken p' = taken p @ [m] \<and> listening p \<and> listening p')"
  using assms unfolding step_def by (elim conjE disjE step_cases) auto

lemma drain_unfold:
  "commitNext ok q c = (True, c') \<Longrightarrow> drain ok q c = drain ok q c'"
  "commitNext ok q c = (False, c') \<Longrightarrow> drain ok q c = c'"
  by (subst drain.simps, simp)+

lemma refines_boot: "refines n cap ok order boot"
  using reachable.start by (simp add: refines_def boot_def settled_def told_def fresh_def)

lemma refines_step:
  assumes "system_step n cap ok order s t" and "refines n cap ok order s"
  shows "refines n cap ok order t"
  using assms
proof (cases rule: system_step.cases)
  case (others_move p)
  with assms(2) show ?thesis
    by (auto simp: refines_def settled_def told_def intro: reachable.step split: coord_pc.splits)
next
  case (receive_message p m)
  with step_taken [OF receive_message(3)] assms(2) show ?thesis
    by (auto simp: refines_def settled_def told_def run_coordinator_append intro: reachable.step)
next
  case (leave_select p)
  with step_taken [OF leave_select(3)] assms(2) show ?thesis
    by (auto simp: refines_def settled_def told_def run_coordinator_append intro: reachable.step)
qed (use assms(2) in \<open>auto simp: refines_def settled_def drain_unfold\<close>)

lemma system_refines: "system_reachable n cap ok order s \<Longrightarrow> refines n cap ok order s"
  by (induction rule: system_reachable.induct) (auto intro: refines_boot refines_step)

section \<open>What is committed\<close>

lemma committed_failed:
  "committed (c\<lparr>commits := commits c @ [(m, False)], commitErrors := e\<rparr>) = committed c"
  by (simp add: committed_def)

lemma prefix_drain: "prefix xs (committed c) \<Longrightarrow> prefix xs (committed (drain ok q c))"
  by (rule drain_invariant) (auto simp: committed_advanced committed_failed)

lemma prefix_flush: "prefix xs (committed c) \<Longrightarrow> prefix xs (committed (flush ok qs c))"
  by (induction qs arbitrary: c) (auto intro: prefix_drain)

lemma prefix_settled: "prefix (committed (coord s)) (committed (settled ok s))"
  by (auto simp: settled_def intro: prefix_drain prefix_flush split: coord_pc.splits)

abbreviation place :: "kafka_message \<Rightarrow> int \<times> int" where
  "place m \<equiv> (msg_partition m, msg_offset m)"

lemma committed_taken:
  assumes "system_reachable n cap ok order s" and "m \<in> set (committed (coord s))"
  shows "m \<in> set (taken (proc s))"
proof -
  have eq: "settled ok s = run_coordinator ok order (told (proc s)) newCommitCoordinator"
    using system_refines [OF assms(1)] by (simp add: refines_def)
  from assms(2) prefix_settled [of s ok] have "m \<in> set (part_msgs (msg_partition m) (committed (settled ok s)))"
    by (auto simp: part_msgs_def dest: set_mono_prefix)
  with run_committed_received [of "msg_partition m" ok order "told (proc s)"] show ?thesis
    unfolding eq received_told by (auto simp: part_msgs_def)
qed

lemma taken_handed:
  assumes "reachable n cap p"
  shows "set (taken p) \<subseteq> set (handed p)"
  using reachable_invariants(3) [OF assms] by (metis conserved_def mset_subset_eq_add_right set_mset_mono set_mset_mset)

text \<open>What the coordinator has committed of a partition are consecutive offsets, from the first
  message it received of it on, in the middle of a drain or flush too.\<close>

lemma committed_consecutive:
  assumes r: "system_reachable n cap ok order s"
    and pl: "\<forall>m \<in> set (handed (proc s)). plain_offset (msg_offset m)"
  shows "map msg_offset (part_msgs p (committed (coord s))) =
    map (\<lambda>i. msg_offset (hd (part_msgs p (taken (proc s)))) + int i) [0..<length (part_msgs p (committed (coord s)))]"
proof -
  from system_refines [OF r] have pr: "reachable n cap (proc s)"
    and eq: "settled ok s = run_coordinator ok order (told (proc s)) newCommitCoordinator"
    by (simp_all add: refines_def)
  have plain: "\<forall>m \<in> set (Commit_Coordinator.received (told (proc s))). plain_offset (msg_offset m)"
    using pl taken_handed [OF pr] by auto
  note offs = run_offsets_plain(1) [OF plain, of p ok order, folded eq, simplified]
  obtain rest where rest: "committed (settled ok s) = committed (coord s) @ rest"
    using prefix_settled [of s ok] by (auto simp: prefix_def)
  show ?thesis
    using arg_cong [OF offs, of "take (length (part_msgs p (committed (coord s))))"]
    by (simp add: rest take_map take_upt)
qed

lemma uncommitted_not_passed:
  assumes r: "system_reachable n cap ok order s" and d: "distinct (map place (handed (proc s)))"
    and pl: "\<forall>m \<in> set (handed (proc s)). plain_offset (msg_offset m)"
    and m: "m \<in> set (handed (proc s))" "m \<notin> set (committed (coord s))"
    and first: "case part_msgs (msg_partition m) (taken (proc s)) of [] \<Rightarrow> True | f # fs \<Rightarrow> msg_offset f \<le> msg_offset m"
    and c: "c \<in> set (committed (coord s))" "msg_partition c = msg_partition m"
  shows "msg_offset c < msg_offset m"
proof (rule ccontr)
  assume not: "\<not> msg_offset c < msg_offset m"
  let ?cs = "part_msgs (msg_partition m) (committed (coord s))"
  let ?f = "msg_offset (hd (part_msgs (msg_partition m) (taken (proc s))))"
  note offs = committed_consecutive [OF r pl, of "msg_partition m"]
  from c committed_taken [OF r c(1)] first have f: "?f \<le> msg_offset m"
    by (cases "part_msgs (msg_partition m) (taken (proc s))") (auto simp: part_msgs_def filter_empty_conv)
  from c have "msg_offset c \<in> set (map msg_offset ?cs)" by simp
  then have "msg_offset m \<in> set (map (\<lambda>i. ?f + int i) [0..<length ?cs])"
    unfolding offs using f not by (auto simp: image_iff intro!: bexI [of _ "nat (msg_offset m - ?f)"])
  then obtain m' where m': "m' \<in> set ?cs" "msg_offset m' = msg_offset m" unfolding offs [symmetric] by auto
  have "reachable n cap (proc s)" using system_refines [OF r] by (simp add: refines_def)
  with taken_handed committed_taken [OF r, of m'] m'(1) have "m' \<in> set (handed (proc s))" by auto
  with d m(1) m' have "m' = m" by (auto simp: distinct_map dest: inj_onD)
  with m(2) m'(1) show False by simp
qed

section \<open>The system comes to an end\<close>

text \<open>The steps that are left: those of the process, then those of the coordinator at its work.\<close>

definition coord_work :: "system \<Rightarrow> nat" where
  "coord_work s = (case coord_at s of Selecting \<Rightarrow> 0 | Draining q \<Rightarrow> 1 | Flushing qs \<Rightarrow> Suc (length qs) | Finished \<Rightarrow> 0)"

definition buffered :: "system \<Rightarrow> nat" where
  "buffered s = (case coord_at s of Draining q \<Rightarrow> fcard (fmdom (pendingOf (coord s) q))
     | Flushing (q # qs) \<Rightarrow> fcard (fmdom (pendingOf (coord s) q)) | _ \<Rightarrow> 0)"

lemma system_step_decreases:
  assumes "system_step n cap ok order s t" and "leaving (proc s)"
  shows "leaving (proc t) \<and>
    (t, s) \<in> measures [\<lambda>s. remaining (proc s), coord_work, buffered]"
  using assms
proof (cases rule: system_step.cases)
  case (others_move p)
  from leaving_step [OF others_move(2) assms(2)] show ?thesis by (simp add: others_move(1))
next
  case (receive_message p m)
  from leaving_step [OF receive_message(3) assms(2)] show ?thesis by (simp add: receive_message(1))
next
  case (leave_select p)
  from leaving_step [OF leave_select(3) assms(2)] show ?thesis by (simp add: leave_select(1))
qed (use assms(2) in \<open>auto simp: coord_work_def buffered_def dest: commitNext_shrinks split: list.splits\<close>)

lemma commitNext_result:
  obtains (again) c' where "commitNext ok q c = (True, c')" | (stop) c' where "commitNext ok q c = (False, c')"
  by (metis (full_types) surj_pair)

lemma coordinator_moves:
  assumes "live (proc s)" and "coord_at s \<noteq> Selecting" and "coord_at s \<noteq> Finished"
  shows "\<exists>t. system_step n cap ok order s t"
proof -
  from assms(2,3) consider (drain) q where "coord_at s = Draining q" | (flushed) "coord_at s = Flushing []"
    | (flush) q qs where "coord_at s = Flushing (q # qs)"
    by (metis coord_pc.exhaust neq_Nil_conv)
  then show ?thesis
  proof cases
    case drain
    show ?thesis
    proof (cases rule: commitNext_result [of ok q "coord s"])
      case again
      from drain_more [OF assms(1) drain again] show ?thesis by (rule exI)
    next
      case stop
      from drain_done [OF assms(1) drain stop] show ?thesis by (rule exI)
    qed
  next
    case flushed
    from flush_done [OF assms(1) flushed] show ?thesis by (rule exI)
  next
    case flush
    show ?thesis
    proof (cases rule: commitNext_result [of ok q "coord s"])
      case again
      from flush_more [OF assms(1) flush again] show ?thesis by (rule exI)
    next
      case stop
      from flush_next [OF assms(1) flush stop] show ?thesis by (rule exI)
    qed
  qed
qed

lemma process_moves:
  assumes "refines n cap ok order s" and "step n cap (proc s) p" and "coord_at s = Selecting \<or> coord_at s = Finished"
  shows "\<exists>t. system_step n cap ok order s t"
proof -
  from step_taken [OF assms(2)] consider (take) m where "taken p = taken (proc s) @ [m]" "listening (proc s)"
    | (stop) "taken p = taken (proc s)" "listening (proc s)" "\<not> listening p"
    | (other) "taken p = taken (proc s)" "listening p = listening (proc s)" by blast
  then show ?thesis
  proof cases
    case take
    with assms(1,3) have "coord_at s = Selecting" by (auto simp: refines_def)
    from receive_message [OF this assms(2) take(1)] show ?thesis by blast
  next
    case stop
    with assms(1,3) have "coord_at s = Selecting" by (auto simp: refines_def)
    from leave_select [OF this assms(2) stop(2,3)] show ?thesis by blast
  next
    case other
    have "main_at p = Exited \<longrightarrow> coord_at s = Finished"
    proof
      assume "main_at p = Exited"
      with assms(2) have "\<not> listening (proc s)"
        unfolding step_def by (elim conjE disjE step_cases) (auto simp: live_def)
      with assms(1,3) show "coord_at s = Finished" by (auto simp: refines_def)
    qed
    from others_move [OF assms(2) other this] show ?thesis by blast
  qed
qed

lemma system_progress:
  assumes "system_reachable n cap ok order s" and "leaving (proc s)" and "\<not> (\<exists>t. system_step n cap ok order s t)"
  shows "main_at (proc s) = Exited \<or> panicked (proc s)"
proof (rule ccontr)
  assume not: "\<not> (main_at (proc s) = Exited \<or> panicked (proc s))"
  note r = system_refines [OF assms(1)]
  from not have "live (proc s)" by (simp add: live_def)
  with coordinator_moves assms(3) have at: "coord_at s = Selecting \<or> coord_at s = Finished" by blast
  from r have "reachable n cap (proc s)" by (simp add: refines_def)
  from leaving_progress [OF this assms(2)] not obtain p where "step n cap (proc s) p" by blast
  from process_moves [OF r this at] assms(3) show False by blast
qed

section \<open>A run in which a later job is faster\<close>

definition racing :: "kafka_message \<Rightarrow> kafka_message \<Rightarrow> phase \<Rightarrow> nat \<Rightarrow> nat \<Rightarrow> process" where
  "racing m m' ph k w = fresh\<lparr>jobs := [(m, Running), (m', ph)], slots := k, wg := w, handed := [m, m']\<rparr>"

text \<open>The offset a group member reads next of a partition, by Kafka's rule: one past the last commit.\<close>

definition resume_at :: "int \<Rightarrow> kafka_message list \<Rightarrow> int option" where
  "resume_at p ms =
     (if part_msgs p ms = [] then None else Some (succ64 (msg_offset (last (part_msgs p ms)))))"

lemma racing_reachable:
  assumes "2 \<le> n"
  shows "system_reachable n cap ok order (boot\<lparr>proc := racing m m' Wg_Done 1 1\<rparr>)"
proof -
  let ?p = "fresh\<lparr>jobs := [(m, Running)], slots := 1, wg := 1, handed := [m]\<rparr>"
  have move: "system_reachable n cap ok order (boot\<lparr>proc := p'\<rparr>)"
    if "system_reachable n cap ok order (boot\<lparr>proc := p\<rparr>)" "step n cap p p'"
      "taken p' = taken p" "listening p' = listening p" "main_at p' = Fetching" for p p'
    using that system_moves [OF that(1) others_move [where p = p']] by simp
  have "step n cap fresh ?p"
    using start_job [of fresh n cap m] assms by (simp add: step_def live_def fresh_def)
  from move [OF _ this] have 1: "system_reachable n cap ok order (boot\<lparr>proc := ?p\<rparr>)"
    using system_boot [of n cap ok order] by (simp add: boot_def fresh_def)
  have "step n cap ?p (racing m m' Running 2 2)"
    using start_job [of ?p n cap m'] assms by (simp add: step_def live_def fresh_def racing_def numeral_2_eq_2)
  from move [OF 1 this] have 2: "system_reachable n cap ok order (boot\<lparr>proc := racing m m' Running 2 2\<rparr>)"
    by (simp add: racing_def fresh_def)
  have "step n cap (racing m m' Running 2 2) (racing m m' Slot_Freed 1 2)"
    using free_slot [of "racing m m' Running 2 2" "[(m, Running)]" m' "[]" cap]
    by (simp add: step_def live_def fresh_def racing_def)
  from move [OF 2 this] have 3: "system_reachable n cap ok order (boot\<lparr>proc := racing m m' Slot_Freed 1 2\<rparr>)"
    by (simp add: racing_def fresh_def)
  have "step n cap (racing m m' Slot_Freed 1 2) (racing m m' Wg_Done 1 1)"
    using wg_done [of "racing m m' Slot_Freed 1 2" "[(m, Running)]" m' "[]" cap]
    by (simp add: step_def live_def fresh_def racing_def)
  from move [OF 3 this] show ?thesis by (simp add: racing_def fresh_def)
qed

lemma first_commit:
  assumes "ok 0"
  shows "\<exists>c. commitNext ok (msg_partition m) (enqueue m newCommitCoordinator) = (True, c) \<and> committed c = [m]"
  using assms by (simp add: commitNext_def Let_def enqueue_simps nextOf_def committed_def)

definition raced :: "kafka_message \<Rightarrow> kafka_message \<Rightarrow> coordinator \<Rightarrow> system" where
  "raced m m' c = \<lparr>proc = (racing m m' Sent 1 1)\<lparr>taken := [m']\<rparr>, coord = c, coord_at = Draining (msg_partition m')\<rparr>"

lemma racing_commits:
  assumes "2 \<le> n" and "ok 0"
  shows "\<exists>c. system_reachable n cap ok order (raced m m' c) \<and> committed c = [m']"
proof -
  let ?p = "racing m m' Wg_Done 1 1" and ?q = "(racing m m' Sent 1 1)\<lparr>taken := [m']\<rparr>"
  let ?s = "raced m m' (enqueue m' newCommitCoordinator)"
  have "step n cap ?p ?q"
    using give_job [of ?p "[(m, Running)]" m' "[]" cap] by (simp add: step_def live_def fresh_def racing_def)
  then have "system_step n cap ok order (boot\<lparr>proc := ?p\<rparr>) ?s"
    using receive_message [of "boot\<lparr>proc := ?p\<rparr>" n cap ?q m' ok order]
    by (simp add: boot_def racing_def fresh_def raced_def)
  with racing_reachable [OF assms(1)] have r: "system_reachable n cap ok order ?s" by (rule system_moves)
  from first_commit [where ok = ok, OF assms(2)] obtain c where c:
    "commitNext ok (msg_partition m') (enqueue m' newCommitCoordinator) = (True, c)" "committed c = [m']" by blast
  have "system_step n cap ok order ?s (?s\<lparr>coord := c\<rparr>)"
    by (rule drain_more [where q = "msg_partition m'"]) (simp_all add: c(1) raced_def live_def racing_def fresh_def)
  with r have "system_reachable n cap ok order (?s\<lparr>coord := c\<rparr>)" by (rule system_moves)
  with c(2) show ?thesis by (auto simp: raced_def)
qed

section \<open>Properties\<close>

text \<open>
  Claim C3. The system refines its two parts, for every schedule of its goroutines: the process
  stays within the steps of its shutdown model, and the coordinator, once it has finished the
  message or flush it is at, is in the state its sequential loop reaches on the messages it
  received; what it has committed so far is a prefix of what that loop commits.
\<close>

theorem system_refines_parts:
  assumes "system_reachable n cap ok order s"
  shows "reachable n cap (proc s) \<and>
    settled ok s = run_coordinator ok order (told (proc s)) newCommitCoordinator \<and>
    prefix (committed (coord s)) (committed (run_coordinator ok order (told (proc s)) newCommitCoordinator))"
  using system_refines [OF assms] prefix_settled [of s ok] by (simp add: refines_def)

text \<open>
  Claim C5. No message is passed over: as long as a message handed to the worker is not committed,
  whether its job runs, waits to send it, or it lies in the channel or in the coordinator's buffer,
  no offset at or beyond its own is committed for its partition, in any schedule and with any
  failing commits. This needs that no message is handed over twice (each partition and offset
  once, so no redelivery), that offsets stay below the largest \<open>int64\<close>, and that the first message
  the coordinator received of the partition, if any, is not a later one.
\<close>

theorem running_job_not_passed:
  assumes "system_reachable n cap ok order s" and "distinct (map place (handed (proc s)))"
    and "\<forall>m \<in> set (handed (proc s)). plain_offset (msg_offset m)"
    and "m \<in> set (handed (proc s))" and "m \<notin> set (committed (coord s))"
    and "case part_msgs (msg_partition m) (taken (proc s)) of [] \<Rightarrow> True | f # fs \<Rightarrow> msg_offset f \<le> msg_offset m"
  shows "\<forall>c \<in> set (committed (coord s)). msg_partition c = msg_partition m \<longrightarrow> msg_offset c < msg_offset m"
  using uncommitted_not_passed [OF assms] by blast

theorem running_job_not_passed_witness:
  "\<exists>s :: system. (msg_at 0 8, Running) \<in> set (jobs (proc s)) \<and> committed (coord s) = [msg_at 0 7] \<and>
     (\<forall>c \<in> set (committed (coord s)). msg_partition c = 0 \<longrightarrow> msg_offset c < 8)"
proof -
  from racing_commits [of 2 "\<lambda>k. True" 4 "\<lambda>c. []" "msg_at 0 8" "msg_at 0 7"] obtain c where
    r: "system_reachable 2 4 (\<lambda>k. True) (\<lambda>c. []) (raced (msg_at 0 8) (msg_at 0 7) c)" and c: "committed c = [msg_at 0 7]"
    by auto
  have "msg_at 0 8 \<noteq> msg_at 0 7" by (simp add: msg_at_def)
  with running_job_not_passed [OF r, of "msg_at 0 8"] c
  have "\<forall>c \<in> set (committed (coord (raced (msg_at 0 8) (msg_at 0 7) c))). msg_partition c = 0 \<longrightarrow> msg_offset c < 8"
    by (simp add: raced_def racing_def fresh_def plain_offset_def max_int64_def part_msgs_def)
  with c show ?thesis
    by (intro exI [of _ "raced (msg_at 0 8) (msg_at 0 7) c"]) (simp add: raced_def racing_def fresh_def)
qed

text \<open>
  Claim C4. A committed message is done, without any proviso: a message handed to the worker once is
  committed only after its goroutine has left its body and sent it, so a crash before that point
  leaves the message to be fetched again.
\<close>

theorem committed_job_is_done:
  assumes "system_reachable n cap ok order s" and "m \<in> set (committed (coord s))"
    and "count (mset (handed (proc s))) m = 1" and "(m, ph) \<in> set (jobs (proc s))"
  shows "ph = Sent"
proof (rule ccontr)
  assume "ph \<noteq> Sent"
  with assms(4) have "m \<in> set (unsent (proc s))" by (cases ph) (force simp: unsent_def)+
  moreover have "m \<in> set (taken (proc s))" by (rule committed_taken [OF assms(1,2)])
  ultimately have "1 \<le> count (mset (unsent (proc s))) m" "1 \<le> count (mset (taken (proc s))) m"
    by (simp_all add: Suc_le_eq)
  moreover have "conserved (proc s)"
    using system_refines [OF assms(1)] by (auto simp: refines_def intro: reachable_invariants(3))
  ultimately show False
    using assms(3) unfolding conserved_def by (simp only: count_union)
qed

text \<open>
  Claim C36. Without that last proviso messages are passed over. With two slots, and whatever two
  messages of one partition are fetched first, in the order of their offsets, the job of the later
  one may finish first: its offset is committed while the earlier job still runs. When the
  process crashes in this state, the group resumes behind both, and the earlier job is lost.
\<close>

theorem running_job_can_be_passed:
  assumes "2 \<le> n" and "ok 0" and "msg_partition m' = msg_partition m" and "msg_offset m < msg_offset m'"
    and "plain_offset (msg_offset m')"
  shows "\<exists>s. system_reachable n cap ok order s \<and> live (proc s) \<and> handed (proc s) = [m, m'] \<and>
    (m, Running) \<in> set (jobs (proc s)) \<and> committed (coord s) = [m'] \<and>
    (\<exists>off. resume_at (msg_partition m) (committed (coord s)) = Some off \<and> msg_offset m < off)"
proof -
  from racing_commits [where ok = ok, OF assms(1,2)] obtain c where
    "system_reachable n cap ok order (raced m m' c)" "committed c = [m']" by blast
  moreover have "resume_at (msg_partition m) [m'] = Some (msg_offset m' + 1)"
    using assms(3,5) by (simp add: resume_at_def plain_offset_def succ64_def max_int64_def)
  ultimately show ?thesis
    using assms(4) by (intro exI [of _ "raced m m' c"]) (simp add: raced_def racing_def live_def fresh_def)
qed

text \<open>
  Claim C23. The whole worker comes to an end: once \<open>run\<close> has returned there is no infinite schedule,
  the commits of the final flush included, and where no step is left the process has returned
  from \<open>main\<close> or panicked.
\<close>

theorem system_shutdown_ends:
  assumes "system_reachable n cap ok order s" and "main_at (proc s) = Waiting"
  shows "\<not> (\<exists>f. f 0 = s \<and> (\<forall>i. system_step n cap ok order (f i) (f (Suc i)))) \<and>
    (\<forall>t. (system_step n cap ok order)\<^sup>*\<^sup>* s t \<and> \<not> (\<exists>u. system_step n cap ok order t u) \<longrightarrow>
      main_at (proc t) = Exited \<or> panicked (proc t))"
proof (intro conjI notI allI impI)
  have l: "leaving (proc s)"
    using system_refines [OF assms(1)] reachable_invariants(2) assms(2) by (auto simp: refines_def leaving_def ordered_def)
  show False if "\<exists>f. f 0 = s \<and> (\<forall>i. system_step n cap ok order (f i) (f (Suc i)))"
  proof -
    from that obtain f where f: "f 0 = s" "\<And>i. system_step n cap ok order (f i) (f (Suc i))" by blast
    have lf: "leaving (proc (f i))" for i
    proof (induction i)
      case (Suc i)
      with system_step_decreases [OF f(2)] show ?case by blast
    qed (simp add: f(1) l)
    from system_step_decreases [OF f(2) lf]
    have "\<exists>f. \<forall>i. (f (Suc i), f i) \<in> measures [\<lambda>s. remaining (proc s), coord_work, buffered]" by blast
    with wf_measures [unfolded wf_iff_no_infinite_down_chain] show False by blast
  qed
  fix t
  assume t: "(system_step n cap ok order)\<^sup>*\<^sup>* s t \<and> \<not> (\<exists>u. system_step n cap ok order t u)"
  then have "(system_step n cap ok order)\<^sup>*\<^sup>* s t" by simp
  then have "system_reachable n cap ok order t \<and> leaving (proc t)"
  proof (induction rule: rtranclp_induct)
    case (step u v)
    with system_step_decreases [OF step(2)] show ?case by (blast intro: system_moves)
  qed (simp add: assms(1) l)
  with t system_progress [of n cap ok order t] show "main_at (proc t) = Exited \<or> panicked (proc t)" by blast
qed

theorem system_refines_parts_witness:
  "\<exists>s :: system. committed (coord s) = [msg_at 0 7] \<and> reachable 2 4 (proc s) \<and> prefix (committed (coord s))
    (committed (run_coordinator (\<lambda>k. True) (\<lambda>c. []) (told (proc s)) newCommitCoordinator))"
proof -
  from racing_commits [of 2 "\<lambda>k. True" 4 "\<lambda>c. []" "msg_at 0 8" "msg_at 0 7"] obtain c where
    r: "system_reachable 2 4 (\<lambda>k. True) (\<lambda>c. []) (raced (msg_at 0 8) (msg_at 0 7) c)" and c: "committed c = [msg_at 0 7]"
    by auto
  have "committed (coord (raced (msg_at 0 8) (msg_at 0 7) c)) = [msg_at 0 7]" by (simp add: raced_def c)
  with system_refines_parts [OF r] show ?thesis by blast
qed

theorem committed_job_is_done_witness:
  "\<exists>s :: system. committed (coord s) = [msg_at 0 7] \<and> (\<forall>ph. (msg_at 0 7, ph) \<in> set (jobs (proc s)) \<longrightarrow> ph = Sent) \<and>
     (msg_at 0 8, Running) \<in> set (jobs (proc s))"
proof -
  from racing_commits [of 2 "\<lambda>k. True" 4 "\<lambda>c. []" "msg_at 0 8" "msg_at 0 7"] obtain c where
    r: "system_reachable 2 4 (\<lambda>k. True) (\<lambda>c. []) (raced (msg_at 0 8) (msg_at 0 7) c)" and c: "committed c = [msg_at 0 7]"
    by auto
  have "msg_at 0 8 \<noteq> msg_at 0 7" by (simp add: msg_at_def)
  with committed_job_is_done [OF r, of "msg_at 0 7"] c
  have "ph = Sent" if "(msg_at 0 7, ph) \<in> set (jobs (proc (raced (msg_at 0 8) (msg_at 0 7) c)))" for ph
    using that by (simp add: raced_def racing_def fresh_def)
  with c show ?thesis
    by (intro exI [of _ "raced (msg_at 0 8) (msg_at 0 7) c"]) (auto simp: raced_def racing_def fresh_def)
qed

theorem running_job_can_be_passed_witness:
  "\<exists>s. system_reachable 5 10 (\<lambda>k. k < 3) (\<lambda>c. []) s \<and> (msg_at 0 7, Running) \<in> set (jobs (proc s)) \<and>
    committed (coord s) = [msg_at 0 8] \<and> (\<exists>off. resume_at 0 (committed (coord s)) = Some off \<and> 7 < off)"
  using running_job_can_be_passed [of 5 "\<lambda>k. k < 3" "msg_at 0 8" "msg_at 0 7" 10 "\<lambda>c. []"]
  by (auto simp: plain_offset_def max_int64_def)

theorem system_shutdown_ends_witness:
  "\<not> (\<exists>f. f 0 = boot\<lparr>proc := fresh\<lparr>cancelled := True, main_at := Waiting\<rparr>\<rparr> \<and>
    (\<forall>i. system_step 5 10 (\<lambda>k. True) (\<lambda>c. []) (f i) (f (Suc i))))"
proof -
  let ?p = "fresh\<lparr>cancelled := True\<rparr>" and ?q = "fresh\<lparr>cancelled := True, main_at := Waiting\<rparr>"
  have "step 5 10 fresh ?p" "step 5 10 ?p ?q"
    using cancel [of fresh] leave_run [of ?p] by (simp_all add: step_def live_def fresh_def)
  then have s: "system_step 5 10 (\<lambda>k. True) (\<lambda>c. []) boot (boot\<lparr>proc := ?p\<rparr>)"
    "system_step 5 10 (\<lambda>k. True) (\<lambda>c. []) (boot\<lparr>proc := ?p\<rparr>) (boot\<lparr>proc := ?q\<rparr>)"
    using others_move [of 5 10 boot ?p] others_move [of 5 10 "boot\<lparr>proc := ?p\<rparr>" ?q]
    by (simp_all add: boot_def fresh_def)
  have "system_reachable 5 10 (\<lambda>k. True) (\<lambda>c. []) (boot\<lparr>proc := ?q\<rparr>)"
    by (rule system_moves [OF system_moves [OF system_boot s(1)] s(2)])
  from system_shutdown_ends [OF this] show ?thesis by (simp add: fresh_def boot_def)
qed

end
