(* ===== verification/Worker_Cluster.thy ===== *)
theory Worker_Cluster
  imports Worker_Dispatch Config
begin

text \<open>
  Several workers, replicas of the same deployment, that share one Redis store whose keys expire.
  Each call of \<open>SetNX\<close> happens at a time of the store's clock, and so does each start of a goroutine,
  which may come any time after its \<open>SetNX\<close>: the dispatcher waits for a slot in between. The locale
  \<open>lease_store\<close> is what the workers rely on: a key that was set is held for the span of the expiration
  it was set with, which is the one \<open>claimMessage\<close> passes. Its extension \<open>exact_lease_store\<close> says that
  a store that does not fail holds no other keys.
\<close>

section \<open>Keys that expire\<close>

record lease_redis =
  leases :: "(string, int option) fmap"
  lease_calls :: nat

definition no_leases :: lease_redis where
  "no_leases = \<lparr>leases = fmempty, lease_calls = 0\<rparr>"

text \<open>
  The expiry of a key set with an expiration, as go-redis and Redis document it: none for 0 and for
  \<open>KeepTTL\<close> (-1), whole milliseconds but at least one else; a negative one is refused by the server.
\<close>

definition lease_span :: "int \<Rightarrow> int option" where
  "lease_span expiration =
     (if expiration = 0 \<or> expiration = -1 then None
      else Some (if expiration < 1000000 then 1000000 else expiration div 1000000 * 1000000))"

definition held :: "lease_redis \<Rightarrow> string \<Rightarrow> int \<Rightarrow> bool" where
  "held s key t = (case fmlookup (leases s) key of None \<Rightarrow> False | Some None \<Rightarrow> True | Some (Some d) \<Rightarrow> t < d)"

definition setnx_at :: "redis_faults \<Rightarrow> int \<Rightarrow> lease_redis setnx_call" where
  "setnx_at faults t s key val expiration =
     (let free = \<not> held s key t;
          written = s\<lparr>leases := (if free then fmupd key (map_option ((+) t) (lease_span expiration)) (leases s) else leases s),
            lease_calls := Suc (lease_calls s)\<rparr>
      in if expiration < -1 then (Inl ''ERR invalid expire time'', s\<lparr>lease_calls := Suc (lease_calls s)\<rparr>)
         else case faults (lease_calls s) of
           None \<Rightarrow> (Inr free, written)
         | Some (e, took) \<Rightarrow> (Inl e, if took then written else s\<lparr>lease_calls := Suc (lease_calls s)\<rparr>))"

text \<open>Whether a span from \<open>t\<close> on covers \<open>u\<close>.\<close>

definition covers :: "int option \<Rightarrow> int \<Rightarrow> int \<Rightarrow> bool" where
  "covers sp t u = (t \<le> u \<and> (case sp of None \<Rightarrow> True | Some d \<Rightarrow> u < t + d))"

locale lease_store =
  fixes setnx :: "int \<Rightarrow> 'k setnx_call"
    and holds :: "'k \<Rightarrow> string \<Rightarrow> int \<Rightarrow> bool" and span :: "int \<Rightarrow> int option"
  assumes granted: "setnx t k key v life = (Inr True, k') \<Longrightarrow> \<not> holds k key t"
    and leased: "setnx t k key v life = (Inr True, k') \<Longrightarrow> covers (span life) t u \<Longrightarrow> holds k' key u"
    and kept: "setnx t k key v life = (r, k') \<Longrightarrow> holds k x u \<Longrightarrow> t \<le> u \<Longrightarrow> holds k' x u"

locale exact_lease_store = lease_store setnx holds span
  for setnx :: "int \<Rightarrow> 'k setnx_call" and holds :: "'k \<Rightarrow> string \<Rightarrow> int \<Rightarrow> bool" and span :: "int \<Rightarrow> int option" +
  assumes answers: "0 \<le> life \<Longrightarrow> fst (setnx t k key v life) = Inr (\<not> holds k key t)"
    and only: "0 \<le> life \<Longrightarrow> holds (snd (setnx t k key v life)) x u \<Longrightarrow> t \<le> u \<Longrightarrow>
      holds k x u \<or> (x = key \<and> \<not> holds k key t \<and> covers (span life) t u)"

section \<open>Replicas\<close>

text \<open>
  The dispatcher of a replica takes a message at a time and calls \<open>SetNX\<close>; with a new job it is then
  \<open>waiting\<close> for a slot, with the time of its claim, and takes no other message until it got the slot
  or its context ended. \<open>claims\<close> and \<open>started\<close> are ghosts: the time and the job of every key set, and
  the times of the claim and of the start of every goroutine.
\<close>

record 'k cluster =
  shared :: 'k
  replicas :: "nat \<Rightarrow> world"
  waiting :: "nat \<Rightarrow> (int \<times> kafka_message \<times> crawl_job) option"
  claims :: "(int \<times> crawl_job) list"
  started :: "(int \<times> int \<times> crawl_job) list"

datatype cluster_event = Take (event_time: int) nat kafka_message | Proceed (event_time: int) nat

fun cluster_dispatch ::
  "(nat \<Rightarrow> env) \<Rightarrow> worker \<Rightarrow> (int \<Rightarrow> 'k setnx_call) \<Rightarrow> cluster_event \<Rightarrow> 'k cluster \<Rightarrow> 'k cluster" where
  "cluster_dispatch envs c setnx (Take t i msg) s =
     (if waiting s i \<noteq> None then s
      else case claimMessage c (setnx t) msg (shared s, replicas s i) of
          (Inr (Some job), k, w) \<Rightarrow>
            s\<lparr>shared := k, replicas := (replicas s)(i := w), waiting := (waiting s)(i \<mapsto> (t, msg, job)),
              claims := claims s @ [(t, job)]\<rparr>
        | (_, k, w) \<Rightarrow> s\<lparr>shared := k, replicas := (replicas s)(i := w)\<rparr>)"
| "cluster_dispatch envs c setnx (Proceed t i) s =
     (case waiting s i of
        None \<Rightarrow> s
      | Some (t0, msg, job) \<Rightarrow>
          (case startJob (envs i) msg job (replicas s i) of (r, w) \<Rightarrow>
             s\<lparr>replicas := (replicas s)(i := w), waiting := (waiting s)(i := None),
               started := (if r = None then started s @ [(t0, t, job)] else started s)\<rparr>))"

fun cluster_run ::
  "(nat \<Rightarrow> env) \<Rightarrow> worker \<Rightarrow> (int \<Rightarrow> 'k setnx_call) \<Rightarrow> cluster_event list \<Rightarrow> 'k cluster \<Rightarrow> 'k cluster" where
  "cluster_run envs c setnx [] s = s"
| "cluster_run envs c setnx (ev # evs) s = cluster_run envs c setnx evs (cluster_dispatch envs c setnx ev s)"

text \<open>A message taken and at once started is a call of \<open>dispatchMessage\<close>.\<close>

lemma take_proceed_dispatches:
  assumes "waiting s i = None"
    and "dispatchMessage (envs i) c (setnx t) msg (shared s, replicas s i) = (r, k, w)"
  shows "shared (cluster_run envs c setnx [Take t i msg, Proceed t' i] s) = k \<and>
    replicas (cluster_run envs c setnx [Take t i msg, Proceed t' i] s) i = w \<and>
    waiting (cluster_run envs c setnx [Take t i msg, Proceed t' i] s) i = None"
  using assms by (auto simp: dispatchMessage_def split: sum.splits option.splits prod.splits)

text \<open>Two claims of one URL are separated by the span of its key.\<close>

definition apart :: "int option \<Rightarrow> int \<times> crawl_job \<Rightarrow> int \<times> crawl_job \<Rightarrow> bool" where
  "apart sp a b \<longleftrightarrow>
     (job_url (snd a) = job_url (snd b) \<longrightarrow> \<not> covers sp (fst a) (fst b) \<and> \<not> covers sp (fst b) (fst a))"

lemma apart_sym: "apart sp a b \<Longrightarrow> apart sp b a"
  by (auto simp: apart_def)

definition start_claim :: "int \<times> int \<times> crawl_job \<Rightarrow> int \<times> crawl_job" where
  "start_claim x = (fst x, snd (snd x))"

definition wait_claim :: "int \<times> kafka_message \<times> crawl_job \<Rightarrow> int \<times> crawl_job" where
  "wait_claim x = (fst x, snd (snd x))"

lemma claim_new:
  "claimMessage c setnx msg (k, w) = (Inr (Some job), k', w') \<Longrightarrow>
    setnx k (dedupeKeyForJob job) ''1'' (ttl c) = (Inr True, k')"
  by (auto simp: claimMessage_def Let_def split: option.splits sum.splits prod.splits if_splits)

lemma claim_other:
  "claimMessage c setnx msg (k, w) = (r, k', w') \<Longrightarrow> k' = k \<or>
    (\<exists>job x. unmarshal (dec_struct job_fields) zero_job (msg_value msg) = Some job \<and>
       setnx k (dedupeKeyForJob job) ''1'' (ttl c) = (x, k'))"
  by (auto simp: claimMessage_def Let_def split: option.splits sum.splits prod.splits if_splits)

context lease_store
begin

text \<open>The claims of goroutines that were started or wait for their slot.\<close>

definition live :: "'k cluster \<Rightarrow> (int \<times> crawl_job) set" where
  "live s = start_claim ` set (started s) \<union> wait_claim ` ran (waiting s)"

definition leased_claims :: "worker \<Rightarrow> int \<Rightarrow> 'k cluster \<Rightarrow> bool" where
  "leased_claims c tnow s \<longleftrightarrow>
     sorted_wrt (\<lambda>x y. apart (span (ttl c)) (start_claim x) (start_claim y)) (started s) \<and>
     (\<forall>i y. waiting s i = Some y \<longrightarrow> (\<forall>x \<in> set (started s). apart (span (ttl c)) (start_claim x) (wait_claim y))) \<and>
     (\<forall>i j y z. i \<noteq> j \<longrightarrow> waiting s i = Some y \<longrightarrow> waiting s j = Some z \<longrightarrow>
        apart (span (ttl c)) (wait_claim y) (wait_claim z)) \<and>
     (\<forall>x \<in> live s. fst x \<le> tnow \<and>
        (\<forall>u. tnow \<le> u \<longrightarrow> covers (span (ttl c)) (fst x) u \<longrightarrow> holds (shared s) (dedupeKeyForJob (snd x)) u)) \<and>
     (\<forall>x \<in> set (started s). fst x \<le> fst (snd x))"

lemma leased_claimsD:
  assumes "leased_claims c tnow s"
  shows "sorted_wrt (\<lambda>x y. apart (span (ttl c)) (start_claim x) (start_claim y)) (started s)"
    and "waiting s i = Some y \<Longrightarrow> x \<in> set (started s) \<Longrightarrow> apart (span (ttl c)) (start_claim x) (wait_claim y)"
    and "i \<noteq> j \<Longrightarrow> waiting s i = Some y \<Longrightarrow> waiting s j = Some z \<Longrightarrow> apart (span (ttl c)) (wait_claim y) (wait_claim z)"
    and "p \<in> live s \<Longrightarrow> fst p \<le> tnow"
    and "p \<in> live s \<Longrightarrow> tnow \<le> u \<Longrightarrow> covers (span (ttl c)) (fst p) u \<Longrightarrow> holds (shared s) (dedupeKeyForJob (snd p)) u"
    and "x \<in> set (started s) \<Longrightarrow> fst x \<le> fst (snd x)"
  using assms by (simp_all add: leased_claims_def del: split_paired_All)

lemma leased_later:
  assumes inv: "leased_claims c tnow s" and t: "tnow \<le> t"
    and keep: "\<And>x u. holds (shared s) x u \<Longrightarrow> t \<le> u \<Longrightarrow> holds k x u"
  shows "leased_claims c t (s\<lparr>shared := k, replicas := ws\<rparr>)"
proof -
  have "live (s\<lparr>shared := k, replicas := ws\<rparr>) = live s" by (simp add: live_def)
  moreover have "fst p \<le> t \<and> (\<forall>u. t \<le> u \<longrightarrow> covers (span (ttl c)) (fst p) u \<longrightarrow> holds k (dedupeKeyForJob (snd p)) u)"
    if "p \<in> live s" for p
    using leased_claimsD(4,5) [OF inv that] keep t by (meson order.trans)
  ultimately show ?thesis
    using inv by (simp add: leased_claims_def del: split_paired_All)
qed

lemma new_claim_apart:
  assumes "leased_claims c tnow s" and "tnow \<le> t"
    and "setnx t (shared s) (dedupeKeyForJob job) ''1'' (ttl c) = (Inr True, k')" and "x \<in> live s"
  shows "apart (span (ttl c)) x (t, job)"
proof -
  note x = leased_claimsD(4,5) [OF assms(1,4)]
  have "\<not> covers (span (ttl c)) (fst x) t" if "job_url (snd x) = job_url job"
    using granted [OF assms(3)] x(2) [OF assms(2)] that by (auto simp: dedupe_key_url [symmetric])
  moreover have "covers (span (ttl c)) t (fst x) \<Longrightarrow> covers (span (ttl c)) (fst x) t"
    using x(1) assms(2) by (auto simp: covers_def split: option.splits)
  ultimately show ?thesis by (auto simp: apart_def)
qed

lemma take_leased:
  assumes inv: "leased_claims c tnow s" and t: "tnow \<le> t"
  shows "leased_claims c t (cluster_dispatch envs c setnx (Take t i msg) s)"
proof -
  have same: "leased_claims c t s"
    using leased_later [OF inv t, of "shared s" "replicas s"] by simp
  obtain r k' w' where d: "claimMessage c (setnx t) msg (shared s, replicas s i) = (r, k', w')"
    by (metis prod.collapse)
  have keep: "holds k' x u" if "holds (shared s) x u" "t \<le> u" for x u
    using claim_other [OF d] kept that by blast
  note moved = leased_later [OF inv t keep, of "(replicas s)(i := w')"]
  show ?thesis
  proof (cases "\<exists>job. r = Inr (Some job) \<and> waiting s i = None")
    case False
    with same moved d show ?thesis by (auto split: sum.splits option.splits)
  next
    case True
    then obtain job where job: "r = Inr (Some job)" and idle: "waiting s i = None" by blast
    note set = claim_new [OF d [unfolded job]]
    let ?s = "s\<lparr>shared := k', replicas := (replicas s)(i := w'), waiting := (waiting s)(i \<mapsto> (t, msg, job)),
      claims := claims s @ [(t, job)]\<rparr>"
    have ap: "apart (span (ttl c)) x (t, job)" if "x \<in> live s" for x
      by (rule new_claim_apart [OF inv t set that])
    have live': "live ?s = insert (t, job) (live s)"
      using idle by (simp add: live_def wait_claim_def)
    have aw: "apart (span (ttl c)) (wait_claim y) (t, job)" if "waiting s j = Some y" for j y
      by (rule ap) (use that in \<open>auto simp: live_def ran_def\<close>)
    have "leased_claims c t ?s"
      unfolding leased_claims_def live'
    proof (intro conjI)
      show "sorted_wrt (\<lambda>x y. apart (span (ttl c)) (start_claim x) (start_claim y)) (started ?s)"
        using leased_claimsD(1) [OF inv] by simp
      show "\<forall>j y. waiting ?s j = Some y \<longrightarrow>
          (\<forall>x\<in>set (started ?s). apart (span (ttl c)) (start_claim x) (wait_claim y))"
        using leased_claimsD(2) [OF inv] ap by (auto simp: live_def wait_claim_def [of "(t, msg, job)"])
      show "\<forall>j l y z. j \<noteq> l \<longrightarrow> waiting ?s j = Some y \<longrightarrow> waiting ?s l = Some z \<longrightarrow>
          apart (span (ttl c)) (wait_claim y) (wait_claim z)"
        using leased_claimsD(3) [OF inv] aw apart_sym [OF aw] by (auto simp: wait_claim_def [of "(t, msg, job)"])
      show "\<forall>x\<in>insert (t, job) (live s). fst x \<le> t \<and>
          (\<forall>u. t \<le> u \<longrightarrow> covers (span (ttl c)) (fst x) u \<longrightarrow> holds (shared ?s) (dedupeKeyForJob (snd x)) u)"
        using leased_claimsD(4,5) [OF moved] leased [OF set] by (auto simp: live_def)
      show "\<forall>x\<in>set (started ?s). fst x \<le> fst (snd x)"
        using leased_claimsD(6) [OF inv] by simp
    qed
    with d job idle show ?thesis by simp
  qed
qed

lemma proceed_leased:
  assumes inv: "leased_claims c tnow s" and t: "tnow \<le> t"
  shows "leased_claims c t (cluster_dispatch envs c setnx (Proceed t i) s)"
proof -
  have same: "leased_claims c t s"
    using leased_later [OF inv t, of "shared s" "replicas s"] by simp
  show ?thesis
  proof (cases "waiting s i")
    case None
    with same show ?thesis by simp
  next
    case (Some y)
    obtain t0 msg job where y: "y = (t0, msg, job)" by (cases y)
    obtain r w where st: "startJob (envs i) msg job (replicas s i) = (r, w)"
      by (metis prod.collapse)
    let ?s = "s\<lparr>replicas := (replicas s)(i := w), waiting := (waiting s)(i := None),
      started := (if r = None then started s @ [(t0, t, job)] else started s)\<rparr>"
    have y0: "wait_claim y = (t0, job)" "start_claim (t0, t, job) = (t0, job)"
      by (simp_all add: y wait_claim_def start_claim_def)
    have old: "\<forall>x\<in>set (started s). apart (span (ttl c)) (start_claim x) (wait_claim y)"
      using leased_claimsD(2) [OF inv Some] by blast
    have others: "apart (span (ttl c)) (wait_claim y) (wait_claim z)" if "j \<noteq> i" "waiting s j = Some z" for j z
      using leased_claimsD(3) [OF inv that(1) [symmetric] Some that(2)] .
    have in_live: "(t0, job) \<in> live s"
      using Some y0(1) by (force simp: live_def ran_def)
    have sub: "live ?s \<subseteq> live s"
      using in_live by (auto simp: live_def ran_def y0 split: if_splits)
    have t0: "t0 \<le> t" using leased_claimsD(4) [OF same in_live] by simp
    have "leased_claims c t ?s"
      unfolding leased_claims_def
    proof (intro conjI)
      show "sorted_wrt (\<lambda>x y. apart (span (ttl c)) (start_claim x) (start_claim y)) (started ?s)"
        using leased_claimsD(1) [OF inv] old by (auto simp: sorted_wrt_append y0)
      show "\<forall>j y. waiting ?s j = Some y \<longrightarrow>
          (\<forall>x\<in>set (started ?s). apart (span (ttl c)) (start_claim x) (wait_claim y))"
        using leased_claimsD(2) [OF inv] others by (auto simp: y0 simp flip: y0(1))
      show "\<forall>j l y z. j \<noteq> l \<longrightarrow> waiting ?s j = Some y \<longrightarrow> waiting ?s l = Some z \<longrightarrow>
          apart (span (ttl c)) (wait_claim y) (wait_claim z)"
        using leased_claimsD(3) [OF inv] by auto
      show "\<forall>x\<in>live ?s. fst x \<le> t \<and>
          (\<forall>u. t \<le> u \<longrightarrow> covers (span (ttl c)) (fst x) u \<longrightarrow> holds (shared ?s) (dedupeKeyForJob (snd x)) u)"
        using leased_claimsD(4,5) [OF same] sub by auto
      show "\<forall>x\<in>set (started ?s). fst x \<le> fst (snd x)"
        using leased_claimsD(6) [OF inv] t0 by auto
    qed
    with Some y st show ?thesis by simp
  qed
qed

lemma run_leased:
  assumes "leased_claims c tnow s" and "sorted (tnow # map event_time evs)"
  shows "\<exists>t. leased_claims c t (cluster_run envs c setnx evs s)"
  using assms
proof (induction evs arbitrary: tnow s)
  case Nil
  then show ?case by auto
next
  case (Cons ev evs)
  have "leased_claims c (event_time ev) (cluster_dispatch envs c setnx ev s)"
    using take_leased [OF Cons.prems(1)] proceed_leased [OF Cons.prems(1)] Cons.prems(2) by (cases ev) simp_all
  with Cons.IH Cons.prems(2) show ?case by simp
qed

end

context exact_lease_store
begin

lemma claim_exact:
  assumes "0 \<le> ttl c" and "claimMessage c (setnx t) msg (k, w) = (r, k', w')"
    and "unmarshal (dec_struct job_fields) zero_job (msg_value msg) = Some job"
  shows "r = Inr (if holds k (dedupeKeyForJob job) t then None else Some job)"
    and "commit_ch w' = (if holds k (dedupeKeyForJob job) t then commit_ch w @ [msg] else commit_ch w)"
    and "t \<le> u \<Longrightarrow> holds k' x u \<longleftrightarrow> holds k x u \<or>
      (x = dedupeKeyForJob job \<and> \<not> holds k (dedupeKeyForJob job) t \<and> covers (span (ttl c)) t u)"
proof -
  let ?b = "\<not> holds k (dedupeKeyForJob job) t"
  obtain k1 where call: "setnx t k (dedupeKeyForJob job) ''1'' (ttl c) = (Inr ?b, k1)"
    using answers [OF assms(1), of t k "dedupeKeyForJob job" "''1''"] by (metis prod.collapse)
  have k1: "k' = k1" and "r = Inr (if ?b then Some job else None)"
      and "commit_ch w' = (if ?b then commit_ch w else commit_ch w @ [msg])"
    using assms(2,3) call by (auto simp: claimMessage_def Let_def split: if_splits)
  then show "r = Inr (if holds k (dedupeKeyForJob job) t then None else Some job)"
    and "commit_ch w' = (if holds k (dedupeKeyForJob job) t then commit_ch w @ [msg] else commit_ch w)" by auto
  assume u: "t \<le> u"
  have "holds k1 x u" if "holds k x u" using kept [OF call that u] .
  moreover have "holds k1 (dedupeKeyForJob job) u" if ?b "covers (span (ttl c)) t u"
    using leased [of t k _ _ _ k1 u] call that by auto
  moreover have "holds k x u \<or> (x = dedupeKeyForJob job \<and> ?b \<and> covers (span (ttl c)) t u)" if "holds k1 x u"
    using only [OF assms(1), of t k "dedupeKeyForJob job" "''1''" x u] call that u by simp
  ultimately show "holds k' x u \<longleftrightarrow> holds k x u \<or> (x = dedupeKeyForJob job \<and> ?b \<and> covers (span (ttl c)) t u)"
    unfolding k1 by blast
qed

text \<open>The keys held are those of the claims made, each for its span.\<close>

definition claims_held :: "worker \<Rightarrow> int \<Rightarrow> 'k cluster \<Rightarrow> bool" where
  "claims_held c tnow s \<longleftrightarrow> (\<forall>x u. tnow \<le> u \<longrightarrow>
     holds (shared s) x u = (\<exists>p \<in> set (claims s). dedupeKeyForJob (snd p) = x \<and> covers (span (ttl c)) (fst p) u))"

lemma take_claims:
  assumes "0 \<le> ttl c" and inv: "claims_held c tnow s" and t: "tnow \<le> t"
  shows "claims_held c t (cluster_dispatch envs c setnx (Take t i msg) s)"
proof -
  obtain r k' w' where d: "claimMessage c (setnx t) msg (shared s, replicas s i) = (r, k', w')"
    by (metis prod.collapse)
  have same: "claims_held c t s" using inv t by (simp add: claims_held_def)
  consider "waiting s i \<noteq> None" | "unmarshal (dec_struct job_fields) zero_job (msg_value msg) = None"
    | job where "unmarshal (dec_struct job_fields) zero_job (msg_value msg) = Some job" "waiting s i = None"
    by blast
  then show ?thesis
  proof cases
    case 3
    note e = claim_exact [OF assms(1) d 3(1)]
    show ?thesis
      using same d 3(2) e(1,3) by (auto simp: claims_held_def)
  next
    case 2
    then have "r = Inr None \<and> k' = shared s" using d by (simp add: claimMessage_def)
    with same d show ?thesis by (simp add: claims_held_def)
  qed (use same in simp)
qed

lemma run_claims:
  assumes "0 \<le> ttl c" and "claims_held c tnow s" and "sorted (tnow # map event_time evs @ [t])"
  shows "claims_held c t (cluster_run envs c setnx evs s)"
  using assms
proof (induction evs arbitrary: tnow s)
  case Nil
  then show ?case by (simp add: claims_held_def)
next
  case (Cons ev evs)
  have "claims_held c (event_time ev) (cluster_dispatch envs c setnx ev s)"
  proof (cases ev)
    case (Take t i msg)
    with take_claims [OF Cons.prems(1,2)] Cons.prems(3) show ?thesis by simp
  next
    case (Proceed t i)
    with Cons.prems(2,3) show ?thesis by (auto simp: claims_held_def split: option.splits prod.splits)
  qed
  from Cons.IH [OF Cons.prems(1) this] Cons.prems(3) show ?case by simp
qed

end

interpretation redis_lease: lease_store "setnx_at faults" held lease_span for faults
  by unfold_locales
    (auto simp: setnx_at_def held_def covers_def Let_def split: option.splits prod.splits if_splits)

interpretation reliable_lease: exact_lease_store "setnx_at (\<lambda>n. None)" held lease_span
  by unfold_locales
    (auto simp: setnx_at_def held_def covers_def Let_def split: option.splits prod.splits if_splits)

section \<open>Properties\<close>

definition new_cluster :: "lease_redis cluster" where
  "new_cluster = \<lparr>shared = no_leases, replicas = \<lambda>i. new_world, waiting = \<lambda>i. None, claims = [], started = []\<rparr>"

text \<open>
  Claim C11. Across any number of worker replicas that share the store, and whatever its calls
  answer, one URL is claimed again only after the key of its last started claim has expired: when two
  goroutines are started for a URL, the \<open>SetNX\<close> of the one lies the configured TTL (in whole
  milliseconds) after the \<open>SetNX\<close> of the other, and so does its start; with a TTL of 0 a URL is
  started only once. The start of the first may itself come any time after its claim.
\<close>

theorem url_started_once_per_ttl:
  assumes "sorted (map event_time evs)" and "a \<noteq> b"
    and "a < length (started (cluster_run envs c (setnx_at faults) evs new_cluster))"
    and "b < length (started (cluster_run envs c (setnx_at faults) evs new_cluster))"
    and "started (cluster_run envs c (setnx_at faults) evs new_cluster) ! a = (claim, start, job)"
    and "started (cluster_run envs c (setnx_at faults) evs new_cluster) ! b = (claim', start', job')"
    and "job_url job = job_url job'" and "claim \<le> claim'"
  shows "\<exists>d. lease_span (ttl c) = Some d \<and> claim + d \<le> claim' \<and> claim' \<le> start' \<and> claim \<le> start"
proof -
  let ?s = "cluster_run envs c (setnx_at faults) evs new_cluster"
  let ?apart = "\<lambda>i j. apart (lease_span (ttl c)) (start_claim (started ?s ! i)) (start_claim (started ?s ! j))"
  have "redis_lease.leased_claims c (case evs of [] \<Rightarrow> 0 | ev # es \<Rightarrow> event_time ev) new_cluster"
    by (simp add: redis_lease.leased_claims_def redis_lease.live_def new_cluster_def)
  moreover have "sorted ((case evs of [] \<Rightarrow> 0 | ev # es \<Rightarrow> event_time ev) # map event_time evs)"
    using assms(1) by (cases evs) auto
  ultimately obtain t where inv: "redis_lease.leased_claims c t ?s"
    using redis_lease.run_leased by blast
  have "?apart i j" if "i < j" "j < length (started ?s)" for i j
    using redis_lease.leased_claimsD(1) [OF inv] that by (simp add: sorted_wrt_iff_nth_less)
  with assms(2-4) have "?apart a b" by (metis apart_sym nat_neq_iff)
  moreover have "claim \<le> start" "claim' \<le> start'"
    using redis_lease.leased_claimsD(6) [OF inv] assms(3-6) nth_mem by fastforce+
  ultimately show ?thesis
    using assms(5-8) by (auto simp: apart_def start_claim_def covers_def split: option.splits)
qed

abbreviation sample_events :: "cluster_event list" where
  "sample_events \<equiv> [Take 0 0 (job_message zero_job), Take (seconds 1) 1 (job_message zero_job), Proceed (seconds 9) 0,
     Take (seconds 86400) 1 (job_message zero_job), Proceed (seconds 86400) 1]"

lemmas cluster_simps = claimMessage_def startJob_def job_message_reads [OF zero_job_wf] setnx_at_def held_def
  lease_span_def new_cluster_def no_leases_def new_world_def dead_env_def Let_def

lemma sample_starts:
  "ttl c = seconds 86400 \<Longrightarrow> started (cluster_run (\<lambda>i. dead_env) c (setnx_at (\<lambda>n. None)) sample_events new_cluster) =
     [(0, seconds 9, zero_job), (seconds 86400, seconds 86400, zero_job)]"
  by (simp add: cluster_simps)

lemma default_ttl: "ttl default_worker = seconds 86400"
  by (simp add: default_worker_def newWorker_def Let_def)

theorem url_started_once_per_ttl_witness:
  "\<exists>d. lease_span (ttl default_worker) = Some d \<and> 0 + d \<le> seconds 86400 \<and> seconds 86400 \<le> seconds 86400 \<and> 0 \<le> seconds 9"
  using url_started_once_per_ttl [where c = default_worker and a = 0 and b = 1 and envs = "\<lambda>i. dead_env"
      and faults = "\<lambda>n. None" and evs = sample_events, unfolded sample_starts [OF default_ttl]] by simp

text \<open>
  Claim C12. With a store that does not fail, deduplication is exact across the replicas: a job taken at
  some time by an idle replica is skipped, and its message committed, if some replica claimed its URL
  less than the configured TTL before, whether that claim was then started or dropped; otherwise it
  is claimed, and waits for its slot uncommitted.
\<close>

theorem url_claimed_after_ttl:
  assumes "sorted (map event_time evs @ [t])" and "0 \<le> ttl c"
    and "unmarshal (dec_struct job_fields) zero_job (msg_value msg) = Some job"
    and "waiting (cluster_run envs c (setnx_at (\<lambda>n. None)) evs new_cluster) i = None"
  shows "let s = cluster_run envs c (setnx_at (\<lambda>n. None)) evs new_cluster;
             s' = cluster_dispatch envs c (setnx_at (\<lambda>n. None)) (Take t i msg) s
         in if \<exists>p \<in> set (claims s). job_url (snd p) = job_url job \<and> covers (lease_span (ttl c)) (fst p) t
            then waiting s' i = None \<and> claims s' = claims s \<and>
              commit_ch (replicas s' i) = commit_ch (replicas s i) @ [msg]
            else waiting s' i = Some (t, msg, job) \<and> claims s' = claims s @ [(t, job)] \<and>
              commit_ch (replicas s' i) = commit_ch (replicas s i)"
proof -
  let ?s = "cluster_run envs c (setnx_at (\<lambda>n. None)) evs new_cluster"
  have "reliable_lease.claims_held c (case evs of [] \<Rightarrow> t | ev # es \<Rightarrow> event_time ev) new_cluster"
    by (simp add: reliable_lease.claims_held_def new_cluster_def no_leases_def held_def)
  moreover have "sorted ((case evs of [] \<Rightarrow> t | ev # es \<Rightarrow> event_time ev) # map event_time evs @ [t])"
    using assms(1) by (cases evs) auto
  ultimately have "reliable_lease.claims_held c t ?s" using reliable_lease.run_claims [OF assms(2)] by blast
  then have h: "held (shared ?s) (dedupeKeyForJob job) t \<longleftrightarrow>
      (\<exists>p \<in> set (claims ?s). job_url (snd p) = job_url job \<and> covers (lease_span (ttl c)) (fst p) t)"
    by (simp add: reliable_lease.claims_held_def dedupe_key_url)
  obtain r k' w' where d: "claimMessage c (setnx_at (\<lambda>n. None) t) msg (shared ?s, replicas ?s i) = (r, k', w')"
    by (metis prod.collapse)
  from reliable_lease.claim_exact(1,2) [OF assms(2) d assms(3)] assms(4) d show ?thesis
    unfolding h by (auto simp: Let_def)
qed

theorem url_claimed_after_ttl_witness:
  "waiting (cluster_dispatch (\<lambda>i. dead_env) default_worker (setnx_at (\<lambda>n. None)) (Take (seconds 86399) 1 (job_message zero_job))
     (cluster_run (\<lambda>i. dead_env) default_worker (setnx_at (\<lambda>n. None)) [Take 0 0 (job_message zero_job)] new_cluster)) 1 = None \<and>
   waiting (cluster_dispatch (\<lambda>i. dead_env) default_worker (setnx_at (\<lambda>n. None)) (Take (seconds 86400) 1 (job_message zero_job))
     (cluster_run (\<lambda>i. dead_env) default_worker (setnx_at (\<lambda>n. None)) [Take 0 0 (job_message zero_job)] new_cluster)) 1 =
     Some (seconds 86400, job_message zero_job, zero_job)"
proof -
  let ?s = "cluster_run (\<lambda>i. dead_env) default_worker (setnx_at (\<lambda>n. None)) [Take 0 0 (job_message zero_job)] new_cluster"
  have s: "waiting ?s 1 = None" "claims ?s = [(0, zero_job)]"
    by (simp_all add: cluster_simps default_ttl)
  note W = url_claimed_after_ttl [where evs = "[Take 0 0 (job_message zero_job)]" and c = default_worker and i = 1,
      OF _ _ job_message_reads [OF zero_job_wf] s(1)]
  show ?thesis
    using W [of "seconds 86399"] W [of "seconds 86400"]
    by (simp add: s(2) default_ttl Let_def covers_def lease_span_def del: cluster_run.simps cluster_dispatch.simps)
qed

end
