(* ===== verification/Graph_Store.thy ===== *)
theory Graph_Store
  imports Graph_Writer
begin

text \<open>
  The graph behind the graph writer. The locale \<open>merge_store\<close> is what the writer relies on of a write
  transaction: a \<open>MERGE\<close> adds what it names, a \<open>SET\<close> replaces the properties it gives a value for, and
  a transaction that fails is rolled back. So which nodes and links there are depends neither on the
  order in which messages arrive nor on how often, and the at-least-once delivery of Kafka does no
  harm. The properties of a node are those of the last message that gave them: they are the same
  only for deliveries whose messages agree on them.
\<close>

section \<open>Statements\<close>

text \<open>The statement a payload leads to, if any: what a transaction is asked to run.\<close>

definition note_statement :: "(string \<times> params) option tx" where
  "note_statement q p g = (None, Some (q, p))"

definition result_statement :: "string \<Rightarrow> (string \<times> params) option" where
  "result_statement v = snd (writeResult (\<lambda>s. s) note_statement v None)"

definition edge_statement :: "string \<Rightarrow> (string \<times> params) option" where
  "edge_statement v = snd (writeEdge (\<lambda>s. s) note_statement v None)"

lemma writeResult_statement:
  "case result_statement v of None \<Rightarrow> snd (writeResult bad_json tx v g) = g
   | Some q \<Rightarrow> writeResult bad_json tx v g = runWrite tx q g"
  by (auto simp: result_statement_def writeResult_def note_statement_def writeBook_def writeWork_def writeAuthor_def
      runWrite_def decodeNode_def split: option.splits sum.splits)

lemma writeEdge_statement:
  "case edge_statement v of None \<Rightarrow> snd (writeEdge bad_json tx v g) = g
   | Some q \<Rightarrow> writeEdge bad_json tx v g = runWrite tx q g"
  by (auto simp: edge_statement_def writeEdge_def note_statement_def runWrite_def split: option.splits)

section \<open>The last value given\<close>

text \<open>The last value a list of updates gives, if any, and what it leaves of an old one.\<close>

fun last_some :: "('a \<Rightarrow> 'b option) \<Rightarrow> 'a list \<Rightarrow> 'b option" where
  "last_some f [] = None"
| "last_some f (x # xs) = (case last_some f xs of None \<Rightarrow> f x | Some v \<Rightarrow> Some v)"

definition override :: "'b \<Rightarrow> 'b option \<Rightarrow> 'b" where
  "override old new = (case new of None \<Rightarrow> old | Some v \<Rightarrow> v)"

lemma override_simps [simp]: "override old None = old" "override old (Some v) = v"
  by (simp_all add: override_def)

lemma fold_last_some:
  assumes "\<And>x s. h (step x s) = override (h s) (f x)"
  shows "h (fold step xs s) = override (h s) (last_some f xs)"
  by (induction xs arbitrary: s) (simp_all add: assms override_def split: option.splits)

lemma last_some_in: "last_some f xs = Some v \<Longrightarrow> \<exists>x \<in> set xs. f x = Some v"
  by (induction xs) (auto split: option.splits)

lemma last_some_None: "last_some f xs = None \<longleftrightarrow> (\<forall>x \<in> set xs. f x = None)"
  by (induction xs) (auto split: option.splits)

text \<open>Values that agree do not depend on the order.\<close>

lemma last_some_agree:
  assumes "set xs = set ys" and "\<And>x y a b. x \<in> set xs \<Longrightarrow> y \<in> set xs \<Longrightarrow> f x = Some a \<Longrightarrow> f y = Some b \<Longrightarrow> a = b"
  shows "last_some f xs = last_some f ys"
proof (cases "last_some f xs")
  case None
  with assms(1) show ?thesis by (metis last_some_None)
next
  case (Some a)
  then obtain x where x: "x \<in> set xs" "f x = Some a" by (blast dest: last_some_in)
  with assms(1) obtain b where b: "last_some f ys = Some b" by (metis last_some_None not_None_eq)
  then obtain y where "y \<in> set xs" "f y = Some b" using assms(1) by (blast dest: last_some_in)
  with assms(2) x Some b show ?thesis by auto
qed

section \<open>Two consumers on one graph\<close>

text \<open>The two consumers run side by side; \<open>Inl\<close> is a message of the results topic.\<close>

fun graph_run ::
  "(string \<Rightarrow> go_error) \<Rightarrow> 'g tx \<Rightarrow> (nat \<Rightarrow> go_error option) \<Rightarrow> (kafka_message + kafka_message) list \<Rightarrow>
   'g graph_writer \<Rightarrow> 'g graph_writer" where
  "graph_run bad_json tx committer [] s = s"
| "graph_run bad_json tx committer (Inl msg # ms) s =
     graph_run bad_json tx committer ms (consumeResults bad_json tx committer [Fetched msg] s)"
| "graph_run bad_json tx committer (Inr msg # ms) s =
     graph_run bad_json tx committer ms (consumeEdges bad_json tx committer [Fetched msg] s)"

definition statement_of :: "kafka_message + kafka_message \<Rightarrow> (string \<times> params) option" where
  "statement_of x = (case x of Inl msg \<Rightarrow> result_statement (msg_value msg) | Inr msg \<Rightarrow> edge_statement (msg_value msg))"

locale merge_store =
  fixes tx :: "'g tx" and elems :: "'g \<Rightarrow> 'v set" and adds :: "string \<times> params \<Rightarrow> 'v set"
    and props :: "'g \<Rightarrow> 'n \<Rightarrow> string \<Rightarrow> 'p" and sets :: "string \<times> params \<Rightarrow> 'n \<Rightarrow> string \<Rightarrow> 'p option"
  assumes merged: "tx q p g = (None, g') \<Longrightarrow> elems g' = elems g \<union> adds (q, p)"
    and rolled_back: "tx q p g = (Some e, g') \<Longrightarrow> elems g' = elems g"
    and assigned: "tx q p g = (None, g') \<Longrightarrow> props g' n k = override (props g n k) (sets (q, p) n k)"
begin

definition named :: "kafka_message + kafka_message \<Rightarrow> 'v set" where
  "named x = (case statement_of x of None \<Rightarrow> {} | Some q \<Rightarrow> adds q)"

lemma runWrite_elems:
  "elems (snd (runWrite tx q g)) = (if fst (runWrite tx q g) = None then elems g \<union> adds q else elems g)"
  using merged [of "fst q" "snd q" g] rolled_back [of "fst q" "snd q" g]
  by (cases "tx (fst q) (snd q) g"; cases "fst (tx (fst q) (snd q) g)") (auto simp: runWrite_def)

lemma consume_one:
  "graph (consumeResults bad_json tx committer [Fetched msg] s) = snd (writeResult bad_json tx (msg_value msg) (graph s))"
  "graph (consumeEdges bad_json tx committer [Fetched msg] s) = snd (writeEdge bad_json tx (msg_value msg) (graph s))"
  by (auto simp: Let_def commit_message_def split: prod.splits option.splits)

lemma consume_elems:
  "elems (snd (writeResult bad_json tx (msg_value msg) g)) = elems g \<or>
   elems (snd (writeResult bad_json tx (msg_value msg) g)) = elems g \<union> named (Inl msg)"
  "elems (snd (writeEdge bad_json tx (msg_value msg) g)) = elems g \<or>
   elems (snd (writeEdge bad_json tx (msg_value msg) g)) = elems g \<union> named (Inr msg)"
  using writeResult_statement [where v = "msg_value msg" and bad_json = bad_json and tx = tx and g = g] writeEdge_statement [where v = "msg_value msg" and bad_json = bad_json and tx = tx and g = g]
  by (auto simp: named_def statement_of_def runWrite_elems split: option.splits)

lemma run_between:
  "elems (graph s) \<subseteq> elems (graph (graph_run bad_json tx committer ms s)) \<and>
   elems (graph (graph_run bad_json tx committer ms s)) \<subseteq> elems (graph s) \<union> \<Union> (named ` set ms)"
proof (induction ms arbitrary: s)
  case (Cons x ms)
  show ?case
  proof (cases x)
    case (Inl msg)
    with Cons.IH [of "consumeResults bad_json tx committer [Fetched msg] s"] consume_elems(1) [of bad_json msg "graph s"]
    show ?thesis by (fastforce simp: consume_one simp del: consumeResults.simps)
  next
    case (Inr msg)
    with Cons.IH [of "consumeEdges bad_json tx committer [Fetched msg] s"] consume_elems(2) [of bad_json msg "graph s"]
    show ?thesis by (fastforce simp: consume_one simp del: consumeEdges.simps)
  qed
qed simp

text \<open>Messages whose statement never fails.\<close>

definition sound :: "kafka_message + kafka_message \<Rightarrow> bool" where
  "sound x \<longleftrightarrow> (\<forall>q. statement_of x = Some q \<longrightarrow> (\<forall>g. fst (runWrite tx q g) = None))"

lemma write_elems:
  "sound (Inl msg) \<Longrightarrow> elems (snd (writeResult bad_json tx (msg_value msg) g)) = elems g \<union> named (Inl msg)"
  "sound (Inr msg) \<Longrightarrow> elems (snd (writeEdge bad_json tx (msg_value msg) g)) = elems g \<union> named (Inr msg)"
  using writeResult_statement [where v = "msg_value msg" and bad_json = bad_json and tx = tx and g = g]
    writeEdge_statement [where v = "msg_value msg" and bad_json = bad_json and tx = tx and g = g]
  by (auto simp: named_def sound_def statement_of_def runWrite_elems split: option.splits)

lemma run_elems:
  "list_all sound ms \<Longrightarrow>
   elems (graph (graph_run bad_json tx committer ms s)) = elems (graph s) \<union> \<Union> (named ` set ms)"
proof (induction ms arbitrary: s)
  case (Cons x ms)
  then show ?case
    by (cases x) (auto simp: consume_one write_elems simp del: consumeResults.simps consumeEdges.simps)
qed simp

text \<open>The properties a message gives a value for.\<close>

definition gives :: "'n \<Rightarrow> string \<Rightarrow> kafka_message + kafka_message \<Rightarrow> 'p option" where
  "gives n k x = (case statement_of x of None \<Rightarrow> None | Some q \<Rightarrow> sets q n k)"

lemma runWrite_props:
  "fst (runWrite tx q g) = None \<Longrightarrow> props (snd (runWrite tx q g)) n k = override (props g n k) (sets q n k)"
  using assigned [of "fst q" "snd q" g _ n k]
  by (cases "tx (fst q) (snd q) g"; cases "fst (tx (fst q) (snd q) g)") (auto simp: runWrite_def)

lemma write_props:
  "sound (Inl msg) \<Longrightarrow>
     props (snd (writeResult bad_json tx (msg_value msg) g)) n k = override (props g n k) (gives n k (Inl msg))"
  "sound (Inr msg) \<Longrightarrow>
     props (snd (writeEdge bad_json tx (msg_value msg) g)) n k = override (props g n k) (gives n k (Inr msg))"
  using writeResult_statement [where v = "msg_value msg" and bad_json = bad_json and tx = tx and g = g]
    writeEdge_statement [where v = "msg_value msg" and bad_json = bad_json and tx = tx and g = g]
  by (auto simp: gives_def sound_def statement_of_def runWrite_props split: option.splits)

lemma run_props:
  "list_all sound ms \<Longrightarrow>
   props (graph (graph_run bad_json tx committer ms s)) n k = override (props (graph s) n k) (last_some (gives n k) ms)"
proof (induction ms arbitrary: s)
  case (Cons x ms)
  then show ?case
    by (cases x)
      (auto simp: consume_one write_props override_def split: option.splits simp del: consumeResults.simps consumeEdges.simps)
qed simp

end

section \<open>The graph as Neo4j keeps it\<close>

text \<open>
  The three forms of statement in Cypher as its manual has them. \<open>MERGE\<close> on a labelled node or on a
  relation between two: what exists is left, what is missing is created. \<open>SET v.k = $k\<close> assigns the
  property, or removes it when the parameter is null; \<open>SET v.k = coalesce($k, v.k)\<close> leaves it then.
  A node is its label and its key, with its properties. Any other text is refused. \<open>faults\<close> says
  which transactions fail.
\<close>

type_synonym node_id = "string \<times> string"
type_synonym properties = "string \<Rightarrow> string option"

record merge_graph =
  node_map :: "node_id \<Rightarrow> properties option"
  link_set :: "(node_id \<times> string \<times> node_id \<times> string) set"
  tx_calls :: nat

datatype set_clause = Assign string | Coalesce string

primrec clause_text :: "string \<Rightarrow> set_clause \<Rightarrow> string" where
  "clause_text v (Assign k) = v @ ''.'' @ k @ '' = $'' @ k"
| "clause_text v (Coalesce k) = v @ ''.'' @ k @ '' = coalesce($'' @ k @ '', '' @ v @ ''.'' @ k @ '')''"

fun clause_list :: "string \<Rightarrow> set_clause list \<Rightarrow> string" where
  "clause_list v [] = []"
| "clause_list v [c] = clause_text v c"
| "clause_list v (c # cs) = clause_text v c @ '', '' @ clause_list v cs"

definition node_template :: "string \<Rightarrow> string \<Rightarrow> set_clause list \<Rightarrow> string" where
  "node_template l v cs = ''MERGE ('' @ v @ '':'' @ l @ '' {key: $key}) SET '' @ clause_list v cs"

definition node_forms :: "(string \<times> string \<times> set_clause list) list" where
  "node_forms =
     [(''Book'', ''b'', [Assign ''session_id'', Coalesce ''title'', Coalesce ''full_title'', Coalesce ''publish_date'']),
      (''Work'', ''w'', [Assign ''session_id'', Coalesce ''title'']),
      (''Author'', ''a'', [Assign ''session_id'', Coalesce ''name''])]"

definition edge_texts :: "((string \<times> string) \<times> (string \<times> string) \<times> string) list" where
  "edge_texts = List.product node_labels (List.product node_labels (map to_upper worker_relations))"

definition null_param :: "params \<Rightarrow> string \<Rightarrow> string option" where
  "null_param p k = (case fmlookup p k of None \<Rightarrow> None | Some v \<Rightarrow> v)"

definition param :: "params \<Rightarrow> string \<Rightarrow> string" where
  "param p k = (case null_param p k of Some v \<Rightarrow> v | None \<Rightarrow> [])"

text \<open>The nodes a statement merges, with its clauses for them, and the links.\<close>

definition merge_effect ::
  "string \<Rightarrow> params \<Rightarrow> ((node_id \<times> set_clause list) list \<times> (node_id \<times> string \<times> node_id \<times> string) set) option" where
  "merge_effect q p =
     (case find (\<lambda>(l, v, cs). node_template l v cs = q) node_forms of
        Some (l, v, cs) \<Rightarrow> Some ([((l, param p ''key''), cs)], {})
      | None \<Rightarrow>
          (case find (\<lambda>x. edge_template (fst x) (fst (snd x)) (snd (snd x)) = q) edge_texts of
             None \<Rightarrow> None
           | Some (a, b, r) \<Rightarrow>
               (let x = (fst a, param p ''fromKey''); y = (fst b, param p ''toKey'')
                in Some ([(x, []), (y, [])], {(x, r, y, param p ''session_id'')}))))"

fun set_property :: "params \<Rightarrow> set_clause \<Rightarrow> properties \<Rightarrow> properties" where
  "set_property p (Assign k) m = m(k := null_param p k)"
| "set_property p (Coalesce k) m = (case null_param p k of None \<Rightarrow> m | Some v \<Rightarrow> m(k \<mapsto> v))"

definition merge_node :: "params \<Rightarrow> node_id \<times> set_clause list \<Rightarrow> (node_id \<Rightarrow> properties option) \<Rightarrow> node_id \<Rightarrow> properties option" where
  "merge_node p x ns =
     ns(fst x \<mapsto> fold (set_property p) (snd x) (case ns (fst x) of None \<Rightarrow> (\<lambda>k. None) | Some m \<Rightarrow> m))"

definition merge_tx :: "(nat \<Rightarrow> go_error option) \<Rightarrow> merge_graph tx" where
  "merge_tx faults q p g =
     (case faults (tx_calls g) of
        Some e \<Rightarrow> (Some e, g\<lparr>tx_calls := Suc (tx_calls g)\<rparr>)
      | None \<Rightarrow>
          (case merge_effect q p of
             None \<Rightarrow> (Some ''syntax error'', g\<lparr>tx_calls := Suc (tx_calls g)\<rparr>)
           | Some (ns, ls) \<Rightarrow>
               (None, g\<lparr>node_map := fold (merge_node p) ns (node_map g), link_set := link_set g \<union> ls,
                  tx_calls := Suc (tx_calls g)\<rparr>)))"

definition graph_elems :: "merge_graph \<Rightarrow> (node_id + node_id \<times> string \<times> node_id \<times> string) set" where
  "graph_elems g = Inl ` dom (node_map g) \<union> Inr ` link_set g"

definition effect_elems :: "string \<times> params \<Rightarrow> (node_id + node_id \<times> string \<times> node_id \<times> string) set" where
  "effect_elems qp =
     (case merge_effect (fst qp) (snd qp) of None \<Rightarrow> {} | Some (ns, ls) \<Rightarrow> Inl ` fst ` set ns \<union> Inr ` ls)"

definition node_prop :: "merge_graph \<Rightarrow> node_id \<Rightarrow> string \<Rightarrow> string option" where
  "node_prop g n k = (case node_map g n of None \<Rightarrow> None | Some m \<Rightarrow> m k)"

text \<open>The value a statement gives a property: \<open>Some None\<close> removes it.\<close>

fun clause_sets :: "params \<Rightarrow> string \<Rightarrow> set_clause \<Rightarrow> string option option" where
  "clause_sets p k (Assign k') = (if k' = k then Some (null_param p k) else None)"
| "clause_sets p k (Coalesce k') = (if k' = k \<and> null_param p k \<noteq> None then Some (null_param p k) else None)"

definition effect_sets :: "string \<times> params \<Rightarrow> node_id \<Rightarrow> string \<Rightarrow> string option option" where
  "effect_sets qp n k =
     (case merge_effect (fst qp) (snd qp) of
        None \<Rightarrow> None
      | Some (ns, ls) \<Rightarrow>
          last_some (\<lambda>x. if fst x = n then last_some (clause_sets (snd qp) k) (snd x) else None) ns)"

lemma dom_merge_nodes: "dom (fold (merge_node p) ns m) = fst ` set ns \<union> dom m"
  by (induction ns arbitrary: m) (auto simp: merge_node_def)

lemma set_clauses_prop:
  "fold (set_property p) cs m k = override (m k) (last_some (clause_sets p k) cs)"
proof (rule fold_last_some [where h = "\<lambda>m. m k"])
  show "set_property p c m k = override (m k) (clause_sets p k c)" for c m
    by (cases c) (auto split: option.splits)
qed

lemma merge_nodes_prop:
  "(case fold (merge_node p) ns m n of None \<Rightarrow> None | Some m \<Rightarrow> m k) =
   override (case m n of None \<Rightarrow> None | Some m \<Rightarrow> m k)
     (last_some (\<lambda>x. if fst x = n then last_some (clause_sets p k) (snd x) else None) ns)"
proof (rule fold_last_some [where h = "\<lambda>m. case m n of None \<Rightarrow> None | Some m \<Rightarrow> m k"])
  show "(case merge_node p x m n of None \<Rightarrow> None | Some m \<Rightarrow> m k) =
      override (case m n of None \<Rightarrow> None | Some m \<Rightarrow> m k) (if fst x = n then last_some (clause_sets p k) (snd x) else None)" for x m
    by (auto simp: merge_node_def set_clauses_prop split: option.splits)
qed

lemma merge_tx_done:
  assumes "merge_tx faults q p g = (None, g')"
  obtains ns ls where "merge_effect q p = Some (ns, ls)" "node_map g' = fold (merge_node p) ns (node_map g)"
    "link_set g' = link_set g \<union> ls"
  using assms by (auto simp: merge_tx_def split: option.splits prod.splits)

lemma merge_tx_failed: "merge_tx faults q p g = (Some e, g') \<Longrightarrow> node_map g' = node_map g \<and> link_set g' = link_set g"
  by (auto simp: merge_tx_def split: option.splits prod.splits)

interpretation neo4j: merge_store "merge_tx faults" graph_elems effect_elems node_prop effect_sets for faults
proof
  fix q p g g' n k
  assume "merge_tx faults q p g = (None, g')"
  then obtain ns ls where e: "merge_effect q p = Some (ns, ls)" "node_map g' = fold (merge_node p) ns (node_map g)"
    "link_set g' = link_set g \<union> ls" by (rule merge_tx_done)
  show "graph_elems g' = graph_elems g \<union> effect_elems (q, p)"
    by (simp add: graph_elems_def effect_elems_def e dom_merge_nodes image_Un Un_ac)
  show "node_prop g' n k = override (node_prop g n k) (effect_sets (q, p) n k)"
    by (simp add: node_prop_def effect_sets_def e merge_nodes_prop cong: if_cong)
next
  fix q p g g' e
  assume "merge_tx faults q p g = (Some e, g')"
  then show "graph_elems g' = graph_elems g" by (simp add: graph_elems_def merge_tx_failed)
qed

text \<open>Every text is the one of its labels and relation.\<close>

lemma split_at: "c \<notin> set xs \<Longrightarrow> c \<notin> set xs' \<Longrightarrow> xs @ c # ys = xs' @ c # ys' \<longleftrightarrow> xs = xs' \<and> ys = ys'"
  by (auto simp: append_eq_append_conv2 append_eq_Cons_conv Cons_eq_append_conv)

lemma plain_labels:
  "a \<in> set node_labels \<Longrightarrow> CHR '' '' \<notin> set (fst a)" "a \<in> set node_labels \<Longrightarrow> CHR '':'' \<notin> set (snd a)"
  "r \<in> set (map to_upper worker_relations) \<Longrightarrow> CHR '' '' \<notin> set r"
  by (auto simp: node_labels_def worker_relations_def to_upper_def ascii_upper_def byte_in_def)

lemma edge_template_inj:
  assumes "edge_template a b r = edge_template a' b' r'"
    and "a \<in> set node_labels" "b \<in> set node_labels" "r \<in> set (map to_upper worker_relations)"
    and "a' \<in> set node_labels" "b' \<in> set node_labels" "r' \<in> set (map to_upper worker_relations)"
  shows "a = a' \<and> b = b' \<and> r = r'"
  using assms(1) plain_labels(1) [OF assms(2)] plain_labels(2) [OF assms(2)] plain_labels(1) [OF assms(3)]
    plain_labels(2) [OF assms(3)] plain_labels(3) [OF assms(4)] plain_labels(1) [OF assms(5)]
    plain_labels(2) [OF assms(5)] plain_labels(1) [OF assms(6)] plain_labels(2) [OF assms(6)] plain_labels(3) [OF assms(7)]
  by (cases a; cases b; cases a'; cases b') (simp add: edge_template_def split_at)

lemma find_template:
  assumes "a \<in> set node_labels" "b \<in> set node_labels" "r \<in> set (map to_upper worker_relations)"
  shows "find (\<lambda>x. edge_template (fst x) (fst (snd x)) (snd (snd x)) = edge_template a b r) edge_texts = Some (a, b, r)"
proof -
  let ?P = "\<lambda>x. edge_template (fst x) (fst (snd x)) (snd (snd x)) = edge_template a b r"
  have "(a, b, r) \<in> set edge_texts" "?P (a, b, r)" using assms by (simp_all add: edge_texts_def)
  then have "find ?P edge_texts \<noteq> None" unfolding find_None_iff by blast
  then obtain x where x: "find ?P edge_texts = Some x" by blast
  then have "x \<in> set edge_texts" "?P x" by (auto simp: find_Some_iff)
  with edge_template_inj [OF this(2) _ _ _ assms] x show ?thesis by (auto simp: edge_texts_def)
qed

text \<open>What an edge of the crawler adds.\<close>

definition link_of :: "edge \<Rightarrow> node_id \<times> string \<times> node_id \<times> string" where
  "link_of e =
     (case nodeLabel (edge_from e) of (frl, frk, frp) \<Rightarrow>
        case nodeLabel (edge_to e) of (tol, tok, tprop) \<Rightarrow>
          ((frl, frk), relationType (edge_relation e), (tol, tok), edge_session e))"

lemma no_node_form: "find (\<lambda>(l, v, cs). node_template l v cs = edge_template a b r) node_forms = None"
  by (simp add: node_forms_def node_template_def edge_template_def)

text \<open>The texts the code builds for a node are those of the three forms.\<close>

fun node_form :: "node \<Rightarrow> string \<times> string \<times> set_clause list" where
  "node_form (Book b) = node_forms ! 0"
| "node_form (Work w) = node_forms ! 1"
| "node_form (Author a) = node_forms ! 2"

lemma node_query_text:
  "fst (node_query sid n) = (case node_form n of (l, v, cs) \<Rightarrow> node_template l v cs)"
  by (cases n) (simp_all add: node_forms_def node_template_def buildBookQuery_def buildWorkQuery_def buildAuthorQuery_def)

lemma find_form:
  "find (\<lambda>(l, v, cs). node_template l v cs = fst (node_query sid n)) node_forms = Some (node_form n)"
  unfolding node_query_text by (cases n) (simp_all add: node_forms_def node_template_def)

lemma edge_effect:
  assumes "edge_relation e \<in> set worker_relations"
  shows "merge_effect (fst (buildEdgeQuery e)) (snd (buildEdgeQuery e)) =
    Some ([(fst (link_of e), []), (fst (snd (snd (link_of e))), [])], {link_of e})"
proof -
  from nodeLabel_cases [of "edge_from e"] obtain a v where a: "a \<in> set node_labels"
    "nodeLabel (edge_from e) = (fst a, v, snd a)" by blast
  from nodeLabel_cases [of "edge_to e"] obtain b u where b: "b \<in> set node_labels"
    "nodeLabel (edge_to e) = (fst b, u, snd b)" by blast
  have "fst (buildEdgeQuery e) = edge_template a b (relationType (edge_relation e))"
    by (simp add: buildEdgeQuery_def edge_template_def a(2) b(2))
  moreover have "param (snd (buildEdgeQuery e)) ''fromKey'' = v" "param (snd (buildEdgeQuery e)) ''toKey'' = u"
    "param (snd (buildEdgeQuery e)) ''session_id'' = edge_session e"
    by (simp_all add: param_def null_param_def buildEdgeQuery_def a(2) b(2) fmlookup_of_list)
  ultimately show ?thesis
    using find_template [OF a(1) b(1) relationType_known [OF assms]]
    by (simp add: merge_effect_def no_node_form link_of_def a(2) b(2) Let_def)
qed

lemma edge_effect_pair:
  "buildEdgeQuery e = (q, p) \<Longrightarrow> edge_relation e \<in> set worker_relations \<Longrightarrow>
     merge_effect q p = Some ([(fst (link_of e), []), (fst (snd (snd (link_of e))), [])], {link_of e})"
  using edge_effect [of e] by simp

definition node_id :: "node \<Rightarrow> node_id" where
  "node_id n = (fst (node_form n), ID n)"

lemma node_effect:
  "merge_effect (fst (node_query sid n)) (snd (node_query sid n)) = Some ([(node_id n, snd (snd (node_form n)))], {})"
proof -
  have "param (snd (node_query sid n)) ''key'' = ID n"
    by (cases n) (simp_all add: buildBookQuery_def buildWorkQuery_def buildAuthorQuery_def param_def null_param_def fmlookup_of_list)
  then show ?thesis unfolding merge_effect_def find_form node_id_def by (cases "node_form n") simp
qed

text \<open>The property values a node of a session gives.\<close>

definition node_sets :: "string \<Rightarrow> node \<Rightarrow> string \<Rightarrow> string option" where
  "node_sets sid n =
     (case n of
        Book b \<Rightarrow> [''session_id'' \<mapsto> sid](''title'' := or_nil (book_title b), ''full_title'' := or_nil (book_full_title b),
          ''publish_date'' := or_nil (book_publish_date b))
      | Work w \<Rightarrow> [''session_id'' \<mapsto> sid](''title'' := or_nil (work_title w))
      | Author a \<Rightarrow> [''session_id'' \<mapsto> sid](''name'' := or_nil (author_name a)))"

lemma node_effect_sets:
  "effect_sets (node_query sid n) x k = (if x = node_id n then map_option Some (node_sets sid n k) else None)"
  using node_effect [of sid n]
  by (cases n) (auto simp: effect_sets_def node_forms_def null_param_def node_sets_def fmlookup_of_list or_nil_def
      buildBookQuery_def buildWorkQuery_def buildAuthorQuery_def)

lemma edge_effect_sets:
  "edge_relation e \<in> set worker_relations \<Longrightarrow> effect_sets (buildEdgeQuery e) x k = None"
  by (simp add: effect_sets_def edge_effect)

lemma edge_effect_sets_pair:
  "buildEdgeQuery e = (q, p) \<Longrightarrow> edge_relation e \<in> set worker_relations \<Longrightarrow> effect_sets (q, p) x k = None"
  using edge_effect_sets [of e] by simp

section \<open>Properties\<close>

text \<open>The messages the crawler sends: any result, and edges of its six relations.\<close>

definition crawler_message :: "kafka_message + kafka_message \<Rightarrow> bool" where
  "crawler_message x =
     (case x of Inl msg \<Rightarrow> True
      | Inr msg \<Rightarrow> (case unmarshal (dec_struct edge_fields) zero_edge (msg_value msg) of
          None \<Rightarrow> True | Some e \<Rightarrow> edge_relation e \<in> set worker_relations))"

lemma result_statement_cases:
  "result_statement v = None \<or> (\<exists>sid n. result_statement v = Some (node_query sid n))"
proof -
  have n: "\<exists>sid n. buildBookQuery s b = node_query sid n" "\<exists>sid n. buildWorkQuery s w = node_query sid n"
    "\<exists>sid n. buildAuthorQuery s a = node_query sid n" for s b w a
    by (metis node_query.simps(1), metis node_query.simps(2), metis node_query.simps(3))
  show ?thesis
    using n by (auto simp: result_statement_def writeResult_def note_statement_def writeBook_def writeWork_def
      writeAuthor_def runWrite_def split: option.splits sum.splits)
qed

lemma crawler_sound: "crawler_message x \<Longrightarrow> neo4j.sound (\<lambda>k. None) x"
proof (cases x)
  case (Inl msg)
  have "fst (runWrite (merge_tx (\<lambda>k. None)) (node_query sid n) g) = None" for sid n g
    by (simp add: runWrite_def merge_tx_def node_effect)
  with result_statement_cases [of "msg_value msg"] Inl show ?thesis
    unfolding neo4j.sound_def statement_of_def by (metis option.distinct(1) option.inject sum.simps(5))
next
  case (Inr msg)
  assume "crawler_message x"
  then show ?thesis
    using Inr by (auto simp: neo4j.sound_def statement_of_def edge_statement_def writeEdge_def note_statement_def
        crawler_message_def runWrite_def merge_tx_def edge_effect_pair split: option.splits)
qed

lemma named_edge:
  assumes "crawler_message (Inr msg)" and "unmarshal (dec_struct edge_fields) zero_edge (msg_value msg) = Some e"
    and "edge_from e \<noteq> []" and "edge_to e \<noteq> []"
  shows "Inr (link_of e) \<in> neo4j.named (Inr msg)"
  using assms edge_effect [of e]
  by (simp add: neo4j.named_def statement_of_def edge_statement_def writeEdge_def note_statement_def runWrite_def
      effect_elems_def crawler_message_def)

text \<open>The value a message of the crawler gives a property of a node.\<close>

definition message_sets :: "node_id \<Rightarrow> string \<Rightarrow> kafka_message + kafka_message \<Rightarrow> string option option" where
  "message_sets n k x = (case statement_of x of None \<Rightarrow> None | Some q \<Rightarrow> effect_sets q n k)"

lemma gives_message_sets: "neo4j.gives = message_sets"
  by (simp add: fun_eq_iff neo4j.gives_def message_sets_def)

text \<open>A published result gives its node the session and the texts it has, an edge gives none.\<close>

lemma published_sets:
  assumes "wf_node nd" and "small_node nd" and "valid_utf8 (job_session job)" and "valid_utf8 (job_url job)"
    and "NewCrawlResult job nd = Some payload" and "ID nd \<noteq> []" and "msg_value msg = payload"
  shows "message_sets n k (Inl msg) = (if n = node_id nd then map_option Some (node_sets (job_session job) nd k) else None)"
proof -
  have "result_statement payload = Some (node_query (job_session job) nd)"
    using writeResult_published [OF assms(1-5), where tx = note_statement and bad_json = "\<lambda>s. s" and g = None] assms(6)
    by (simp add: result_statement_def runWrite_def note_statement_def)
  then show ?thesis by (simp add: message_sets_def statement_of_def assms(7) node_effect_sets)
qed

lemma edge_sets: "crawler_message (Inr msg) \<Longrightarrow> message_sets n k (Inr msg) = None"
  by (auto simp: message_sets_def statement_of_def edge_statement_def writeEdge_def note_statement_def runWrite_def
      crawler_message_def edge_effect_sets_pair split: option.splits)

definition agree :: "(kafka_message + kafka_message) list \<Rightarrow> node_id \<Rightarrow> string \<Rightarrow> bool" where
  "agree ms n k \<longleftrightarrow> (\<forall>x \<in> set ms. \<forall>y \<in> set ms. \<forall>a b.
     message_sets n k x = Some a \<longrightarrow> message_sets n k y = Some b \<longrightarrow> a = b)"

text \<open>
  Claim C14. The graph converges. When two deliveries hold the same messages of the crawler, in
  whatever order, interleaving of the two topics and number of repetitions, both leave the same nodes
  and links, and the same value of every property on which the messages agree. In general a property
  has the value given by the last message that gives it one, and its old value when none does. Every
  edge with both ends becomes a link. Whichever transactions fail, a delivery takes no node and no
  link away and adds none but those of the messages.
\<close>

theorem graph_converges:
  assumes "set ms = set ms'" and "list_all crawler_message ms"
  shows "graph_elems (graph (graph_run bad_json (merge_tx (\<lambda>k. None)) committer ms s)) =
      graph_elems (graph (graph_run bad_json' (merge_tx (\<lambda>k. None)) committer' ms' s)) \<and>
    (\<forall>n k. node_prop (graph (graph_run bad_json (merge_tx (\<lambda>k. None)) committer ms s)) n k =
        override (node_prop (graph s) n k) (last_some (message_sets n k) ms)) \<and>
    (\<forall>n k. agree ms n k \<longrightarrow>
        node_prop (graph (graph_run bad_json (merge_tx (\<lambda>k. None)) committer ms s)) n k =
        node_prop (graph (graph_run bad_json' (merge_tx (\<lambda>k. None)) committer' ms' s)) n k) \<and>
    graph_elems (graph s) \<subseteq> graph_elems (graph (graph_run bad_json (merge_tx faults) committer ms s)) \<and>
    graph_elems (graph (graph_run bad_json (merge_tx faults) committer ms s)) \<subseteq>
      graph_elems (graph (graph_run bad_json (merge_tx (\<lambda>k. None)) committer ms s)) \<and>
    (\<forall>msg e. Inr msg \<in> set ms \<and> unmarshal (dec_struct edge_fields) zero_edge (msg_value msg) = Some e \<and>
        edge_from e \<noteq> [] \<and> edge_to e \<noteq> [] \<longrightarrow>
      Inr (link_of e) \<in> graph_elems (graph (graph_run bad_json (merge_tx (\<lambda>k. None)) committer ms s)))"
proof -
  have snd: "list_all (neo4j.sound (\<lambda>k. None)) ms" "list_all (neo4j.sound (\<lambda>k. None)) ms'"
    using assms crawler_sound by (auto simp: list_all_iff)
  note all = neo4j.run_elems [OF snd(1), of bad_json committer s] neo4j.run_elems [OF snd(2), of bad_json' committer' s]
  note props = neo4j.run_props [OF snd(1), of bad_json committer s, unfolded gives_message_sets]
    neo4j.run_props [OF snd(2), of bad_json' committer' s, unfolded gives_message_sets]
  have elems: "graph_elems (graph (graph_run bad_json (merge_tx (\<lambda>k. None)) committer ms s)) =
      graph_elems (graph (graph_run bad_json' (merge_tx (\<lambda>k. None)) committer' ms' s))"
    unfolding all assms(1) ..
  have between: "graph_elems (graph s) \<subseteq> graph_elems (graph (graph_run bad_json (merge_tx faults) committer ms s)) \<and>
    graph_elems (graph (graph_run bad_json (merge_tx faults) committer ms s)) \<subseteq>
      graph_elems (graph (graph_run bad_json (merge_tx (\<lambda>k. None)) committer ms s))"
    using neo4j.run_between [of s bad_json faults committer ms] unfolding all .
  have last: "last_some (message_sets n k) ms = last_some (message_sets n k) ms'" if "agree ms n k" for n k
    by (rule last_some_agree [OF assms(1)]) (use that in \<open>unfold agree_def, blast\<close>)
  have links: "Inr (link_of e) \<in> graph_elems (graph (graph_run bad_json (merge_tx (\<lambda>k. None)) committer ms s))"
    if "Inr msg \<in> set ms" "unmarshal (dec_struct edge_fields) zero_edge (msg_value msg) = Some e"
      "edge_from e \<noteq> []" "edge_to e \<noteq> []" for msg e
    using named_edge [of msg e] that assms(2) unfolding all by (auto simp: list_all_iff)
  show ?thesis
    by (intro conjI allI impI) (use elems between links last in \<open>auto simp: props\<close>)
qed

text \<open>The session of a node is that of the last result for it, so it does depend on the order.\<close>

lemma last_some_snoc: "last_some f (xs @ [x]) = (case f x of None \<Rightarrow> last_some f xs | Some v \<Rightarrow> Some v)"
  by (induction xs) (auto split: option.splits)

lemma session_of_last_result:
  assumes "list_all crawler_message ms"
    and "wf_node nd" and "small_node nd" and "valid_utf8 (job_session job)" and "valid_utf8 (job_url job)"
    and "NewCrawlResult job nd = Some payload" and "ID nd \<noteq> []" and "msg_value msg = payload"
  shows "node_prop (graph (graph_run bad_json (merge_tx (\<lambda>k. None)) committer (ms @ [Inl msg]) s))
    (node_id nd) ''session_id'' = Some (job_session job)"
proof -
  have "list_all (neo4j.sound (\<lambda>k. None)) (ms @ [Inl msg])"
    using assms(1) crawler_sound by (auto simp: list_all_iff crawler_message_def)
  moreover have "node_sets (job_session job) nd ''session_id'' = Some (job_session job)"
    by (cases nd) (simp_all add: node_sets_def)
  ultimately show ?thesis
    by (simp add: neo4j.run_props gives_message_sets last_some_snoc published_sets [OF assms(2-8)])
qed

definition empty_graph :: "merge_graph graph_writer" where
  "empty_graph = \<lparr>results = \<lparr>received = 0, failed = 0, written = 0\<rparr>,
     edges = \<lparr>received = 0, failed = 0, written = 0\<rparr>,
     graph = \<lparr>node_map = (\<lambda>n. None), link_set = {}, tx_calls = 0\<rparr>, commits = []\<rparr>"

theorem graph_converges_witness:
  "\<exists>v. marshal enc_edge sample_edge = Some v \<and>
    Inr ((''Work'', ''/works/OL1W''), ''WORK_SUBJECT'', (''Subject'', ''sand''), ''s'') \<in>
      graph_elems (graph (graph_run (\<lambda>s. s) (merge_tx (\<lambda>k. None)) (\<lambda>k. None)
        [Inr (message_at 0 v), Inl (message_at 0 []), Inr (message_at 0 v)] empty_graph))"
proof -
  obtain v where v: "marshal enc_edge sample_edge = Some v" by (simp add: marshal_def enc_edge_def)
  have "wf_edge sample_edge" by (simp add: wf_edge_def sample_edge_def valid_utf8_ascii is_ascii_def)
  with edge.marshal_ok [of sample_edge] v
  have u: "unmarshal (dec_struct edge_fields) zero_edge v = Some sample_edge" by auto
  have k: "list_all crawler_message [Inr (message_at 0 v), Inl (message_at 0 []), Inr (message_at 0 v)]"
    by (simp add: crawler_message_def message_at_def new_message_def u) (simp add: sample_edge_def worker_relations_def)
  have l: "link_of sample_edge = ((''Work'', ''/works/OL1W''), ''WORK_SUBJECT'', (''Subject'', ''sand''), ''s'')"
    by (simp add: link_of_def sample_edge_def nodeLabel_def relationType_def trim_prefix_def)
  from graph_converges [OF refl k, of "\<lambda>s. s" "\<lambda>k. None" empty_graph] u
  have "Inr (link_of sample_edge) \<in> graph_elems (graph (graph_run (\<lambda>s. s) (merge_tx (\<lambda>k. None)) (\<lambda>k. None)
        [Inr (message_at 0 v), Inl (message_at 0 []), Inr (message_at 0 v)] empty_graph))"
    by (simp add: message_at_def new_message_def sample_edge_def del: graph_run.simps)
  with v show ?thesis unfolding l by blast
qed

end
