(* ===== verification/Api_Concurrent.thy ===== *)
theory Api_Concurrent
  imports Api
begin

text \<open>
  The API server with requests in flight: \<open>net/http\<close> runs every handler in a goroutine of its own, so
  the readings of the clock, \<open>WriteJob\<close> and \<open>SetStatus\<close> of different requests interleave. A handler
  run alone is \<open>handleCrawl\<close>; in company its answer still means what it says.
\<close>

section \<open>A handler in steps\<close>

text \<open>Where \<open>handleCrawl\<close> is: before its checks; with its session id and URL; with status and job made;
  with the job written; done.\<close>

datatype stage =
    Arrived
  | Named string string
  | Ready crawl_status crawl_job
  | Enqueued crawl_status
  | Answered http_response

definition seed_of :: "http_call \<Rightarrow> string" where
  "seed_of r = trim_space (query_get (call_query r) ''url'')"

fun advance ::
  "(nat \<Rightarrow> go_time) \<Rightarrow> (go_time \<Rightarrow> crawl_job \<Rightarrow> 'p act) \<Rightarrow> (crawl_status \<Rightarrow> 's act) \<Rightarrow> http_call \<Rightarrow>
   stage \<Rightarrow> ('p, 's) server \<Rightarrow> stage \<times> ('p, 's) server" where
  "advance clk write_job set_status r Arrived a =
     (if call_method r \<noteq> ''POST'' then (Answered (http_error ''method not allowed'' 405), a)
      else if seed_of r = [] then (Answered (http_error ''missing url'' 400), a)
      else (Named (newSessionID (clk (ticks a))) (normalizeSeedURL (seed_of r)), a\<lparr>ticks := ticks a + 1\<rparr>))"
| "advance clk write_job set_status r (Named sid url) a =
     (Ready (queued_status sid url (clk (ticks a))) (seed_job sid url (clk (ticks a))), a\<lparr>ticks := ticks a + 1\<rparr>)"
| "advance clk write_job set_status r (Ready st job) a =
     (case write_job (clk (ticks a)) job (prod a) of
        (Some e, p) \<Rightarrow> (Answered (http_error ''failed to enqueue job'' 502), a\<lparr>ticks := ticks a + 1, prod := p\<rparr>)
      | (None, p) \<Rightarrow> (Enqueued st, a\<lparr>ticks := ticks a + 1, prod := p\<rparr>))"
| "advance clk write_job set_status r (Enqueued st) a =
     (case set_status st (store a) of
        (Some e, d) \<Rightarrow> (Answered (http_error ''failed to persist status'' 502), a\<lparr>store := d\<rparr>)
      | (None, d) \<Rightarrow> (Answered (writeJSON (marshal enc_status st) 202), a\<lparr>store := d\<rparr>))"
| "advance clk write_job set_status r (Answered resp) a = (Answered resp, a)"

fun advance_n ::
  "nat \<Rightarrow> (nat \<Rightarrow> go_time) \<Rightarrow> (go_time \<Rightarrow> crawl_job \<Rightarrow> 'p act) \<Rightarrow> (crawl_status \<Rightarrow> 's act) \<Rightarrow> http_call \<Rightarrow>
   stage \<times> ('p, 's) server \<Rightarrow> stage \<times> ('p, 's) server" where
  "advance_n 0 clk write_job set_status r x = x"
| "advance_n (Suc n) clk write_job set_status r (g, a) =
     advance_n n clk write_job set_status r (advance clk write_job set_status r g a)"

section \<open>Requests in flight\<close>

text \<open>A request with its stage and, as ghosts, the tick its session id was read at and its status.\<close>

record flight =
  fl_call :: http_call
  fl_stage :: stage
  fl_tick :: "nat option"
  fl_status :: "crawl_status option"

record ('p, 's) busy_server =
  core :: "('p, 's) server"
  flights :: "flight list"

definition arrive :: "http_call \<Rightarrow> flight" where
  "arrive r = \<lparr>fl_call = r, fl_stage = Arrived, fl_tick = None, fl_status = None\<rparr>"

definition move ::
  "(nat \<Rightarrow> go_time) \<Rightarrow> (go_time \<Rightarrow> crawl_job \<Rightarrow> 'p act) \<Rightarrow> (crawl_status \<Rightarrow> 's act) \<Rightarrow> nat \<Rightarrow>
   ('p, 's) busy_server \<Rightarrow> ('p, 's) busy_server" where
  "move clk write_job set_status i s =
     (let f = flights s ! i;
          (g, a) = advance clk write_job set_status (fl_call f) (fl_stage f) (core s)
      in s\<lparr>core := a, flights := (flights s)[i := f\<lparr>fl_stage := g,
             fl_tick := (case g of Named sid url \<Rightarrow> Some (ticks (core s)) | _ \<Rightarrow> fl_tick f),
             fl_status := (case g of Ready st job \<Rightarrow> Some st | _ \<Rightarrow> fl_status f)\<rparr>]\<rparr>)"

text \<open>The other two handlers make one call of the store, or none; they are one step.\<close>

inductive busy ::
  "(nat \<Rightarrow> go_time) \<Rightarrow> (go_time \<Rightarrow> crawl_job \<Rightarrow> 'p act) \<Rightarrow> (crawl_status \<Rightarrow> 's act) \<Rightarrow>
   (string \<Rightarrow> 's \<Rightarrow> (go_error + crawl_status option) \<times> 's) \<Rightarrow> ('p, 's) server \<Rightarrow> ('p, 's) busy_server \<Rightarrow> bool"
  for clk :: "nat \<Rightarrow> go_time" and write_job :: "go_time \<Rightarrow> crawl_job \<Rightarrow> 'p act" and set_status :: "crawl_status \<Rightarrow> 's act"
    and get_status :: "string \<Rightarrow> 's \<Rightarrow> (go_error + crawl_status option) \<times> 's" and a :: "('p, 's) server" where
  busy_start: "busy clk write_job set_status get_status a \<lparr>core = a, flights = []\<rparr>"
| busy_request: "busy clk write_job set_status get_status a s \<Longrightarrow>
    busy clk write_job set_status get_status a (s\<lparr>flights := flights s @ [arrive r]\<rparr>)"
| busy_move: "busy clk write_job set_status get_status a s \<Longrightarrow> i < length (flights s) \<Longrightarrow>
    busy clk write_job set_status get_status a (move clk write_job set_status i s)"
| busy_lookup: "busy clk write_job set_status get_status a s \<Longrightarrow>
    busy clk write_job set_status get_status a (s\<lparr>core := snd (handleCrawlStatus get_status r (core s))\<rparr>)"

section \<open>One handler alone\<close>

text \<open>
  The steps are the handler: run alone from its arrival, four steps of a request give the
  answer of \<open>handleCrawl\<close> and leave the server as it does, on every branch.
\<close>

lemma advance_alone:
  "advance_n 4 clk write_job set_status r (Arrived, a) =
     (Answered (fst (handleCrawl clk write_job set_status r a)), snd (handleCrawl clk write_job set_status r a))"
  by (auto simp: handleCrawl_def seed_of_def numeral_eq_Suc Let_def split: prod.splits option.splits)

section \<open>What is true of every request in flight\<close>

abbreviation url_of :: "flight \<Rightarrow> string" where
  "url_of f \<equiv> normalizeSeedURL (seed_of (fl_call f))"

abbreviation after_tick :: "(nat \<Rightarrow> go_time) \<Rightarrow> nat \<Rightarrow> flight \<Rightarrow> nat \<Rightarrow> nat \<Rightarrow> crawl_status \<Rightarrow> bool" where
  "after_tick clk m f n k st \<equiv> fl_tick f = Some n \<and> n < m \<and> k < m \<and> fl_status f = Some st \<and>
     st = queued_status (newSessionID (clk n)) (url_of f) (clk k)"

context api_backend
begin

definition job_queued :: "'p \<Rightarrow> crawl_job \<Rightarrow> bool" where
  "job_queued p job \<longleftrightarrow>
     (\<exists>msg \<in> set (queued p). unmarshal (dec_struct job_fields) zero_job (msg_value msg) = Some job)"

definition flight_ok :: "(nat \<Rightarrow> go_time) \<Rightarrow> ('p, 's) server \<Rightarrow> flight \<Rightarrow> bool" where
  "flight_ok clk a f \<longleftrightarrow>
     (case fl_stage f of
        Arrived \<Rightarrow> True
      | Named sid url \<Rightarrow> (\<exists>n. fl_tick f = Some n \<and> n < ticks a \<and> sid = newSessionID (clk n) \<and> url = url_of f)
      | Ready st job \<Rightarrow> (\<exists>n k. after_tick clk (ticks a) f n k st \<and> job = seed_job (newSessionID (clk n)) (url_of f) (clk k))
      | Enqueued st \<Rightarrow> (\<exists>n k. after_tick clk (ticks a) f n k st \<and>
          (valid_utf8 (url_of f) \<longrightarrow> job_queued (prod a) (seed_job (newSessionID (clk n)) (url_of f) (clk k))))
      | Answered resp \<Rightarrow> resp_status resp = 202 \<longrightarrow>
          (\<exists>n k st. after_tick clk (ticks a) f n k st \<and> resp = writeJSON (marshal enc_status st) 202 \<and>
            (valid_utf8 (url_of f) \<longrightarrow> job_queued (prod a) (seed_job (newSessionID (clk n)) (url_of f) (clk k)) \<and>
              knows (store a) (newSessionID (clk n)) st)))"

lemma job_queued_mono: "job_queued p job \<Longrightarrow> set (queued p) \<subseteq> set (queued p') \<Longrightarrow> job_queued p' job"
  by (auto simp: job_queued_def)

lemma flight_ok_mono:
  assumes "flight_ok clk a f" and "ticks a \<le> ticks a'" and "set (queued (prod a)) \<subseteq> set (queued (prod a'))"
    and "\<And>n x. fl_tick f = Some n \<Longrightarrow> knows (store a) (newSessionID (clk n)) x \<Longrightarrow> knows (store a') (newSessionID (clk n)) x"
  shows "flight_ok clk a' f"
  using assms(1)
proof (cases "fl_stage f")
  case (Answered resp)
  show ?thesis
  proof (cases "resp_status resp = 202")
    case True
    with Answered assms(1) obtain n k st where f: "after_tick clk (ticks a) f n k st"
      "resp = writeJSON (marshal enc_status st) 202"
      "valid_utf8 (url_of f) \<longrightarrow> job_queued (prod a) (seed_job (newSessionID (clk n)) (url_of f) (clk k)) \<and>
        knows (store a) (newSessionID (clk n)) st"
      unfolding flight_ok_def by auto
    with assms(2,4) job_queued_mono [OF _ assms(3)] have "after_tick clk (ticks a') f n k st"
      "valid_utf8 (url_of f) \<longrightarrow> job_queued (prod a') (seed_job (newSessionID (clk n)) (url_of f) (clk k)) \<and>
        knows (store a') (newSessionID (clk n)) st" by auto
    with Answered f(2) show ?thesis unfolding flight_ok_def by (simp only: stage.case) blast
  next
    case False
    with Answered show ?thesis by (simp add: flight_ok_def)
  qed
qed (use assms(1,2) in \<open>auto simp: flight_ok_def intro: less_le_trans job_queued_mono [OF _ assms(3)]\<close>)

lemma write_job_queue:
  assumes "write_job t job p = (r, p')"
  shows "set (queued p) \<subseteq> set (queued p')"
  using job_ok [of t job p p'] job_err [of t job p _ p'] assms by (cases r) auto

text \<open>What a step of one handler does to the server.\<close>

lemma advance_effect:
  assumes "advance clk write_job set_status r g a = (g', a')"
  shows "ticks a \<le> ticks a' \<and> set (queued (prod a)) \<subseteq> set (queued (prod a')) \<and>
    (\<forall>sid x. knows (store a) sid x \<longrightarrow> (\<forall>st. g = Enqueued st \<longrightarrow> status_session st \<noteq> sid) \<longrightarrow> knows (store a') sid x)"
  using assms
  by (cases g) (auto split: if_splits prod.splits option.splits dest: write_job_queue [THEN subsetD] intro: set_other)

text \<open>The step keeps what is true of its own request.\<close>

lemma advance_flight_ok:
  assumes ok: "flight_ok clk a f" and adv: "advance clk write_job set_status (fl_call f) (fl_stage f) a = (g, a')"
    and wf: "\<And>n. n < ticks a' \<Longrightarrow> wf_time (clk n)"
    and tick: "t = (case g of Named sid url \<Rightarrow> Some (ticks a) | _ \<Rightarrow> fl_tick f)"
    and st: "x = (case g of Ready st job \<Rightarrow> Some st | _ \<Rightarrow> fl_status f)"
  shows "flight_ok clk a' (f\<lparr>fl_stage := g, fl_tick := t, fl_status := x\<rparr>)"
proof (cases "fl_stage f")
  case Arrived
  with adv tick st show ?thesis by (auto simp: flight_ok_def http_error_def split: if_splits)
next
  case (Named sid url)
  with ok adv tick st show ?thesis by (auto simp: flight_ok_def)
next
  case (Ready s job)
  with ok obtain n k where r: "after_tick clk (ticks a) f n k s" "job = seed_job (newSessionID (clk n)) (url_of f) (clk k)"
    by (auto simp: flight_ok_def)
  obtain e p where w: "write_job (clk (ticks a)) job (prod a) = (e, p)" by fastforce
  show ?thesis
  proof (cases e)
    case None
    have q: "job_queued p job" if "valid_utf8 (url_of f)"
    proof -
      have "valid_utf8 (newSessionID (clk n))" by (intro valid_utf8_ascii digits_ascii newSessionID_digits)
      moreover have "wf_time (clk k)" using r(1) adv Ready w None by (intro wf) auto
      ultimately have "wf_job job" using that by (simp add: r(2) wf_job_def seed_job_def in_int64_iff)
      from accepted_job_reads [OF this w [unfolded None]] show ?thesis by (auto simp: job_queued_def)
    qed
    have g: "g = Enqueued s" "a' = a\<lparr>ticks := ticks a + 1, prod := p\<rparr>"
      using adv Ready w None by simp_all
    from r q show ?thesis unfolding flight_ok_def g tick st by (simp, intro exI [of _ k], simp)
  next
    case (Some e')
    with Ready adv w tick st show ?thesis by (auto simp: flight_ok_def http_error_def)
  qed
next
  case (Enqueued s)
  with ok obtain n k where r: "after_tick clk (ticks a) f n k s"
    "valid_utf8 (url_of f) \<longrightarrow> job_queued (prod a) (seed_job (newSessionID (clk n)) (url_of f) (clk k))"
    by (auto simp: flight_ok_def)
  obtain e d where w: "set_status s (store a) = (e, d)" by fastforce
  show ?thesis
  proof (cases e)
    case None
    have kn: "knows d (newSessionID (clk n)) s" if "valid_utf8 (url_of f)"
    proof -
      have "valid_utf8 (newSessionID (clk n))" by (intro valid_utf8_ascii digits_ascii newSessionID_digits)
      moreover have "wf_time (clk k)" using r(1) adv Enqueued w None by (intro wf) auto
      ultimately have "wf_status s" using that r(1)
        by (auto simp: wf_status_def queued_status_def valid_utf8_ascii is_ascii_def)
      from set_knows [OF this w [unfolded None]] r(1) show ?thesis by (simp add: queued_status_def)
    qed
    have g: "g = Answered (writeJSON (marshal enc_status s) 202)" "a' = a\<lparr>store := d\<rparr>"
      using adv Enqueued w None by simp_all
    from r kn show ?thesis unfolding flight_ok_def g tick st by (simp, blast)
  next
    case (Some e')
    with Enqueued adv w tick st show ?thesis by (auto simp: flight_ok_def http_error_def)
  qed
next
  case (Answered resp)
  with adv have g: "g = Answered resp" "a' = a" by simp_all
  from ok Answered show ?thesis unfolding flight_ok_def g tick st by simp
qed

text \<open>No two requests read their session id at the same tick.\<close>

definition flights_ok :: "(nat \<Rightarrow> go_time) \<Rightarrow> ('p, 's) busy_server \<Rightarrow> bool" where
  "flights_ok clk s \<longleftrightarrow> list_all (flight_ok clk (core s)) (flights s) \<and>
     (\<forall>f \<in> set (flights s). \<forall>n. fl_tick f = Some n \<longrightarrow> n < ticks (core s)) \<and>
     (\<forall>i j n. i < length (flights s) \<longrightarrow> j < length (flights s) \<longrightarrow>
        fl_tick (flights s ! i) = Some n \<longrightarrow> fl_tick (flights s ! j) = Some n \<longrightarrow> i = j)"

lemma lookup_ok:
  assumes "flights_ok clk s"
  shows "flights_ok clk (s\<lparr>core := snd (handleCrawlStatus get_status r (core s))\<rparr>)"
proof -
  have tk: "ticks (snd (handleCrawlStatus get_status r (core s))) = ticks (core s)"
    and "prod (snd (handleCrawlStatus get_status r (core s))) = prod (core s)"
    by (auto simp: handleCrawlStatus_def Let_def split: prod.splits sum.splits option.splits)
  moreover have "knows (store (core s)) sid x \<Longrightarrow> knows (store (snd (handleCrawlStatus get_status r (core s)))) sid x" for sid x
    by (auto simp: handleCrawlStatus_def Let_def split: prod.splits sum.splits option.splits intro: get_keeps)
  ultimately have "flight_ok clk (core s) f \<Longrightarrow> flight_ok clk (snd (handleCrawlStatus get_status r (core s))) f" for f
    by (auto intro: flight_ok_mono)
  with assms tk show ?thesis by (auto simp: flights_ok_def list_all_iff)
qed

lemma request_ok: "flights_ok clk s \<Longrightarrow> flights_ok clk (s\<lparr>flights := flights s @ [arrive r]\<rparr>)"
  by (auto simp: flights_ok_def arrive_def flight_ok_def nth_append split: if_splits)

text \<open>A moving request does not touch the session of another one.\<close>

lemma move_ok:
  assumes ok: "flights_ok clk s" and i: "i < length (flights s)"
    and inj: "inj_on clk {..<ticks (core (move clk write_job set_status i s))}"
    and wf: "\<And>n. n < ticks (core (move clk write_job set_status i s)) \<Longrightarrow> wf_time (clk n)"
  shows "flights_ok clk (move clk write_job set_status i s)"
proof -
  let ?f = "flights s ! i"
  obtain g a where adv: "advance clk write_job set_status (fl_call ?f) (fl_stage ?f) (core s) = (g, a)" by fastforce
  define t where "t = (case g of Named sid url \<Rightarrow> Some (ticks (core s)) | _ \<Rightarrow> fl_tick ?f)"
  define f' where "f' = ?f\<lparr>fl_stage := g, fl_tick := t,
    fl_status := (case g of Ready st job \<Rightarrow> Some st | _ \<Rightarrow> fl_status ?f)\<rparr>"
  have mv: "move clk write_job set_status i s = s\<lparr>core := a, flights := (flights s)[i := f']\<rparr>"
    by (simp add: move_def adv f'_def t_def Let_def)
  note eff = advance_effect [OF adv]
  have bound: "fl_tick (flights s ! j) = Some n \<Longrightarrow> n < ticks (core s)" if "j < length (flights s)" for j n
    using ok that unfolding flights_ok_def by (meson nth_mem)
  have uniq: "fl_tick (flights s ! j) = Some n \<Longrightarrow> fl_tick (flights s ! k) = Some n \<Longrightarrow> j = k"
    if "j < length (flights s)" "k < length (flights s)" for j k n
    using ok that unfolding flights_ok_def by blast
  have okf: "flight_ok clk (core s) ?f" using ok i by (simp add: flights_ok_def list_all_length)
  have 1: "flight_ok clk a f'"
    unfolding f'_def by (rule advance_flight_ok [OF okf adv _ t_def refl]) (simp add: wf mv)
  have 2: "flight_ok clk a (flights s ! j)" if j: "j < length (flights s)" "j \<noteq> i" for j
  proof (rule flight_ok_mono)
    show "flight_ok clk (core s) (flights s ! j)" using ok j by (simp add: flights_ok_def list_all_length)
    fix n x
    assume n: "fl_tick (flights s ! j) = Some n" and k: "knows (store (core s)) (newSessionID (clk n)) x"
    have "status_session st \<noteq> newSessionID (clk n)" if st: "fl_stage ?f = Enqueued st" for st
    proof
      assume eq: "status_session st = newSessionID (clk n)"
      from okf st obtain m where m: "fl_tick ?f = Some m" "status_session st = newSessionID (clk m)"
        by (auto simp: flight_ok_def queued_status_def)
      from bound [OF i m(1)] bound [OF j(1) n] eff have mn: "m < ticks a" "n < ticks a" by auto
      with newSessionID_inj [of "clk m" "clk n"] eq m(2) wf have "clk m = clk n" by (simp add: mv)
      with inj mn have "m = n" by (auto simp: inj_on_def mv)
      with uniq [OF j(1) i n] m(1) j(2) show False by simp
    qed
    with eff k show "knows (store a) (newSessionID (clk n)) x" by blast
  qed (use eff in simp_all)
  have 3: "t = fl_tick ?f \<or> (t = Some (ticks (core s)) \<and> ticks a = ticks (core s) + 1)"
    using adv by (cases "fl_stage ?f") (auto simp: t_def split: if_splits prod.splits option.splits stage.split)
  have "list_all (flight_ok clk a) ((flights s)[i := f'])"
    using 1 2 i by (auto simp: list_all_length nth_list_update)
  moreover have "n < ticks a" if "f \<in> set ((flights s)[i := f'])" "fl_tick f = Some n" for f n
  proof -
    from that(1) obtain j where j: "j < length (flights s)" "f = (flights s)[i := f'] ! j" by (auto simp: in_set_conv_nth)
    show ?thesis
    proof (cases "j = i")
      case True
      with j that(2) i have "t = Some n" by (simp add: f'_def)
      with 3 bound [OF i, of n] eff show ?thesis by auto
    next
      case False
      with j that(2) bound [OF j(1)] eff show ?thesis by auto
    qed
  qed
  moreover have "j = k" if jk: "j < length (flights s)" "k < length (flights s)"
      and n: "fl_tick ((flights s)[i := f'] ! j) = Some n" "fl_tick ((flights s)[i := f'] ! k) = Some n" for j k n
  proof (cases "t = fl_tick ?f")
    case True
    with n have "fl_tick (flights s ! j) = Some n" "fl_tick (flights s ! k) = Some n"
      using i by (auto simp: nth_list_update f'_def split: if_splits)
    with uniq [OF jk] show ?thesis by blast
  next
    case False
    with 3 have t: "t = Some (ticks (core s))" by simp
    have "l = i" if "l < length (flights s)" "fl_tick ((flights s)[i := f'] ! l) = Some (ticks (core s))" for l
      using that bound [OF that(1)] by (cases "l = i") auto
    moreover have "n = ticks (core s)" if "j = i \<or> k = i"
      using that n i t by (auto simp: f'_def)
    ultimately show ?thesis
      using jk n uniq [OF jk] by (cases "j = i \<or> k = i") auto
  qed
  ultimately show ?thesis unfolding mv flights_ok_def by simp
qed

lemma ticks_mono: "ticks (core s) \<le> ticks (core (move clk write_job set_status i s))"
  using advance_effect [of clk "fl_call (flights s ! i)" "fl_stage (flights s ! i)" "core s"]
  by (auto simp: move_def Let_def split: prod.splits)

lemma lookup_ticks: "ticks (snd (handleCrawlStatus get_status r a)) = ticks a"
  by (auto simp: handleCrawlStatus_def Let_def split: prod.splits sum.splits option.splits)

theorem busy_flights_ok:
  assumes "busy clk write_job set_status get_status a s"
    and "inj_on clk {..<ticks (core s)}" and "\<And>n. n < ticks (core s) \<Longrightarrow> wf_time (clk n)"
  shows "flights_ok clk s"
  using assms
proof (induction rule: busy.induct)
  case busy_start
  then show ?case by (simp add: flights_ok_def)
next
  case (busy_request s r)
  then show ?case by (auto intro: request_ok)
next
  case (busy_move s i)
  have "inj_on clk {..<ticks (core s)}"
    using busy_move.prems(1) by (rule inj_on_subset) (use ticks_mono [of s clk i] in auto)
  moreover have "wf_time (clk n)" if "n < ticks (core s)" for n
    using that ticks_mono [of s clk i] by (intro busy_move.prems(2)) simp
  ultimately have "flights_ok clk s" by (rule busy_move.IH)
  then show ?case by (rule move_ok) (use busy_move in auto)
next
  case (busy_lookup s r)
  then show ?case by (intro lookup_ok) (simp add: lookup_ticks)
qed

lemma answered_in_company:
  assumes "busy clk write_job set_status get_status a s"
    and "inj_on clk {..<ticks (core s)}" and "\<And>n. n < ticks (core s) \<Longrightarrow> wf_time (clk n)"
    and "f \<in> set (flights s)" "fl_stage f = Answered resp" "resp_status resp = 202" "valid_utf8 (url_of f)"
  shows "\<exists>n k. k < ticks (core s) \<and>
    resp = writeJSON (marshal enc_status (queued_status (newSessionID (clk n)) (url_of f) (clk k))) 202 \<and>
    (\<exists>msg \<in> set (queued (prod (core s))). unmarshal (dec_struct job_fields) zero_job (msg_value msg) =
       Some (seed_job (newSessionID (clk n)) (url_of f) (clk k))) \<and>
    (\<forall>q. fst (handleCrawlStatus get_status
        \<lparr>call_method = ''GET'', call_path = ''/crawl/'' @ newSessionID (clk n), call_query = q\<rparr> (core s))
      \<in> {resp\<lparr>resp_status := 200\<rparr>, http_error ''failed to load status'' 502})"
proof -
  have "flight_ok clk (core s) f"
    using busy_flights_ok [OF assms(1-3)] assms(4) by (simp add: flights_ok_def list_all_iff)
  with assms(5-) obtain n k st where k: "k < ticks (core s)" "st = queued_status (newSessionID (clk n)) (url_of f) (clk k)"
    "resp = writeJSON (marshal enc_status st) 202"
    "job_queued (prod (core s)) (seed_job (newSessionID (clk n)) (url_of f) (clk k))"
    and kn: "knows (store (core s)) (newSessionID (clk n)) st"
    unfolding flight_ok_def by auto
  have "fst (handleCrawlStatus get_status
        \<lparr>call_method = ''GET'', call_path = ''/crawl/'' @ newSessionID (clk n), call_query = q\<rparr> (core s))
      \<in> {resp\<lparr>resp_status := 200\<rparr>, http_error ''failed to load status'' 502}" for q
    using status_request [OF kn prod.collapse [symmetric], of q] by (auto simp: k(3) writeJSON_def)
  with k show ?thesis by (auto simp: job_queued_def)
qed

end

section \<open>Accepted in company\<close>


lemma moves_are_advance_n:
  assumes "busy clk wj ss gs a s" and "i < length (flights s)"
  shows "\<exists>t. busy clk wj ss gs a t \<and> i < length (flights t) \<and> fl_call (flights t ! i) = fl_call (flights s ! i) \<and>
    advance_n n clk wj ss (fl_call (flights s ! i)) (fl_stage (flights s ! i), core s) = (fl_stage (flights t ! i), core t)"
  using assms
proof (induction n arbitrary: s)
  case 0
  then show ?case by auto
next
  case (Suc n)
  let ?s = "move clk wj ss i s"
  have "busy clk wj ss gs a ?s" by (rule busy_move [OF Suc.prems])
  moreover have "i < length (flights ?s)" "fl_call (flights ?s ! i) = fl_call (flights s ! i)"
    "advance clk wj ss (fl_call (flights s ! i)) (fl_stage (flights s ! i)) (core s) = (fl_stage (flights ?s ! i), core ?s)"
    using Suc.prems(2) by (simp_all add: move_def Let_def split: prod.split)
  ultimately show ?case using Suc.IH [of ?s] by simp
qed

text \<open>Two requests, the second of which reads the first session id and then waits.\<close>

abbreviation sample_busy :: "(broker_log, redis) busy_server \<Rightarrow> bool" where
  "sample_busy \<equiv> busy sample_clock (WriteJob (kafka_write (\<lambda>n. None)) (\<lambda>t. []))
     (SetStatus (redis_set (\<lambda>n. None)) (\<lambda>t. []) [] 86400000000000) (GetStatus (redis_get (\<lambda>n. None)) (\<lambda>s. []) []) sample_server"

lemma sample_two:
  "\<exists>s f. sample_busy s \<and> f \<in> set (flights s) \<and> fl_call f = sample_call \<and> ticks (core s) = 4 \<and>
     (\<exists>resp. fl_stage f = Answered resp \<and> resp_status resp = 202)"
proof -
  let ?a = "sample_server\<lparr>ticks := 1\<rparr>"
  obtain s where s: "sample_busy s" "length (flights s) = 2" "flights s ! 0 = arrive sample_call" "core s = ?a"
  proof -
    let ?r = "\<lambda>s :: (broker_log, redis) busy_server. s\<lparr>flights := flights s @ [arrive sample_call]\<rparr>"
    let ?s = "?r (?r \<lparr>core = sample_server, flights = []\<rparr>)"
    have "sample_busy ?s" by (intro busy_request busy_start)
    from busy_move [OF this, of 1] show thesis
      by (rule that) (use sample_seed(2) in \<open>simp_all add: move_def arrive_def Let_def seed_of_def sample_call_def sample_server_def\<close>)
  qed
  obtain resp b where c: "handleCrawl sample_clock (WriteJob (kafka_write (\<lambda>n. None)) (\<lambda>t. []))
      (SetStatus (redis_set (\<lambda>n. None)) (\<lambda>t. []) [] 86400000000000) sample_call ?a = (resp, b)" by fastforce
  have acc: "resp_status resp = 202 \<and> ticks b = ticks ?a + 3"
    by (rule handleCrawl_ok [OF _ refl sample_seed(2) reliable_calls c])
      (simp_all add: sample_call_def seed_job_def queued_status_def sample_server_def sample_clock_wf)
  have "advance_n 4 sample_clock (WriteJob (kafka_write (\<lambda>n. None)) (\<lambda>t. [])) (SetStatus (redis_set (\<lambda>n. None)) (\<lambda>t. []) [] 86400000000000)
      sample_call (Arrived, ?a) = (Answered resp, b)" by (simp only: advance_alone c fst_conv snd_conv)
  with moves_are_advance_n [OF s(1), of 0 4] s(2-4) obtain t where "sample_busy t" "0 < length (flights t)"
    "fl_call (flights t ! 0) = sample_call" "fl_stage (flights t ! 0) = Answered resp" "core t = b"
    by (auto simp: arrive_def)
  with acc show ?thesis by (intro exI [of _ t] exI [of _ "flights t ! 0"]) auto
qed


end
