(* ===== verification/Mains.thy ===== *)
theory Mains
  imports Worker_System Config Graph_Writer Loadgen
begin

text \<open>
  The \<open>main\<close> functions: what each opens, starts and closes, and how it ends. A deferred call runs when
  \<open>main\<close> returns or panics; \<open>log.Fatal\<close>, \<open>os.Exit\<close> and a panic in another goroutine skip it. The
  errors of \<open>Close\<close> and of the calls \<open>main\<close> makes itself are arguments.
\<close>

section \<open>Resources, events and deferred calls\<close>

datatype resource =
    Kafka_Reader string string string
  | Kafka_Writer string string
  | Redis_Client string
  | Neo4j_Driver string string string
  | Signal_Context
  | Deadline_Context int
  | Kafka_Conn string

datatype goroutine =
    Coordinator_Run nat
  | Metrics_Stopper
  | Metrics_Listener string
  | Consume_Results
  | Consume_Edges

datatype event =
    Opened resource
  | Closed resource
  | Logged string
  | Spawned goroutine
  | Serving string
  | Run_Entered worker
  | Jobs_Waited
  | Commits_Closed
  | Coordinator_Joined
  | Signal_Awaited

datatype outcome = Returned | Panicked | Exit_Status nat | Killed | Blocked

text \<open>A running \<open>main\<close>: what it did, and its deferred closes, the latest first, each with the text it
  logs before an error.\<close>

record frame =
  events :: "event list"
  deferred :: "(resource \<times> string option) list"

definition entry :: frame where
  "entry = \<lparr>events = [], deferred = []\<rparr>"

definition happen :: "event list \<Rightarrow> frame \<Rightarrow> frame" where
  "happen es f = f\<lparr>events := events f @ es\<rparr>"

text \<open>Opening a resource and deferring its close.\<close>

definition acquire :: "resource \<times> string option \<Rightarrow> frame \<Rightarrow> frame" where
  "acquire d f = (happen [Opened (fst d)] f)\<lparr>deferred := d # deferred f\<rparr>"

fun run_deferred :: "(resource \<Rightarrow> go_error option) \<Rightarrow> (resource \<times> string option) list \<Rightarrow> event list" where
  "run_deferred close_err [] = []"
| "run_deferred close_err ((r, note) # ds) =
     Closed r # (case (note, close_err r) of (Some n, Some e) \<Rightarrow> [Logged (n @ e)] | _ \<Rightarrow> []) @ run_deferred close_err ds"

definition leave :: "(resource \<Rightarrow> go_error option) \<Rightarrow> outcome \<Rightarrow> frame \<Rightarrow> event list \<times> outcome" where
  "leave close_err out f =
     (events f @ (if out = Returned \<or> out = Panicked then run_deferred close_err (deferred f) else []), out)"

section \<open>Constructors\<close>

record producer =
  prod_writer :: resource

definition NewProducer :: "string \<Rightarrow> string \<Rightarrow> producer" where
  "NewProducer addr topic = \<lparr>prod_writer = Kafka_Writer addr topic\<rparr>"

definition NewProducerWithWriter :: "resource \<Rightarrow> producer" where
  "NewProducerWithWriter w = \<lparr>prod_writer = w\<rparr>"

record redis_status_store =
  store_client :: resource
  store_prefix :: string
  store_ttl :: int

definition NewRedisStatusStore :: "string \<Rightarrow> string \<Rightarrow> int \<Rightarrow> redis_status_store" where
  "NewRedisStatusStore addr prefx life = \<lparr>store_client = Redis_Client addr, store_prefix = prefx, store_ttl = life\<rparr>"

definition newRedisStore :: "string \<Rightarrow> resource" where
  "newRedisStore addr = Redis_Client addr"

text \<open>\<open>startMetricsServer\<close> of the worker, the same function of the graph writer, and the bodies of their two
  goroutines.\<close>

definition startMetricsServer :: "string \<Rightarrow> frame \<Rightarrow> frame" where
  "startMetricsServer addr f = happen [Spawned Metrics_Stopper, Spawned (Metrics_Listener addr)] f"

definition graph_startMetricsServer :: "string \<Rightarrow> frame \<Rightarrow> frame" where
  "graph_startMetricsServer addr f = happen [Spawned Metrics_Stopper, Spawned (Metrics_Listener addr)] f"

definition metrics_stopper :: "go_error option \<Rightarrow> event list \<times> outcome" where
  "metrics_stopper shutdown =
     leave (\<lambda>r. None) Returned
       (happen (case shutdown of None \<Rightarrow> [] | Some e \<Rightarrow> [Logged (''metrics shutdown error: '' @ e)])
         (acquire (Deadline_Context (seconds 3), None) entry))"

definition errServerClosed :: go_error where
  "errServerClosed = ''http: Server closed''"

definition metrics_listener :: "string \<Rightarrow> go_error option \<Rightarrow> event list" where
  "metrics_listener addr served =
     Logged (''metrics listening on '' @ addr) # Serving addr #
     (case served of None \<Rightarrow> []
      | Some e \<Rightarrow> if e \<noteq> errServerClosed then [Logged (''metrics server error: '' @ e)] else [])"

section \<open>The worker\<close>

definition worker_resources :: "worker_config \<Rightarrow> (resource \<times> string option) list" where
  "worker_resources cfg =
     [(Kafka_Reader (cfg_broker cfg) (cfg_frontier_topic cfg) (cfg_group cfg), Some ''failed to close reader: ''),
      (newRedisStore (cfg_redis cfg), Some ''failed to close redis client: ''),
      (Kafka_Writer (cfg_broker cfg) (cfg_results_topic cfg), Some ''failed to close results writer: ''),
      (Kafka_Writer (cfg_broker cfg) (cfg_edges_topic cfg), Some ''failed to close edges writer: ''),
      (Kafka_Writer (cfg_broker cfg) (cfg_frontier_topic cfg), Some ''failed to close frontier writer: ''),
      (Kafka_Writer (cfg_broker cfg) (cfg_dlq_topic cfg), Some ''failed to close dlq writer: ''),
      (Signal_Context, None)]"

definition worker_opened :: "worker_config \<Rightarrow> frame" where
  "worker_opened cfg =
     (let f = fold acquire (worker_resources cfg) entry
      in if cfg_metrics cfg \<noteq> [] then startMetricsServer (cfg_metrics cfg) f else f)"

definition robots_events :: "environment \<Rightarrow> go_error + string \<Rightarrow> event list" where
  "robots_events vars robotsBody =
     (if GetEnv vars ''RESPECT_ROBOTS_TXT'' [] = ''true'' \<or> GetEnv vars ''RESPECT_ROBOTS_TXT'' [] = ''1''
      then [Opened (Deadline_Context (seconds 15)), Closed (Deadline_Context (seconds 15)),
        Logged (case robotsBody of
            Inl e \<Rightarrow> ''robots.txt fetch failed (will allow all paths): '' @ e
          | Inr body \<Rightarrow> ''loaded Open Library robots.txt (paths disallowed by * will be skipped)'')]
      else [])"

definition worker_starts :: "environment \<Rightarrow> go_error + string \<Rightarrow> nat \<Rightarrow> worker \<Rightarrow> event list" where
  "worker_starts vars robotsBody capacity w =
     (let cfg = read_config vars in
      Spawned (Coordinator_Run capacity) # robots_events vars robotsBody @
      [Logged (''worker consuming topic='' @ cfg_frontier_topic cfg @ '' group='' @ cfg_group cfg @
         '' broker='' @ cfg_broker cfg @ '' concurrent_jobs='' @ itoa (cfg_concurrent cfg)),
       Run_Entered w])"

text \<open>
  \<open>p\<close> is the state the goroutines of \<open>Worker_Shutdown\<close> end in: \<open>main\<close> returns when it is past
  \<open>coordWg.Wait\<close> there, is killed when another goroutine panicked, and is blocked otherwise.
\<close>

definition worker_main ::
  "int \<Rightarrow> environment \<Rightarrow> go_error + string \<Rightarrow> (resource \<Rightarrow> go_error option) \<Rightarrow> process \<Rightarrow> event list \<times> outcome" where
  "worker_main limit vars robotsBody close_err p =
     (let cfg = read_config vars;
          f = worker_opened cfg
      in case start_worker limit vars robotsBody of
           None \<Rightarrow> leave close_err Panicked f
         | Some (capacity, w) \<Rightarrow>
             (let f = happen (worker_starts vars robotsBody capacity w) f
              in if panicked p then leave close_err Killed f
                 else if main_at p = Exited
                 then leave close_err Returned (happen [Jobs_Waited, Commits_Closed, Coordinator_Joined] f)
                 else leave close_err Blocked f))"

section \<open>The graph writer\<close>

definition graph_resources :: "environment \<Rightarrow> (resource \<times> string option) list" where
  "graph_resources vars =
     (let host = GetEnv vars ''KAFKA_BROKER'' ''localhost:9092'' in
     [(Neo4j_Driver (GetEnv vars ''NEO4J_URI'' ''neo4j://localhost:7687'')
         (GetEnv vars ''NEO4J_USER'' ''neo4j'') (GetEnv vars ''NEO4J_PASSWORD'' ''neo4j''),
       Some ''neo4j close error: ''),
      (Kafka_Reader host (GetEnv vars ''KAFKA_RESULTS_TOPIC'' ''relentless.crawl.results'')
         (GetEnv vars ''KAFKA_RESULTS_GROUP'' ''relentless-graph-results''), Some ''results reader close error: ''),
      (Kafka_Reader host (GetEnv vars ''KAFKA_EDGES_TOPIC'' ''relentless.graph.edges'')
         (GetEnv vars ''KAFKA_EDGES_GROUP'' ''relentless-graph-edges''), Some ''edges reader close error: ''),
      (Signal_Context, None)])"

text \<open>\<open>driver\<close> is the error of \<open>NewDriverWithContext\<close>; with a driver, \<open>main\<close> returns at the signal.\<close>

definition graph_main ::
  "environment \<Rightarrow> go_error option \<Rightarrow> (resource \<Rightarrow> go_error option) \<Rightarrow> event list \<times> outcome" where
  "graph_main vars driver close_err =
     (case driver of
        Some e \<Rightarrow> leave close_err (Exit_Status 1) (happen [Logged (''neo4j driver error: '' @ e)] entry)
      | None \<Rightarrow>
          (let f = fold acquire (graph_resources vars) entry;
               addr = GetEnv vars ''METRICS_ADDR'' '':9091'';
               f = (if addr \<noteq> [] then graph_startMetricsServer addr f else f)
           in leave close_err Returned (happen [Spawned Consume_Results, Spawned Consume_Edges, Signal_Awaited] f)))"

section \<open>The API server\<close>

definition api_producer :: "environment \<Rightarrow> producer" where
  "api_producer vars = NewProducer (GetEnv vars ''KAFKA_BROKER'' ''localhost:9092'')
     (GetEnv vars ''KAFKA_TOPIC'' ''relentless.crawl.frontier'')"

definition api_store :: "environment \<Rightarrow> redis_status_store" where
  "api_store vars = NewRedisStatusStore (GetEnv vars ''REDIS_ADDR'' ''localhost:6379'') ''crawl:status:'' (24 * minutes 60)"

definition api_main ::
  "environment \<Rightarrow> (string \<Rightarrow> go_error option) \<Rightarrow> (resource \<Rightarrow> go_error option) \<Rightarrow> event list \<times> outcome" where
  "api_main vars listen close_err =
     (let f = acquire (prod_writer (api_producer vars), Some ''failed to close producer: '') entry;
          f = acquire (store_client (api_store vars), Some ''failed to close status store: '') f;
          f = happen [Logged (''api listening on '' @ '':8080''), Serving '':8080''] f
      in case listen '':8080'' of
           Some e \<Rightarrow> leave close_err (Exit_Status 1) (happen [Logged e] f)
         | None \<Rightarrow> leave close_err Returned f)"

text \<open>
  The routes. A \<open>ServeMux\<close> sends a path that is not clean away to the clean one (unless it is a
  \<open>CONNECT\<close>); a pattern is matched exactly, and as a prefix when it ends in a slash, the longest first.
\<close>

definition api_routes :: "(string \<times> (http_call \<Rightarrow> api_request)) list" where
  "api_routes = [(''/crawl'', Crawl), (''/crawl/'', Crawl_Status), (''/metrics'', Metrics)]"

definition clean_path :: "string \<Rightarrow> bool" where
  "clean_path p \<longleftrightarrow> has_prefix p ''/'' \<and>
     (let segs = split_char (CHR ''/'') (List.tl p)
      in list_all (\<lambda>s. s \<noteq> ''.'' \<and> s \<noteq> ''..'') segs \<and> [] \<notin> set (butlast segs))"

definition mux_find :: "(string \<times> 'h) list \<Rightarrow> string \<Rightarrow> 'h option" where
  "mux_find pats p =
     (case map_of pats p of
        Some h \<Rightarrow> Some h
      | None \<Rightarrow> map_option snd (fold (\<lambda>x best. case best of None \<Rightarrow> Some x
            | Some y \<Rightarrow> if length (fst y) < length (fst x) then Some x else best)
          (filter (\<lambda>x. has_suffix (fst x) ''/'' \<and> has_prefix p (fst x)) pats) None))"

datatype mux_answer = To api_request | Moved | No_Route

definition api_dispatch :: "http_call \<Rightarrow> mux_answer" where
  "api_dispatch r =
     (if call_method r \<noteq> ''CONNECT'' \<and> \<not> clean_path (call_path r) then Moved
      else case mux_find api_routes (call_path r) of None \<Rightarrow> No_Route | Some h \<Rightarrow> To (h r))"

section \<open>The command line tools\<close>

text \<open>\<open>cmd/kafka-check\<close>: the results of the dial and of \<open>ReadPartitions\<close> are arguments.\<close>

definition kafka_check ::
  "environment \<Rightarrow> go_error option \<Rightarrow> go_error + nat \<Rightarrow> (resource \<Rightarrow> go_error option) \<Rightarrow> event list \<times> outcome" where
  "kafka_check vars dial partitions close_err =
     (let host = GetEnv vars ''KAFKA_BROKER'' ''localhost:9092'';
          f = acquire (Deadline_Context (seconds 5), None) entry
      in case dial of
           Some e \<Rightarrow> leave close_err (Exit_Status 1)
             (happen [Logged (''failed to connect to Kafka at '' @ host @ '': '' @ e @ [CHR 0x0A])] f)
         | None \<Rightarrow>
             (let f = acquire (Kafka_Conn host, None) f
              in case partitions of
                   Inl e \<Rightarrow> leave close_err (Exit_Status 1)
                     (happen [Logged (''failed to read metadata: '' @ e @ [CHR 0x0A])] f)
                 | Inr n \<Rightarrow> leave close_err Returned
                     (happen [Logged (''connected to Kafka at '' @ host @ '' ('' @ nat_digits n @ '' partitions)'' @
                       [CHR 0x0A])] f)))"

text \<open>\<open>main\<close> of \<open>cmd/loadgen\<close>: the flags as parsed, the files it can read.\<close>

definition flag_string :: "(string \<Rightarrow> string option) \<Rightarrow> string \<Rightarrow> string \<Rightarrow> string" where
  "flag_string flags name preset = (case flags name of None \<Rightarrow> preset | Some v \<Rightarrow> v)"

definition loadgen_main ::
  "(string \<Rightarrow> go_error) \<Rightarrow> (string \<Rightarrow> go_error) \<Rightarrow> (url \<Rightarrow> 'w \<Rightarrow> (go_error + int) \<times> 'w) \<Rightarrow> (string list \<Rightarrow> nat list) \<Rightarrow>
   (string \<Rightarrow> go_error + string) \<Rightarrow> (string \<Rightarrow> string option) \<Rightarrow> 'w \<Rightarrow> outcome \<times> 'w" where
  "loadgen_main je ue send schedule file flags w =
     (case run_loadgen je ue send schedule (file (flag_string flags ''config'' ''seeds.json''))
         (flag_string flags ''api'' ''http://localhost:30080'') w of
        (Inl e, w') \<Rightarrow> (Exit_Status 1, w')
      | (Inr logs, w') \<Rightarrow> (Returned, w'))"

section \<open>What is open\<close>

text \<open>The resources open after some events, the latest first: a close must close the latest one.\<close>

fun open_after :: "event list \<Rightarrow> resource list \<Rightarrow> resource list option" where
  "open_after [] st = Some st"
| "open_after (Opened r # es) st = open_after es (r # st)"
| "open_after (Closed r # es) st =
     (case st of [] \<Rightarrow> None | x # xs \<Rightarrow> if x = r then open_after es xs else None)"
| "open_after (e # es) st = open_after es st"

definition tidy :: "frame \<Rightarrow> bool" where
  "tidy f \<longleftrightarrow> open_after (events f) [] = Some (map fst (deferred f))"

lemma open_after_append: "open_after (es @ fs) st = Option.bind (open_after es st) (open_after fs)"
  by (induction es st rule: open_after.induct) (auto split: list.split)

lemma run_deferred_closes: "open_after (run_deferred close_err ds) (map fst ds) = Some []"
  by (induction close_err ds rule: run_deferred.induct) (auto split: option.split)

lemma tidy_entry [simp]: "tidy entry"
  by (simp add: tidy_def entry_def)

lemma tidy_acquire: "tidy f \<Longrightarrow> tidy (acquire d f)"
  by (simp add: tidy_def acquire_def happen_def open_after_append)

lemma tidy_happen: "tidy f \<Longrightarrow> (\<And>st. open_after es st = Some st) \<Longrightarrow> tidy (happen es f)"
  by (simp add: tidy_def happen_def open_after_append)

lemma tidy_all: "tidy f \<Longrightarrow> tidy (fold acquire ds f)"
  by (induction ds arbitrary: f) (simp_all add: tidy_acquire)

lemma deferred_simps [simp]:
  "deferred entry = []" "deferred (happen es f) = deferred f" "deferred (acquire d f) = d # deferred f"
  "deferred (startMetricsServer addr f) = deferred f" "deferred (fold acquire ds f) = rev ds @ deferred f"
proof -
  show "deferred (fold acquire ds f) = rev ds @ deferred f"
    by (induction ds arbitrary: f) (simp_all add: acquire_def)
qed (simp_all add: entry_def happen_def acquire_def startMetricsServer_def)

lemma tidy_metrics: "tidy f \<Longrightarrow> tidy (startMetricsServer addr f)"
  unfolding startMetricsServer_def by (rule tidy_happen) simp_all

lemma leave_open:
  "tidy f \<Longrightarrow> open_after (fst (leave close_err out f)) [] =
     Some (if out = Returned \<or> out = Panicked then [] else map fst (deferred f))"
  by (simp add: tidy_def leave_def open_after_append run_deferred_closes)

lemma leave_outcome [simp]: "snd (leave close_err out f) = out"
  by (simp add: leave_def)

lemma robots_events_open: "open_after (robots_events vars robotsBody) st = Some st"
  by (simp add: robots_events_def)

lemma worker_run_tidy: "tidy f \<Longrightarrow> tidy (happen (worker_starts vars robotsBody n w) f)"
  by (rule tidy_happen) (simp_all add: worker_starts_def Let_def open_after_append robots_events_open)

lemma worker_main_open:
  "open_after (fst (worker_main limit vars robotsBody close_err p)) [] =
     Some (if snd (worker_main limit vars robotsBody close_err p) \<in> {Returned, Panicked} then []
       else rev (map fst (worker_resources (read_config vars))))"
proof -
  let ?cfg = "read_config vars"
  let ?g = "worker_opened ?cfg"
  have g: "tidy ?g" "deferred ?g = rev (worker_resources ?cfg)"
    by (simp_all add: worker_opened_def tidy_metrics tidy_all Let_def)
  show ?thesis
  proof (cases "start_worker limit vars robotsBody")
    case None
    with g show ?thesis
      by (simp add: worker_main_def Let_def leave_open)
  next
    case (Some cw)
    let ?h = "happen (worker_starts vars robotsBody (fst cw) (snd cw)) ?g"
    have "tidy ?h" by (rule worker_run_tidy [OF g(1)])
    then have "tidy (happen [Jobs_Waited, Commits_Closed, Coordinator_Joined] ?h)" by (rule tidy_happen) simp
    with Some \<open>tidy ?h\<close> g(2) show ?thesis
      by (simp add: worker_main_def Let_def leave_open split_beta rev_map)
  qed
qed

text \<open>
  Claim C25. Every \<open>main\<close> that returns or panics has closed each thing it opened once, the latest first,
  whatever the closes say: the worker, also when its commit channel cannot be made, and the graph writer.
  \<open>log.Fatal\<close> and \<open>os.Exit\<close> leave things open: the API server its store and producer whenever it
  ends, the Kafka check its connection when the metadata cannot be read.
\<close>

theorem mains_release:
  "open_after (fst (worker_main limit vars robotsBody close_err p)) [] =
     Some (if snd (worker_main limit vars robotsBody close_err p) \<in> {Returned, Panicked} then []
       else rev (map fst (worker_resources (read_config vars)))) \<and>
   open_after (fst (graph_main vars driver close_err)) [] = Some [] \<and>
   (\<exists>es. api_main vars (\<lambda>addr. Some e) close_err = (es, Exit_Status 1) \<and>
     open_after es [] = Some [store_client (api_store vars), prod_writer (api_producer vars)]) \<and>
   open_after (fst (kafka_check vars None (Inr n) close_err)) [] = Some [] \<and>
   (\<exists>es host. kafka_check vars None (Inl e) close_err = (es, Exit_Status 1) \<and>
     open_after es [] = Some [Kafka_Conn host, Deadline_Context (seconds 5)])"
proof (intro conjI)
  let ?f = "fold acquire (graph_resources vars) entry"
  have "tidy (if a \<noteq> [] then graph_startMetricsServer a ?f else ?f)" for a
    by (simp add: graph_startMetricsServer_def tidy_happen tidy_all)
  from tidy_happen [OF this, of "[Spawned Consume_Results, Spawned Consume_Edges, Signal_Awaited]"]
  show "open_after (fst (graph_main vars driver close_err)) [] = Some []"
    by (simp add: graph_main_def Let_def leave_open tidy_happen split: option.split)
  show "open_after (fst (kafka_check vars None (Inr n) close_err)) [] = Some []"
    by (simp add: kafka_check_def Let_def leave_open tidy_happen tidy_acquire)
qed (rule worker_main_open, simp_all add: api_main_def kafka_check_def leave_def acquire_def happen_def entry_def Let_def)

section \<open>Nothing is used after its close\<close>

lemma step_to_exit:
  "step n cap p q \<Longrightarrow> main_at q = Exited \<Longrightarrow> taken q = taken p \<and> listening q = listening p"
  unfolding step_def live_def by (elim conjE disjE step_cases) auto

lemma exited_finished: "system_reachable n cap ok order s \<Longrightarrow> main_at (proc s) = Exited \<Longrightarrow> coord_at s = Finished"
proof (induction rule: system_reachable.induct)
  case system_boot
  then show ?case by (simp add: boot_def fresh_def)
next
  case (system_moves s t)
  from system_moves.hyps(2) show ?case
  proof cases
    case (receive_message p m)
    with system_moves.prems step_to_exit [OF receive_message(3)] show ?thesis by simp
  next
    case (leave_select p)
    with system_moves.prems step_to_exit [OF leave_select(3)] show ?thesis by simp
  qed (use system_moves in \<open>auto simp: live_def\<close>)
qed

text \<open>
  Claim C24. A worker's \<open>main\<close> returns only after the last use of what it closes: no job is in its body
  any more, so nothing writes to Kafka, and the commit coordinator has finished, so nothing commits.
  The closes come after the waits.
\<close>

theorem worker_closes_after_use:
  assumes "system_reachable n cap ok order s" and "worker_main limit vars robotsBody close_err (proc s) = (es, Returned)"
  shows "coord_at s = Finished \<and> (\<forall>m ph. (m, ph) \<in> set (jobs (proc s)) \<longrightarrow> Wg_Done \<le> ph) \<and>
    (\<exists>before. es = before @ [Jobs_Waited, Commits_Closed, Coordinator_Joined] @
       run_deferred close_err (rev (worker_resources (read_config vars))))"
proof -
  have opened: "deferred (worker_opened (read_config vars)) = rev (worker_resources (read_config vars))"
    by (simp add: worker_opened_def Let_def)
  have ex: "main_at (proc s) = Exited \<and> (\<exists>before. es = before @ [Jobs_Waited, Commits_Closed, Coordinator_Joined] @
       run_deferred close_err (rev (worker_resources (read_config vars))))"
    using assms(2) opened
    by (auto simp: worker_main_def leave_def happen_def Let_def split: option.splits prod.splits if_splits)
  have r: "reachable n cap (proc s)" using system_refines [OF assms(1)] by (simp add: refines_def)
  from reachable_invariants [OF r] ex have "at_phase (\<lambda>ph. ph < Wg_Done) (proc s) = 0"
    by (simp add: counting_def ordered_def)
  then have "\<not> ph < Wg_Done" if "(m, ph) \<in> set (jobs (proc s))" for m ph
    using that by (force simp: at_phase_def filter_empty_conv)
  with ex exited_finished [OF assms(1)] show ?thesis by (simp add: not_less)
qed

text \<open>A worker that is stopped before its first job.\<close>

definition stopped :: process where
  "stopped = fresh\<lparr>cancelled := True, listening := False, closed := True, main_at := Exited\<rparr>"

lemma stopped_reachable:
  "system_reachable n cap ok (\<lambda>c. []) (boot\<lparr>proc := stopped, coord_at := Finished\<rparr>)"
proof -
  let ?R = "system_reachable n cap ok (\<lambda>c. [])"
  let ?p = "fresh\<lparr>cancelled := True\<rparr>"
  have live: "live fresh" "live ?p" "live (?p\<lparr>listening := False\<rparr>)" "live (?p\<lparr>listening := False, main_at := Waiting\<rparr>)"
    "live (?p\<lparr>listening := False, closed := True, main_at := Joining\<rparr>)"
    by (simp_all add: live_def fresh_def)
  have "?R (boot\<lparr>proc := ?p\<rparr>)"
    using system_moves [OF system_boot others_move [of n cap boot ?p ok]] cancel [of fresh] live(1)
    by (auto simp: step_def boot_def fresh_def)
  from system_moves [OF this leave_select [of _ n cap "?p\<lparr>listening := False\<rparr>"]]
  have "?R (boot\<lparr>proc := ?p\<lparr>listening := False\<rparr>, coord_at := Flushing []\<rparr>)"
    using stop_cancelled [of ?p] live(2) by (simp add: step_def boot_def fresh_def)
  from system_moves [OF this flush_done]
  have "?R (boot\<lparr>proc := ?p\<lparr>listening := False\<rparr>, coord_at := Finished\<rparr>)" using live(3) by simp
  from system_moves [OF this others_move [of n cap _ "?p\<lparr>listening := False, main_at := Waiting\<rparr>"]]
  have "?R (boot\<lparr>proc := ?p\<lparr>listening := False, main_at := Waiting\<rparr>, coord_at := Finished\<rparr>)"
    using leave_run [of "?p\<lparr>listening := False\<rparr>"] live(3) by (simp add: step_def fresh_def boot_def)
  from system_moves [OF this others_move [of n cap _ "?p\<lparr>listening := False, closed := True, main_at := Joining\<rparr>"]]
  have "?R (boot\<lparr>proc := ?p\<lparr>listening := False, closed := True, main_at := Joining\<rparr>, coord_at := Finished\<rparr>)"
    using close_channel [of "?p\<lparr>listening := False, main_at := Waiting\<rparr>"] live(4) by (simp add: step_def fresh_def boot_def)
  from system_moves [OF this others_move [of n cap _ stopped]]
  show ?thesis
    using leave_main [of "?p\<lparr>listening := False, closed := True, main_at := Joining\<rparr>"] live(5)
    by (simp add: step_def stopped_def fresh_def boot_def)
qed

theorem worker_closes_after_use_witness:
  "\<exists>before. fst (worker_main 1000 (\<lambda>k. []) (Inl []) (\<lambda>r. None) stopped) =
     before @ [Jobs_Waited, Commits_Closed, Coordinator_Joined] @
       run_deferred (\<lambda>r. None) (rev (worker_resources (read_config (\<lambda>k. []))))"
proof -
  have "atoi ''5'' = Some 5" by code_simp
  then have "snd (worker_main 1000 (\<lambda>k. []) (Inl []) (\<lambda>r. None) stopped) = Returned"
    by (simp add: worker_main_def start_worker_def read_config_def GetEnv_def ParseInt_def make_chan_def wrap64_id
        in_int64_iff Let_def stopped_def fresh_def)
  then have "worker_main 1000 (\<lambda>k. []) (Inl []) (\<lambda>r. None) (proc (boot\<lparr>proc := stopped, coord_at := Finished\<rparr>)) =
      (fst (worker_main 1000 (\<lambda>k. []) (Inl []) (\<lambda>r. None) stopped), Returned)"
    by (simp add: prod_eq_iff)
  from worker_closes_after_use [OF stopped_reachable [of 5 10 "\<lambda>k. True"] this] show ?thesis by simp
qed

section \<open>One process writes what another reads\<close>

text \<open>
  In any environment the topics meet: the graph writer reads the two topics the worker writes
  results and edges to, at the same broker; the worker reads the topic it enqueues to. The API's producer
  writes to that topic exactly when \<open>KAFKA_FRONTIER_TOPIC\<close> is unset or names the API's topic.
\<close>

lemma topics_meet:
  "\<exists>host group redis tr te tf td. map fst (worker_resources (read_config vars)) =
     [Kafka_Reader host tf group, Redis_Client redis, Kafka_Writer host tr, Kafka_Writer host te, Kafka_Writer host tf,
      Kafka_Writer host td, Signal_Context] \<and>
   (\<exists>driver g1 g2. map fst (graph_resources vars) =
      [driver, Kafka_Reader host tr g1, Kafka_Reader host te g2, Signal_Context]) \<and>
   (prod_writer (api_producer vars) = Kafka_Writer host tf \<longleftrightarrow>
      vars ''KAFKA_FRONTIER_TOPIC'' \<in> {[], GetEnv vars ''KAFKA_TOPIC'' ''relentless.crawl.frontier''}) \<and>
   store_client (api_store vars) = Redis_Client redis"
  by (auto simp: worker_resources_def graph_resources_def read_config_def newRedisStore_def api_producer_def NewProducer_def
      api_store_def NewRedisStatusStore_def Let_def GetEnv_def)

section \<open>Routes\<close>

lemma split_char_single: "c \<notin> set s \<Longrightarrow> split_char c s = [s]"
  by (induction s) auto

lemma api_dispatch_clean:
  assumes "clean_path (call_path r)"
  shows "api_dispatch r =
    (if call_path r = ''/crawl'' then To (Crawl r)
     else if has_prefix (call_path r) ''/crawl/'' then To (Crawl_Status r)
     else if call_path r = ''/metrics'' then To (Metrics r) else No_Route)"
  using assms by (auto simp: api_dispatch_def mux_find_def api_routes_def has_suffix_def has_prefix_def)

text \<open>The link of a session leads to \<open>handleCrawlStatus\<close>.\<close>

lemma session_link_routed:
  "api_dispatch \<lparr>call_method = verb, call_path = ''/crawl/'' @ newSessionID t, call_query = q\<rparr> =
     To (Crawl_Status \<lparr>call_method = verb, call_path = ''/crawl/'' @ newSessionID t, call_query = q\<rparr>)"
proof -
  have sep: "CHR ''/'' \<notin> set (newSessionID t)" "CHR ''.'' \<notin> set (newSessionID t)"
    using newSessionID_digits(1) [of t] by (auto simp: list_all_iff is_digit_def byte_in_def)
  then have "newSessionID t \<noteq> ''.''" "newSessionID t \<noteq> ''..''" by auto
  with sep newSessionID_digits(2) [of t] have "clean_path (''/crawl/'' @ newSessionID t)"
    by (simp add: clean_path_def split_char_single has_prefix_def)
  then show ?thesis by (subst api_dispatch_clean) (simp_all add: has_prefix_def)
qed

end
