(* ===== verification/Metrics_Concurrent.thy ===== *)
theory Metrics_Concurrent
  imports Worker_Metrics
begin

text \<open>
  A histogram of the worker while goroutines observe durations and /metrics is scraped. An observation
  is three atomic additions, a scrape loads one counter after the other, and nothing locks them together:
  in the end nothing is lost, but a scrape may mix observations that are half recorded.
\<close>

section \<open>Observers and a scraper\<close>

text \<open>An observer has added to no counter yet, to its bucket, to the sum too, or to all three.\<close>

datatype probe = At_Bucket int | At_Sum int | At_Count int | Recorded int

primrec took :: "probe \<Rightarrow> int" where
  "took (At_Bucket d) = d"
| "took (At_Sum d) = d"
| "took (At_Count d) = d"
| "took (Recorded d) = d"

definition slot :: "float64 list \<Rightarrow> probe \<Rightarrow> nat" where
  "slot bs p = bucket_index bs (duration_seconds (nat (took p)))"

text \<open>The next atomic addition of \<open>observeFetchLatency\<close> or \<open>observeCommitLatency\<close>.\<close>

fun probe_step :: "float64 list \<Rightarrow> probe \<times> histogram \<Rightarrow> probe \<times> histogram" where
  "probe_step bs (At_Bucket d, h) =
     (let i = bucket_index bs (duration_seconds (nat d))
      in (At_Sum d, h\<lparr>h_counts := (h_counts h)[i := h_counts h ! i + 1]\<rparr>))"
| "probe_step bs (At_Sum d, h) = (At_Count d, h\<lparr>h_sum := h_sum h + of_int d\<rparr>)"
| "probe_step bs (At_Count d, h) = (Recorded d, h\<lparr>h_count := h_count h + 1\<rparr>)"
| "probe_step bs (Recorded d, h) = (Recorded d, h)"

text \<open>What \<open>appendHistogram\<close> has loaded, in its order; \<open>settled\<close> and \<open>base\<close> are ghosts: the observations
  fully recorded when it began, and those in each bucket.\<close>

record scraper =
  loaded :: "64 word list"
  loaded_sum :: "64 word option"
  loaded_count :: "64 word option"
  settled :: nat
  base :: "nat \<Rightarrow> nat"

record meter =
  hist :: histogram
  probes :: "probe list"
  scrape :: scraper

definition past_bucket :: "probe \<Rightarrow> bool" where
  "past_bucket p \<longleftrightarrow> (\<forall>d. p \<noteq> At_Bucket d)"

definition recorded :: "probe \<Rightarrow> bool" where
  "recorded p \<longleftrightarrow> p = Recorded (took p)"

definition hits :: "float64 list \<Rightarrow> probe list \<Rightarrow> nat \<Rightarrow> nat" where
  "hits bs ps i = length (filter (\<lambda>p. past_bucket p \<and> slot bs p = i) ps)"

definition scrape_begun :: "float64 list \<Rightarrow> probe list \<Rightarrow> scraper" where
  "scrape_begun bs ps = \<lparr>loaded = [], loaded_sum = None, loaded_count = None,
     settled = length (filter recorded ps), base = hits bs ps\<rparr>"

definition idle_meter :: "float64 list \<Rightarrow> meter" where
  "idle_meter bs = \<lparr>hist = new_histogram bs, probes = [], scrape = scrape_begun bs []\<rparr>"

inductive meter_step :: "float64 list \<Rightarrow> meter \<Rightarrow> meter \<Rightarrow> bool" for bs :: "float64 list" where
  observe_begins: "0 < d \<Longrightarrow> meter_step bs m (m\<lparr>probes := probes m @ [At_Bucket d]\<rparr>)"
| observe_adds: "i < length (probes m) \<Longrightarrow> probe_step bs (probes m ! i, hist m) = (p, h) \<Longrightarrow>
    meter_step bs m (m\<lparr>hist := h, probes := (probes m)[i := p]\<rparr>)"
| scrape_begins: "meter_step bs m (m\<lparr>scrape := scrape_begun bs (probes m)\<rparr>)"
| scrape_bucket: "k = length (loaded (scrape m)) \<Longrightarrow> k < Suc (length bs) \<Longrightarrow>
    meter_step bs m (m\<lparr>scrape := (scrape m)\<lparr>loaded := loaded (scrape m) @ [h_counts (hist m) ! k]\<rparr>\<rparr>)"
| scrape_sum: "length (loaded (scrape m)) = Suc (length bs) \<Longrightarrow> loaded_sum (scrape m) = None \<Longrightarrow>
    meter_step bs m (m\<lparr>scrape := (scrape m)\<lparr>loaded_sum := Some (h_sum (hist m))\<rparr>\<rparr>)"
| scrape_count: "loaded_sum (scrape m) \<noteq> None \<Longrightarrow> loaded_count (scrape m) = None \<Longrightarrow>
    meter_step bs m (m\<lparr>scrape := (scrape m)\<lparr>loaded_count := Some (h_count (hist m))\<rparr>\<rparr>)"

inductive meter_reachable :: "float64 list \<Rightarrow> meter \<Rightarrow> bool" for bs :: "float64 list" where
  meter_idle: "meter_reachable bs (idle_meter bs)"
| meter_moves: "meter_reachable bs m \<Longrightarrow> meter_step bs m m' \<Longrightarrow> meter_reachable bs m'"

section \<open>One observer alone\<close>

lemma probe_alone:
  "0 < d \<Longrightarrow> probe_step bs (probe_step bs (probe_step bs (At_Bucket d, h))) = (Recorded d, observe bs d h)"
  by (simp add: observe_def Let_def)

section \<open>Invariants\<close>

definition tallied :: "float64 list \<Rightarrow> meter \<Rightarrow> bool" where
  "tallied bs m \<longleftrightarrow> length (h_counts (hist m)) = Suc (length bs) \<and>
     (\<forall>i \<le> length bs. h_counts (hist m) ! i = of_nat (hits bs (probes m) i)) \<and>
     h_count (hist m) = of_nat (length (filter recorded (probes m)))"

lemma filter_update:
  "i < length xs \<Longrightarrow>
   length (filter P (xs[i := x])) + (if P (xs ! i) then 1 else 0) = length (filter P xs) + (if P x then 1 else 0)"
proof (induction xs arbitrary: i)
  case (Cons y ys)
  show ?case
  proof (cases i)
    case (Suc k)
    with Cons.IH [of k] Cons.prems show ?thesis by auto
  qed simp
qed simp

lemma probe_simps [simp]:
  "\<not> past_bucket (At_Bucket d)" "past_bucket (At_Sum d)" "past_bucket (At_Count d)" "past_bucket (Recorded d)"
  "\<not> recorded (At_Bucket d)" "\<not> recorded (At_Sum d)" "\<not> recorded (At_Count d)" "recorded (Recorded d)"
  by (simp_all add: past_bucket_def recorded_def)

lemma slot_le: "slot bs p \<le> length bs"
  by (simp add: slot_def bucket_index_le)

lemma hits_snoc [simp]: "hits bs (ps @ [At_Bucket d]) i = hits bs ps i"
  by (simp add: hits_def)

text \<open>What an addition does to what has been counted.\<close>

lemma probe_step_effect:
  assumes "probe_step bs (q, h) = (p, h')"
  shows "past_bucket p" and "slot bs p = slot bs q" and "recorded q \<Longrightarrow> recorded p"
    and "h_count h' = h_count h + (if \<not> recorded q \<and> recorded p then 1 else 0)"
    and "length (h_counts h') = length (h_counts h)"
    and "j < length (h_counts h) \<Longrightarrow> h_counts h' ! j = h_counts h ! j + (if \<not> past_bucket q \<and> slot bs q = j then 1 else 0)"
  using assms by (cases q; auto simp: slot_def Let_def nth_list_update)+

lemma probe_step_hits:
  assumes "i < length ps" and "probe_step bs (ps ! i, h) = (p, h')"
  shows "hits bs (ps[i := p]) j = hits bs ps j + (if \<not> past_bucket (ps ! i) \<and> slot bs (ps ! i) = j then 1 else 0)"
    and "length (filter recorded (ps[i := p])) = length (filter recorded ps) + (if \<not> recorded (ps ! i) \<and> recorded p then 1 else 0)"
proof -
  note e = probe_step_effect [OF assms(2)]
  show "hits bs (ps[i := p]) j = hits bs ps j + (if \<not> past_bucket (ps ! i) \<and> slot bs (ps ! i) = j then 1 else 0)"
    using filter_update [OF assms(1), of "\<lambda>p. past_bucket p \<and> slot bs p = j" p] e(1,2)
    by (auto simp: hits_def split: if_splits)
  show "length (filter recorded (ps[i := p])) = length (filter recorded ps) +
      (if \<not> recorded (ps ! i) \<and> recorded p then 1 else 0)"
    using filter_update [OF assms(1), of recorded p] e(3) by (auto split: if_splits)
qed

lemma tallied_step: "meter_step bs m m' \<Longrightarrow> tallied bs m \<Longrightarrow> tallied bs m'"
proof (induction rule: meter_step.induct)
  case (observe_adds i m p h)
  note e = probe_step_hits [OF observe_adds(1,2)] probe_step_effect [OF observe_adds(2)]
  from observe_adds(3) show ?case by (auto simp: tallied_def e)
qed (auto simp: tallied_def)

lemma hits_mono:
  "meter_step bs m m' \<Longrightarrow> hits bs (probes m) i \<le> hits bs (probes m') i \<and>
    length (filter recorded (probes m)) \<le> length (filter recorded (probes m')) \<and>
    length (probes m) \<le> length (probes m')"
  by (induction rule: meter_step.induct) (auto simp: probe_step_hits)

text \<open>What a scrape has loaded lies between what was recorded when it began and what is now.\<close>

definition between :: "float64 list \<Rightarrow> meter \<Rightarrow> bool" where
  "between bs m \<longleftrightarrow> length (loaded (scrape m)) \<le> Suc (length bs) \<and>
     (\<exists>xs. loaded (scrape m) = map of_nat xs \<and>
        (\<forall>i < length xs. base (scrape m) i \<le> xs ! i \<and> xs ! i \<le> hits bs (probes m) i)) \<and>
     (\<forall>i. base (scrape m) i \<le> hits bs (probes m) i) \<and>
     settled (scrape m) \<le> (\<Sum>i \<le> length bs. base (scrape m) i) \<and>
     settled (scrape m) \<le> length (filter recorded (probes m)) \<and>
     (loaded_sum (scrape m) \<noteq> None \<longrightarrow> length (loaded (scrape m)) = Suc (length bs)) \<and>
     (\<forall>c. loaded_count (scrape m) = Some c \<longrightarrow> loaded_sum (scrape m) \<noteq> None \<and>
        (\<exists>y. c = of_nat y \<and> settled (scrape m) \<le> y \<and> y \<le> length (filter recorded (probes m))))"

lemma hits_total: "(\<Sum>i \<le> length bs. hits bs ps i) = length (filter past_bucket ps)"
proof (induction ps)
  case (Cons p ps)
  have "(\<Sum>i \<le> length bs. hits bs (p # ps) i) =
      (\<Sum>i \<le> length bs. hits bs ps i + (if past_bucket p \<and> slot bs p = i then 1 else 0))"
    by (rule sum.cong) (auto simp: hits_def)
  also have "\<dots> = length (filter past_bucket ps) + (\<Sum>i \<le> length bs. if past_bucket p \<and> slot bs p = i then 1 else 0)"
    by (simp add: sum.distrib Cons.IH)
  also have "(\<Sum>i \<le> length bs. if past_bucket p \<and> slot bs p = i then 1 else 0) = (if past_bucket p then 1 else 0 :: nat)"
    using slot_le [of bs p] by (cases "past_bucket p") auto
  finally show ?case by simp
qed (simp add: hits_def)

lemma recorded_le: "length (filter recorded ps) \<le> length (filter past_bucket ps)"
  by (induction ps) (auto simp: recorded_def past_bucket_def)

lemma between_keeps:
  assumes "between bs m" and "scrape m' = scrape m" and "\<And>i. hits bs (probes m) i \<le> hits bs (probes m') i"
    and "length (filter recorded (probes m)) \<le> length (filter recorded (probes m'))"
  shows "between bs m'"
proof -
  from assms(1) obtain xs where "loaded (scrape m) = map of_nat xs"
    "\<And>i. i < length xs \<Longrightarrow> base (scrape m) i \<le> xs ! i \<and> xs ! i \<le> hits bs (probes m) i"
    unfolding between_def by blast
  then have "\<exists>xs. loaded (scrape m) = map of_nat xs \<and>
      (\<forall>i < length xs. base (scrape m) i \<le> xs ! i \<and> xs ! i \<le> hits bs (probes m') i)"
    using assms(3) by (meson le_trans)
  with assms show ?thesis unfolding between_def assms(2) by (meson le_trans)
qed

lemma between_begun: "between bs (m\<lparr>scrape := scrape_begun bs (probes m)\<rparr>)"
  using recorded_le [of "probes m"] by (simp add: between_def scrape_begun_def hits_total)

lemma between_step:
  assumes "meter_step bs m m'" and "between bs m" and "tallied bs m"
  shows "between bs m'"
  using assms
proof (cases rule: meter_step.cases)
  case scrape_begins
  then show ?thesis using between_begun by simp
next
  case (scrape_bucket k)
  from assms(2) obtain xs where xs: "loaded (scrape m) = map of_nat xs"
    "\<And>i. i < length xs \<Longrightarrow> base (scrape m) i \<le> xs ! i \<and> xs ! i \<le> hits bs (probes m) i"
    unfolding between_def by blast
  let ?xs = "xs @ [hits bs (probes m) k]"
  have k: "k = length xs" using scrape_bucket(2) xs(1) by simp
  have "h_counts (hist m) ! k = of_nat (hits bs (probes m) k)"
    using assms(3) scrape_bucket(3) by (simp add: tallied_def)
  then have "loaded (scrape m) @ [h_counts (hist m) ! k] = map of_nat ?xs" using xs(1) by simp
  moreover have "base (scrape m) i \<le> ?xs ! i \<and> ?xs ! i \<le> hits bs (probes m) i" if "i < length ?xs" for i
    using that xs(2) [of i] assms(2) k by (auto simp: nth_append less_Suc_eq between_def)
  ultimately have "\<exists>ys. loaded (scrape m) @ [h_counts (hist m) ! k] = map of_nat ys \<and>
      (\<forall>i < length ys. base (scrape m) i \<le> ys ! i \<and> ys ! i \<le> hits bs (probes m) i)" by blast
  with assms(2) scrape_bucket show ?thesis by (auto simp: between_def)
next
  case scrape_sum
  with assms(2) show ?thesis by (simp add: between_def)
next
  case scrape_count
  with assms(2,3) show ?thesis by (auto simp: between_def tallied_def)
qed (use assms(2) hits_mono [OF assms(1)] in \<open>auto intro: between_keeps\<close>)

lemma meter_invariants:
  assumes "meter_reachable bs m"
  shows "tallied bs m" "between bs m"
proof -
  have idle: "tallied bs (idle_meter bs)" "between bs (idle_meter bs)"
    using between_begun [of bs "idle_meter bs"]
    by (auto simp: tallied_def idle_meter_def new_histogram_def hits_def nth_append less_Suc_eq_le nth_Cons'
        simp flip: replicate_Suc)
  from assms have "tallied bs m \<and> between bs m"
    by (induction rule: meter_reachable.induct) (auto simp: idle intro: tallied_step between_step)
  then show "tallied bs m" "between bs m" by simp_all
qed

lemma sum_list_words: "sum_list (map of_nat xs) = (of_nat (sum_list xs) :: 64 word)"
  by (induction xs) simp_all

section \<open>What a scrape shows\<close>

text \<open>When no observation is under way, the histogram is consistent, as if they had come one by one.\<close>

lemma quiescent_histogram:
  assumes "meter_reachable bs m" and "list_all recorded (probes m)"
  shows "sum_list (h_counts (hist m)) = h_count (hist m) \<and> h_count (hist m) = of_nat (length (probes m))"
proof -
  have t: "tallied bs m" by (rule meter_invariants(1) [OF assms(1)])
  then have "h_counts (hist m) = map (\<lambda>i. of_nat (hits bs (probes m) i)) [0..<Suc (length bs)]"
    by (intro nth_equalityI) (auto simp: tallied_def less_Suc_eq_le nth_append simp del: upt_Suc)
  then have "sum_list (h_counts (hist m)) = of_nat (\<Sum>i \<le> length bs. hits bs (probes m) i)"
    by (simp add: interv_sum_list_conv_sum_set_nat atLeast0LessThan lessThan_Suc_atMost del: upt_Suc)
  moreover have "filter recorded (probes m) = probes m" "filter past_bucket (probes m) = probes m"
    using assms(2) by (auto simp: filter_id_conv list_all_iff recorded_def past_bucket_def)
  ultimately show ?thesis using t by (simp add: tallied_def hits_total)
qed

text \<open>
  Claim C33. A scrape never runs ahead nor forgets: however it interleaves with observing goroutines, the
  +Inf bucket and the count it shows both lie between the observations fully recorded when it began and
  those begun when it ends (below 2^64 of them). So they agree when none is under way.
\<close>

theorem scrape_bounded:
  assumes "meter_reachable bs m" and "loaded_sum (scrape m) = Some s" and "loaded_count (scrape m) = Some c"
    and "length (probes m) < 2 ^ 64"
  shows "\<exists>ls total. appendHistogram name bs places \<lparr>h_counts = loaded (scrape m), h_sum = s, h_count = c\<rparr> =
      text_lines (ls @
        [name @ ''_bucket{le='' @ CHR 0x22 # ''+Inf'' @ CHR 0x22 # ''} '' @ show_u64 total,
         name @ ''_sum '' @ format_fixed 6 (float_div (to_float (unat s) 1) (to_float second 1)),
         name @ ''_count '' @ show_u64 c]) \<and>
    settled (scrape m) \<le> unat total \<and> unat total \<le> length (probes m) \<and>
    settled (scrape m) \<le> unat c \<and> unat c \<le> length (probes m)"
proof -
  have b: "between bs m" by (rule meter_invariants(2) [OF assms(1)])
  with assms(3) obtain y where y: "c = of_nat y" "settled (scrape m) \<le> y" "y \<le> length (filter recorded (probes m))"
    and len: "length (loaded (scrape m)) = Suc (length bs)" unfolding between_def by blast
  from b obtain xs where xs: "loaded (scrape m) = map of_nat xs"
    "\<And>i. i < length xs \<Longrightarrow> base (scrape m) i \<le> xs ! i \<and> xs ! i \<le> hits bs (probes m) i"
    unfolding between_def by blast
  have sum: "sum_list xs = (\<Sum>i \<le> length bs. xs ! i)"
    using len xs(1) by (simp add: sum_list_sum_nth atLeast0LessThan lessThan_Suc_atMost)
  have "(\<Sum>i \<le> length bs. base (scrape m) i) \<le> sum_list xs" "sum_list xs \<le> (\<Sum>i \<le> length bs. hits bs (probes m) i)"
    unfolding sum using xs(2) len xs(1) by (auto intro!: sum_mono)
  moreover have "settled (scrape m) \<le> (\<Sum>i \<le> length bs. base (scrape m) i)" using b unfolding between_def by blast
  ultimately have t: "settled (scrape m) \<le> sum_list xs" "sum_list xs \<le> length (probes m)"
    using length_filter_le [of past_bucket "probes m"] unfolding hits_total by linarith+
  have total: "snd (bucket_lines name places 0 bs (loaded (scrape m))) = of_nat (sum_list xs)"
    using bucket_lines_total [OF len] xs(1) by (simp add: sum_list_words)
  have yl: "y \<le> length (probes m)" using y(3) length_filter_le le_trans by blast
  have u: "unat (of_nat (sum_list xs) :: 64 word) = sum_list xs" "unat c = y"
    using t(2) y yl assms(4) by (simp_all add: unat_of_nat take_bit_nat_eq_self)
  show ?thesis
    using t y yl u total
    by (intro exI [of _ "fst (bucket_lines name places 0 bs (loaded (scrape m)))"] exI [of _ "of_nat (sum_list xs)"])
      (simp add: appendHistogram_def case_prod_beta)
qed

text \<open>A scrape between the first and the last addition of an observation shows two different totals.\<close>

lemma load_buckets:
  assumes "meter_reachable bs m" and "loaded (scrape m) = []" and "k \<le> Suc (length bs)"
  shows "meter_reachable bs (m\<lparr>scrape := (scrape m)\<lparr>loaded := take k (h_counts (hist m))\<rparr>\<rparr>)"
  using assms(3)
proof (induction k)
  case 0
  from assms(1,2) show ?case by (simp add: flip: assms(2))
next
  case (Suc k)
  have "length (h_counts (hist m)) = Suc (length bs)"
    using meter_invariants(1) [OF assms(1)] by (simp add: tallied_def)
  with meter_moves [OF Suc.IH scrape_bucket [OF refl]] Suc.prems show ?case
    by (simp add: take_Suc_conv_app_nth)
qed

lemma scrape_all:
  assumes "meter_reachable bs m"
  shows "\<exists>m'. meter_reachable bs m' \<and> probes m' = probes m \<and> loaded (scrape m') = h_counts (hist m) \<and>
    settled (scrape m') = length (filter recorded (probes m)) \<and>
    loaded_sum (scrape m') = Some (h_sum (hist m)) \<and> loaded_count (scrape m') = Some (h_count (hist m))"
proof -
  let ?s = "scrape_begun bs (probes m)"
  let ?l = "?s\<lparr>loaded := h_counts (hist m)\<rparr>"
  have len: "length (h_counts (hist m)) = Suc (length bs)"
    using meter_invariants(1) [OF assms] by (simp add: tallied_def)
  have "meter_reachable bs (m\<lparr>scrape := ?s\<rparr>)" by (rule meter_moves [OF assms scrape_begins])
  from load_buckets [OF this _ le_refl] len
  have "meter_reachable bs (m\<lparr>scrape := ?l\<rparr>)" by (simp add: scrape_begun_def)
  from meter_moves [OF this scrape_sum] len
  have "meter_reachable bs (m\<lparr>scrape := ?l\<lparr>loaded_sum := Some (h_sum (hist m))\<rparr>\<rparr>)" by (simp add: scrape_begun_def)
  from meter_moves [OF this scrape_count] show ?thesis
    by (intro exI [of _ "m\<lparr>scrape := ?l\<lparr>loaded_sum := Some (h_sum (hist m)), loaded_count := Some (h_count (hist m))\<rparr>\<rparr>"])
      (simp add: scrape_begun_def)
qed

lemma half_recorded:
  "\<exists>m. meter_reachable bs m \<and> probes m = [At_Sum 1] \<and> h_count (hist m) = 0 \<and> sum_list (h_counts (hist m)) = 1"
proof -
  have "meter_reachable bs (idle_meter bs\<lparr>probes := [At_Bucket 1]\<rparr>)"
    using meter_moves [OF meter_idle observe_begins [of 1]] by (simp add: idle_meter_def)
  moreover have "probe_step bs (At_Bucket 1, new_histogram bs) = (At_Sum 1, (new_histogram bs)\<lparr>h_counts :=
      (h_counts (new_histogram bs))[bucket_index bs (duration_seconds 1) :=
        h_counts (new_histogram bs) ! bucket_index bs (duration_seconds 1) + 1]\<rparr>)" (is "_ = (_, ?h)")
    by (simp add: Let_def)
  ultimately have "meter_reachable bs (idle_meter bs\<lparr>hist := ?h, probes := [At_Sum 1]\<rparr>)"
    using meter_moves [OF _ observe_adds [of 0]] by (fastforce simp: idle_meter_def)
  moreover have "h_count ?h = 0" by (simp add: new_histogram_def)
  moreover have "sum_list (h_counts ?h) = 1"
    using wf_new_histogram [of bs] bucket_index_le [of bs "duration_seconds 1"] \<open>h_count ?h = 0\<close>
    by (simp add: sum_list_incr wf_histogram_def)
  ultimately show ?thesis by (intro exI [of _ "idle_meter bs\<lparr>hist := ?h, probes := [At_Sum 1]\<rparr>"]) simp
qed

lemma scrape_can_disagree:
  "\<exists>m. meter_reachable bs m \<and> loaded_count (scrape m) = Some 0 \<and>
    snd (bucket_lines name places 0 bs (loaded (scrape m))) = 1"
proof -
  obtain m where m: "meter_reachable bs m" "h_count (hist m) = 0" "sum_list (h_counts (hist m)) = 1"
    using half_recorded by blast
  from scrape_all [OF m(1)] obtain m' where s: "meter_reachable bs m'" "loaded (scrape m') = h_counts (hist m)"
    "loaded_count (scrape m') = Some (h_count (hist m))" by blast
  have "length (h_counts (hist m)) = Suc (length bs)"
    using meter_invariants(1) [OF m(1)] by (simp add: tallied_def)
  from bucket_lines_total [OF this] s m(2,3) show ?thesis by (intro exI [of _ m']) simp
qed

theorem scrape_bounded_witness:
  "\<exists>m c. meter_reachable fetchLatencyBuckets m \<and> probes m = [At_Sum 1] \<and> loaded_count (scrape m) = Some c \<and> unat c \<le> 1"
proof -
  obtain m where m: "meter_reachable fetchLatencyBuckets m" "probes m = [At_Sum 1]" using half_recorded by blast
  from scrape_all [OF m(1)] obtain m' s c where s: "meter_reachable fetchLatencyBuckets m'" "probes m' = [At_Sum 1]"
    "loaded_sum (scrape m') = Some s" "loaded_count (scrape m') = Some c" unfolding m(2) by blast
  have "length (probes m') < 2 ^ 64" by (simp add: s(2))
  from scrape_bounded [OF s(1,3,4) this] have "unat c \<le> length (probes m')" by blast
  with s show ?thesis by (intro exI [of _ m'] exI [of _ c]) simp
qed

end
