(* ===== verification/Status_Expiry.thy ===== *)
theory Status_Expiry
  imports Status_Store
begin

text \<open>
  The status store on a Redis whose keys expire: a status is found exactly until the TTL the store was
  made with has passed, whatever is stored and looked up for other sessions in the meantime.
\<close>

section \<open>SET and GET with a clock\<close>

text \<open>A value with the time it expires at, if any.\<close>

record timed_redis =
  timed :: "(string, string \<times> int option) fmap"
  timed_calls :: nat

definition live_entry :: "timed_redis \<Rightarrow> string \<Rightarrow> int \<Rightarrow> (string \<times> int option) option" where
  "live_entry s key t =
     (case fmlookup (timed s) key of
        None \<Rightarrow> None
      | Some (v, None) \<Rightarrow> Some (v, None)
      | Some (v, Some d) \<Rightarrow> if t < d then Some (v, Some d) else None)"

text \<open>
  go-redis sends a positive expiration in whole seconds when it is one and else in milliseconds, at least
  one; \<open>KeepTTL\<close> (-1) keeps the expiry of the key, any other removes it.
\<close>

definition set_span :: "int \<Rightarrow> int" where
  "set_span expiration = (if expiration < 1000000 then 1000000 else expiration div 1000000 * 1000000)"

definition redis_set_at :: "redis_faults \<Rightarrow> int \<Rightarrow> string \<Rightarrow> string \<Rightarrow> int \<Rightarrow> timed_redis act" where
  "redis_set_at faults t key val expiration s =
     (let deadline = (if expiration > 0 then Some (t + set_span expiration)
            else if expiration = -1 then Option.bind (live_entry s key t) snd else None);
          written = s\<lparr>timed := fmupd key (val, deadline) (timed s), timed_calls := Suc (timed_calls s)\<rparr>
      in case faults (timed_calls s) of
           None \<Rightarrow> (None, written)
         | Some (e, took) \<Rightarrow> (Some e, if took then written else s\<lparr>timed_calls := Suc (timed_calls s)\<rparr>))"

definition redis_get_at :: "redis_faults \<Rightarrow> int \<Rightarrow> string \<Rightarrow> timed_redis \<Rightarrow> (go_error + string option) \<times> timed_redis" where
  "redis_get_at faults t key s =
     ((case faults (timed_calls s) of None \<Rightarrow> Inr (map_option fst (live_entry s key t)) | Some (e, took) \<Rightarrow> Inl e),
      s\<lparr>timed_calls := Suc (timed_calls s)\<rparr>)"

text \<open>At any one time this is a \<open>kv_store\<close>, so the store's operations keep their contract on it.\<close>

definition value_at :: "int \<Rightarrow> timed_redis \<Rightarrow> string \<Rightarrow> string option" where
  "value_at t s k = map_option fst (live_entry s k t)"

lemma value_at_calls [simp]: "value_at t (s\<lparr>timed_calls := n\<rparr>) = value_at t s"
  by (simp add: value_at_def live_entry_def fun_eq_iff)

lemma value_at_write:
  assumes "case d of None \<Rightarrow> True | Some x \<Rightarrow> t < x"
  shows "value_at t (s\<lparr>timed := fmupd k (v, d) (timed s), timed_calls := n\<rparr>) = (value_at t s)(k \<mapsto> v)"
  using assms by (auto simp: value_at_def live_entry_def fun_eq_iff split: option.split)

lemma redis_set_at_cases:
  "\<exists>written n. redis_set_at faults t k v expiration s =
     (case faults (timed_calls s) of None \<Rightarrow> (None, written)
      | Some (e, took) \<Rightarrow> (Some e, if took then written else s\<lparr>timed_calls := n\<rparr>)) \<and>
     value_at t written = (value_at t s)(k \<mapsto> v)"
proof -
  let ?d = "if expiration > 0 then Some (t + set_span expiration)
    else if expiration = -1 then Option.bind (live_entry s k t) snd else None"
  have "case ?d of None \<Rightarrow> True | Some x \<Rightarrow> t < x"
    by (auto simp: set_span_def live_entry_def split: option.splits if_splits bind_splits)
  from value_at_write [OF this] show ?thesis
    by (intro exI conjI) (auto simp: redis_set_at_def Let_def)
qed

interpretation timed_kv: kv_store "redis_set_at faults t" "redis_get_at faults t" "value_at t"
  for faults t
proof
  fix k v expiration s s' e
  from redis_set_at_cases [of faults t k v expiration s] obtain w n where
    w: "redis_set_at faults t k v expiration s =
     (case faults (timed_calls s) of None \<Rightarrow> (None, w)
      | Some (e, took) \<Rightarrow> (Some e, if took then w else s\<lparr>timed_calls := n\<rparr>))"
    "value_at t w = (value_at t s)(k \<mapsto> v)" by blast
  show "redis_set_at faults t k v expiration s = (None, s') \<Longrightarrow> value_at t s' = (value_at t s)(k \<mapsto> v)"
    using w by (auto split: option.splits prod.splits)
  show "redis_set_at faults t k v expiration s = (Some e, s') \<Longrightarrow>
      value_at t s' = value_at t s \<or> value_at t s' = (value_at t s)(k \<mapsto> v)"
    using w by (auto split: option.splits prod.splits if_splits)
qed (auto simp: redis_get_at_def value_at_def live_entry_def fun_eq_iff split: option.splits prod.splits)

section \<open>A session over time\<close>

text \<open>Calls of the store, each at a time of the Redis clock.\<close>

datatype status_op = Put crawl_status | Look string

fun status_run ::
  "redis_faults \<Rightarrow> int \<Rightarrow> (go_time \<Rightarrow> go_error) \<Rightarrow> (string \<Rightarrow> go_error) \<Rightarrow> string \<Rightarrow> (int \<times> status_op) list \<Rightarrow>
   timed_redis \<Rightarrow> timed_redis" where
  "status_run faults expiration te je prefx [] s = s"
| "status_run faults expiration te je prefx ((t, Put st) # ops) s =
     status_run faults expiration te je prefx ops (snd (SetStatus (redis_set_at faults t) te prefx expiration st s))"
| "status_run faults expiration te je prefx ((t, Look sid) # ops) s =
     status_run faults expiration te je prefx ops (snd (GetStatus (redis_get_at faults t) je prefx sid s))"

text \<open>A call for another session leaves the entry of this one alone.\<close>

lemma set_elsewhere:
  "status_session st \<noteq> sid \<Longrightarrow>
   fmlookup (timed (snd (SetStatus (redis_set_at faults t) te prefx expiration st s))) (prefx @ sid) =
     fmlookup (timed s) (prefx @ sid)"
  by (auto simp: SetStatus_def redis_set_at_def Let_def split: option.splits prod.splits)

lemma get_nowhere: "timed (snd (GetStatus (redis_get_at faults t) je prefx sid s)) = timed s"
  by (auto simp: GetStatus_def redis_get_at_def split: option.splits sum.splits prod.splits)

lemma run_elsewhere:
  "\<forall>t st. (t, Put st) \<in> set ops \<longrightarrow> status_session st \<noteq> sid \<Longrightarrow>
   fmlookup (timed (status_run faults expiration te je prefx ops s)) (prefx @ sid) = fmlookup (timed s) (prefx @ sid)"
proof (induction ops arbitrary: s)
  case (Cons op ops)
  obtain t x where op: "op = (t, x)" by fastforce
  with Cons show ?case by (cases x) (simp_all add: set_elsewhere get_nowhere)
qed simp

lemma set_entry:
  assumes "wf_status st" and "0 < expiration" and "SetStatus (redis_set_at faults t) te prefx expiration st s = (None, s')"
  shows "\<exists>v. fmlookup (timed s') (prefx @ status_session st) = Some (v, Some (t + set_span expiration)) \<and>
    unmarshal (dec_struct status_fields) zero_status v = Some st"
proof -
  from status.marshal_ok [OF assms(1)] obtain p where p: "marshal enc_status st = Some p"
      "unmarshal (dec_struct status_fields) zero_status p = Some st" by blast
  with assms(2,3) show ?thesis
    by (auto simp: SetStatus_def redis_set_at_def Let_def split: option.splits prod.splits)
qed

text \<open>
  Claim C26. A status lives as long as the positive TTL that \<open>SetStatus\<close> passes on: stored at time
  \<open>t\<close>, and whatever is stored for other sessions and looked up after that, with any failing calls, a
  lookup at time \<open>u\<close> finds it as it was while \<open>u\<close> is before \<open>t\<close> plus the TTL (in whole milliseconds), finds none from then on, or fails.
\<close>

theorem status_lives_for_ttl:
  assumes "wf_status st" and "0 < expiration"
    and "SetStatus (redis_set_at faults t) te prefx expiration st s = (None, s1)"
    and "\<And>x st'. (x, Put st') \<in> set ops \<Longrightarrow> status_session st' \<noteq> status_session st"
    and "GetStatus (redis_get_at faults u) je prefx (status_session st)
      (status_run faults expiration te je prefx ops s1) = (r, s2)"
  shows "r = Inr (if u < t + set_span expiration then Some st else None) \<or> (\<exists>e. r = Inl e)"
proof -
  from set_entry [OF assms(1-3)] obtain v where v: "unmarshal (dec_struct status_fields) zero_status v = Some st"
    "fmlookup (timed s1) (prefx @ status_session st) = Some (v, Some (t + set_span expiration))" by blast
  have "fmlookup (timed (status_run faults expiration te je prefx ops s1)) (prefx @ status_session st) =
      fmlookup (timed s1) (prefx @ status_session st)"
    using assms(4) by (intro run_elsewhere) blast
  with assms(5) v show ?thesis
    by (auto simp: GetStatus_def redis_get_at_def live_entry_def split: option.splits prod.splits if_splits)
qed

text \<open>The status of a session of the API, looked up a second before and at the end of its 24 hours.\<close>

definition sample_status :: crawl_status where
  "sample_status = zero_status\<lparr>status_session := ''s1'', status_text := ''queued''\<rparr>"

definition no_status :: timed_redis where
  "no_status = \<lparr>timed = fmempty, timed_calls = 0\<rparr>"

lemma sample_status_wf: "wf_status sample_status"
  by (simp add: sample_status_def wf_status_def zero_status_def zero_time_def wf_time_def days_in_def
      valid_utf8_ascii is_ascii_def)

theorem status_lives_for_ttl_witness:
  "\<exists>s1. SetStatus (redis_set_at (\<lambda>n. None) 5) (\<lambda>t. []) ''crawl:status:'' 86400000000000 sample_status no_status = (None, s1) \<and>
     (\<exists>r. fst (GetStatus (redis_get_at (\<lambda>n. None) 86400000000005) (\<lambda>v. []) ''crawl:status:'' ''s1'' s1) = r \<and>
       (r = Inr None \<or> (\<exists>e. r = Inl e)))"
proof -
  have "fst (SetStatus (redis_set_at (\<lambda>n. None) 5) (\<lambda>t. []) ''crawl:status:'' 86400000000000 sample_status no_status) = None"
    using status.marshal_ok [OF sample_status_wf] by (auto simp: SetStatus_def redis_set_at_def Let_def)
  then obtain s1 where s1: "SetStatus (redis_set_at (\<lambda>n. None) 5) (\<lambda>t. []) ''crawl:status:'' 86400000000000
      sample_status no_status = (None, s1)" by (metis prod.collapse)
  obtain r s2 where g: "GetStatus (redis_get_at (\<lambda>n. None) 86400000000005) (\<lambda>v. []) ''crawl:status:''
      (status_session sample_status)
      (status_run (\<lambda>n. None) 86400000000000 (\<lambda>t. []) (\<lambda>v. []) ''crawl:status:'' [] s1) = (r, s2)"
    by fastforce
  from status_lives_for_ttl [OF sample_status_wf _ s1 _ g] have "r = Inr None \<or> (\<exists>e. r = Inl e)"
    by (simp add: set_span_def)
  with s1 g show ?thesis by (auto simp: sample_status_def)
qed

end
