(* ===== verification/Spec2Isabelle.thy ===== *)
theory Spec2Isabelle
  imports Commit_Coordinator Config Worker_Dispatch Worker_Shutdown Api Loadgen Graph_Writer Well_Typed
    Pipeline Worker_System Worker_Cluster Graph_Store Api_Concurrent Mains
    Metrics_Concurrent Status_Expiry
begin

text \<open>
  A model of Relentless Bookworm, a distributed crawler of Open Library written in Go, and the
  theorems that make it correct.

  \<^bold>\<open>The program.\<close> \<open>cmd/api\<close> accepts a seed URL over HTTP, appends a job to the frontier topic of Kafka
  and keeps the status of the session in Redis. \<open>cmd/worker\<close> fetches jobs from the frontier, drops
  URLs seen before with a Redis key, fetches the record of a job in a goroutine with retries, and
  publishes what it found: a result, the edges of the record, and jobs for the records it refers to,
  up to a depth; failures go to a dead-letter topic. Offsets are committed by one goroutine in
  order, \<open>cmd/worker/commit_coordinator.go\<close>. \<open>cmd/graph-writer\<close> reads results and edges and merges
  them into a Neo4j graph. \<open>cmd/loadgen\<close> submits a file of seeds to the API. \<open>internal/ol\<close> builds and
  fetches Open Library URLs and parses its records, \<open>internal/models\<close> holds the messages.

  \<^bold>\<open>Foundations.\<close> \<open>Prelude\<close>: 64-bit integers with their wrap-around written out, errors, actions that
  stop at the first error. \<open>Go_Strings\<close>, \<open>Go_Time\<close>, \<open>Go_Float\<close>, \<open>Go_Json\<close>, \<open>Go_Url\<close>, \<open>Go_Http\<close>: what
  the source uses of the Go library, strings being byte lists. \<open>Codec\<close>: \<open>json.Marshal\<close> and
  \<open>json.Unmarshal\<close> of typed values, with the locales of a codec that round-trips and of one that
  does so up to invalid UTF-8. \<open>Kafka\<close>, \<open>Redis\<close>: messages, and the documented behaviour of the
  commands, with an arbitrary fault at every call.

  \<^bold>\<open>Components\<close>, each with its state, operations, lemmas and properties:
  \<^item> \<open>Commit_Coordinator\<close> (\<open>cmd/worker/commit_coordinator.go\<close>): buffers, next offsets, gauges and the
    main loop; commits are consecutive, refine the contiguous prefix of what completed, stop at a
    gap, and survive failures.
  \<^item> \<open>Models\<close> (\<open>internal/models\<close>): records and their JSON, as interpretations of the codec locales.
  \<^item> \<open>OL_Client\<close>, \<open>OL_Robots\<close>, \<open>OL_Parser\<close> (\<open>internal/ol\<close>): URLs and fetching; robots.txt rules and what
    they enforce; from the record to the node and back. \<open>Well_Typed\<close>: what is decoded has Go's types.
  \<^item> \<open>Worker_Metrics\<close> (\<open>cmd/worker/worker_metrics.go\<close>): counters and histograms.
  \<^item> \<open>Worker\<close> (\<open>cmd/worker/main.go\<close>): every operation on a job, on a \<open>world\<close> that records requests,
    writes, waits and the commit channel; an \<open>env\<close> chooses all answers, one at each reading of its clock.
    \<open>Worker_Retry\<close>: requests, waits and robots.txt. \<open>Worker_Publish\<close>: the plan of a node, the locale
    \<open>publisher\<close> and its interpretations, the outcome of a job, the depth of a crawl, what is fetched of
    a disallowed job. \<open>Worker_Dispatch\<close>: dispatching in its two halves (up to \<open>SetNX\<close>, from the wait for
    a slot on), the locale \<open>dedupe_store\<close>, no URL twice.
  \<^item> \<open>Config\<close> (\<open>common/helper.go\<close>, \<open>main\<close> and \<open>buildHTTPClient\<close> of the worker): environment, duration
    syntax, the limits of a started worker.
  \<^item> \<open>Worker_Shutdown\<close> (goroutines of \<open>cmd/worker/main.go\<close>): a step relation on semaphore, wait group,
    commit channel and cancellation; invariants by rule induction, termination of the shutdown, and
    the two schedules in which it panics or hangs.
  \<^item> \<open>Producer\<close> (\<open>internal/kafka/producer.go\<close>), \<open>Status_Store\<close> (\<open>internal/store\<close>): contracts as locales,
    interpreted on the Kafka log and the Redis map. \<open>Api\<close> (\<open>cmd/api/main.go\<close>): the handlers, over both
    contracts. \<open>Loadgen\<close> (\<open>cmd/loadgen/main.go\<close>): any order of its goroutines, one request after another;
    a base URL that does not lead to the API's host reaches nothing.
  \<^item> \<open>Graph_Writer\<close> (\<open>cmd/graph-writer/main.go\<close>): queries, decoding through \<open>any\<close> with sorted members, the
    books of both consumers.
  \<^item> \<open>Pipeline\<close>: a crawl from the API into the worker, an expansion from the worker into the graph, and
    that the exchange between frontier and workers ends, by a multiset order on the levels left.

  \<^bold>\<open>Components together\<close>, where goroutines and processes meet:
  \<^item> \<open>Worker_System\<close>: the worker process with its commit coordinator inside as a goroutine that commits
    one message per step. It refines \<open>Worker_Shutdown\<close> and the loop of \<open>Commit_Coordinator\<close> for every
    schedule; a committed message is done; without redelivery, no message is passed over by a commit
    before it is committed itself, unless a later one of its partition completed first of all (then
    it is); the shutdown ends.
  \<^item> \<open>Worker_Cluster\<close>: worker replicas on one Redis whose dedupe keys expire after the TTL that
    \<open>claimMessage\<close> passes to \<open>SetNX\<close>, with any time between \<open>SetNX\<close> and the start of the goroutine;
    locales \<open>lease_store\<close> and \<open>exact_lease_store\<close>.
  \<^item> \<open>Graph_Store\<close>: both consumers of the graph writer on a Neo4j that runs the \<open>MERGE\<close> and \<open>SET\<close> of the
    queries (locale \<open>merge_store\<close>): nodes and links do not depend on order or repetition of the messages,
    a property of a node is that of the last message that gives it a value.
  \<^item> \<open>Api_Concurrent\<close>: \<open>handleCrawl\<close> in steps, with any number of requests in flight; one alone is the
    handler of \<open>Api\<close>.
  \<^item> \<open>Metrics_Concurrent\<close>: observers of a histogram in atomic steps and a scrape of /metrics beside them.
  \<^item> \<open>Status_Expiry\<close>: the status store on a Redis whose keys expire.
  \<^item> \<open>Mains\<close>: the \<open>main\<close> functions of all five programs (\<open>cmd/worker\<close>, \<open>cmd/graph-writer\<close>, \<open>cmd/api\<close>,
    \<open>cmd/kafka-check\<close>, \<open>cmd/loadgen\<close>) as traces of what they open, start, close and log, with deferred
    calls; the constructors of the clients; the routes of the API; which topics meet.

  \<^bold>\<open>Bounds.\<close> No fuel is used: loops are structural or have a measure (\<open>drain\<close>: the buffered messages;
  retries: the attempts left, counted without wrap-around, which differs from the code only for
  \<open>RETRY_MAX\<close> = 2^63 - 1, where the code does not end; \<open>parse_duration\<close>: the text left). \<open>json\<close> nesting is bounded by 10000 as in
  Go. The order in which Go ranges over maps and runs goroutines is an argument or a choice of steps.

  \<^bold>\<open>Not modelled.\<close> Log lines outside \<open>Mains\<close>; the inside of the Kafka, Redis, Neo4j and HTTP clients and of
  the listening servers; the generated mocks and tests; the interfaces of \<open>internal/graph\<close>, which have no
  code. In \<open>Api\<close> and \<open>Api_Concurrent\<close> keys do not expire, so what is said there of a session holds for the
  TTL of its key, which is what \<open>Status_Expiry\<close> bounds. A consumed message of the graph writer and a
  status lookup are one step. Of the Go library: non-ASCII case folding, \<open>%q\<close> of non-ASCII bytes, JSON
  escapes inside time strings and the capacity left in a decoded slice are outside what the program is
  given here.
\<close>

end
